(* ===== verification/Prelude.thy ===== *)
theory Prelude
  imports Main "HOL-Library.Word"
begin

text \<open>
  Shared vocabulary of the development: machine types, the part of the C library the
  sources use (string functions, number formatting and parsing), and the generic lemmas
  the component theories share.

  A C \<open>char\<close> is a \<^typ>\<open>char\<close> (one byte, unsigned as on the target), a NUL-terminated string is the
  \<^typ>\<open>string\<close> of the characters before the terminator, an \<open>uint8_t\<close> is an \<open>8 word\<close>.
\<close>

unbundle bit_operations_syntax

section \<open>Machine types\<close>

type_synonym byte = "8 word"
type_synonym u16 = "16 word"
type_synonym u32 = "32 word"
type_synonym u64 = "64 word"

named_theorems clib_simps \<open>unfolding rules of the C library functions\<close>
named_theorems c_chars \<open>character codes of the literals the sources compare with\<close>

definition s32 :: "int \<Rightarrow> int" where
  "s32 i = sint (word_of_int i :: 32 word)"

lemma s32_id: "- (2 ^ 31) \<le> i \<Longrightarrow> i < 2 ^ 31 \<Longrightarrow> s32 i = i"
  by (simp add: s32_def int_word_sint)

lemma s32_bounds: "- (2 ^ 31) \<le> s32 i \<and> s32 i < 2 ^ 31"
  using sint_greater_eq [of "word_of_int i :: 32 word"] sint_less [of "word_of_int i :: 32 word"]
  by (simp add: s32_def)

section \<open>Characters and bytes\<close>

abbreviation code :: "char \<Rightarrow> nat" where
  "code c \<equiv> of_char c"

definition byte_of :: "char \<Rightarrow> byte" where
  "byte_of c = word_of_nat (code c)"

definition char_of_byte :: "byte \<Rightarrow> char" where
  "char_of_byte b = char_of (unat b)"

lemma code_less [simp]: "code c < 256"
  by (rule nat_of_char_less_256)

lemma unat_byte_of [simp]: "unat (byte_of c) = code c"
  by (simp add: byte_of_def unat_of_nat)

lemma char_of_byte_of [simp]: "char_of_byte (byte_of c) = c"
  by (simp add: char_of_byte_def)

lemma byte_of_char_of_byte [simp]: "byte_of (char_of_byte b) = b"
proof -
  have "unat b < 256"
    using unsigned_less [of b, where 'a = nat] by simp
  then show ?thesis
    by (simp add: byte_of_def char_of_byte_def)
qed

lemma byte_of_inject [simp]: "byte_of c = byte_of d \<longleftrightarrow> c = d"
  by (metis char_of_byte_of)

abbreviation NUL :: char where
  "NUL \<equiv> CHR 0x00"

definition isdigit :: "char \<Rightarrow> bool" where
  "isdigit c \<longleftrightarrow> 48 \<le> code c \<and> code c \<le> 57"

definition isupper :: "char \<Rightarrow> bool" where
  "isupper c \<longleftrightarrow> 65 \<le> code c \<and> code c \<le> 90"

definition islower :: "char \<Rightarrow> bool" where
  "islower c \<longleftrightarrow> 97 \<le> code c \<and> code c \<le> 122"

definition isalpha :: "char \<Rightarrow> bool" where
  "isalpha c \<longleftrightarrow> isupper c \<or> islower c"

definition isxdigit :: "char \<Rightarrow> bool" where
  "isxdigit c \<longleftrightarrow> isdigit c \<or> (65 \<le> code c \<and> code c \<le> 70) \<or> (97 \<le> code c \<and> code c \<le> 102)"

definition tolower :: "char \<Rightarrow> char" where
  "tolower c = (if isupper c then char_of (code c + 32) else c)"

definition isspace :: "char \<Rightarrow> bool" where
  "isspace c \<longleftrightarrow> code c = 32 \<or> (9 \<le> code c \<and> code c \<le> 13)"

lemmas ctype_defs = isdigit_def isupper_def islower_def isalpha_def isxdigit_def tolower_def
  isspace_def

section \<open>C string functions\<close>

text \<open>The string a \<open>char *\<close> denotes in a buffer: everything before the first NUL.\<close>

definition cstr :: "string \<Rightarrow> string" where
  "cstr buf = takeWhile (\<lambda>c. c \<noteq> NUL) buf"

lemma cstr_id: "NUL \<notin> set s \<Longrightarrow> cstr s = s"
  unfolding cstr_def by (subst takeWhile_eq_all_conv) auto

lemma cstr_append_NUL: "NUL \<notin> set s \<Longrightarrow> cstr (s @ NUL # t) = s"
  by (auto simp: cstr_def takeWhile_append)

lemma NUL_notin_cstr [simp]: "NUL \<notin> set (cstr s)"
  by (auto simp: cstr_def dest: set_takeWhileD)

text \<open>\<open>strstr\<close> as the index of the first occurrence.\<close>

fun strstr :: "string \<Rightarrow> string \<Rightarrow> nat option" where
  "strstr [] pat = (if pat = [] then Some 0 else None)"
| "strstr (c # cs) pat =
     (if take (length pat) (c # cs) = pat then Some 0 else map_option Suc (strstr cs pat))"

lemma strstr_Some_take:
  "strstr s pat = Some i \<Longrightarrow> take (length pat) (drop i s) = pat \<and> i + length pat \<le> length s"
proof (induction s arbitrary: i)
  case Nil
  then show ?case by (simp split: if_splits)
next
  case (Cons c cs)
  show ?case
  proof (cases "take (length pat) (c # cs) = pat")
    case True
    with Cons.prems have "i = 0" by simp
    moreover from True have "length pat \<le> length (c # cs)"
      by (metis length_take min.absorb_iff2)
    ultimately show ?thesis using True by simp
  next
    case False
    with Cons.prems obtain j where "strstr cs pat = Some j" "i = Suc j" by auto
    with Cons.IH [of j] show ?thesis by simp
  qed
qed

lemma strstr_None_no_occ:
  "strstr s pat = None \<Longrightarrow> \<not> (\<exists>i. i + length pat \<le> length s \<and> take (length pat) (drop i s) = pat)"
proof (induction s)
  case Nil
  then show ?case by (auto split: if_splits)
next
  case (Cons c cs)
  then have ne: "take (length pat) (c # cs) \<noteq> pat" and none: "strstr cs pat = None"
    by (auto split: if_splits)
  show ?case
  proof
    assume "\<exists>i. i + length pat \<le> length (c # cs) \<and> take (length pat) (drop i (c # cs)) = pat"
    then obtain i where i: "i + length pat \<le> length (c # cs)"
      "take (length pat) (drop i (c # cs)) = pat" by blast
    with ne obtain j where "i = Suc j" by (cases i) auto
    with i Cons.IH [OF none] show False by auto
  qed
qed

definition strncmp_eq :: "string \<Rightarrow> string \<Rightarrow> bool" where
  \<comment> \<open>\<open>!strncmp(s, p, strlen(p))\<close>: \<open>p\<close> is a prefix of \<open>s\<close>\<close>
  "strncmp_eq s p \<longleftrightarrow> take (length p) s = p"

definition strcasecmp_eq :: "string \<Rightarrow> string \<Rightarrow> bool" where
  "strcasecmp_eq s t \<longleftrightarrow> map tolower s = map tolower t"

definition strncasecmp_eq :: "string \<Rightarrow> string \<Rightarrow> bool" where
  \<comment> \<open>\<open>!strncasecmp(s, p, strlen(p))\<close>\<close>
  "strncasecmp_eq s p \<longleftrightarrow> map tolower (take (length p) s) = map tolower p"

text \<open>\<open>atoi\<close>: white space, an optional sign, digits; the value wraps at 32 bits.\<close>

fun atoi_digits :: "int \<Rightarrow> string \<Rightarrow> int" where
  "atoi_digits acc [] = acc"
| "atoi_digits acc (c # cs) =
     (if isdigit c then atoi_digits (acc * 10 + (int (code c) - 48)) cs else acc)"

definition atoi :: "string \<Rightarrow> int" where
  "atoi s =
     (case dropWhile isspace s of
        [] \<Rightarrow> 0
      | c # cs \<Rightarrow>
          if c = CHR ''-'' then s32 (- atoi_digits 0 cs)
          else if c = CHR ''+'' then s32 (atoi_digits 0 cs)
          else s32 (atoi_digits 0 (c # cs)))"

text \<open>\<open>sprintf\<close> with \<open>%d\<close> and \<open>%08x\<close>.\<close>

definition digit_char :: "nat \<Rightarrow> char" where
  "digit_char n = char_of (48 + n)"

fun dec_nat :: "nat \<Rightarrow> string" where
  "dec_nat n = (if n < 10 then [digit_char n] else dec_nat (n div 10) @ [digit_char (n mod 10)])"

declare dec_nat.simps [simp del]

definition sprintf_d :: "int \<Rightarrow> string" where
  "sprintf_d i = (if i < 0 then CHR ''-'' # dec_nat (nat (- i)) else dec_nat (nat i))"

definition hex_char :: "nat \<Rightarrow> char" where
  "hex_char n = (if n < 10 then char_of (48 + n) else char_of (87 + n))"

definition sprintf_08x :: "u32 \<Rightarrow> string" where
  "sprintf_08x w =
     map (\<lambda>i. hex_char (unat (drop_bit (4 * (7 - i)) w AND 15))) [0..<8]"

section \<open>Lemmas on the C library\<close>

lemma code_char_of [simp]: "n < 256 \<Longrightarrow> code (char_of n) = n"
  by simp

lemma code_digit_char [simp]: "n < 10 \<Longrightarrow> code (digit_char n) = 48 + n"
  by (simp add: digit_char_def)

lemma isdigit_digit_char [simp]: "n < 10 \<Longrightarrow> isdigit (digit_char n)"
  by (simp add: isdigit_def)

lemma dec_nat_digits: "\<forall>c \<in> set (dec_nat n). isdigit c"
proof (induction n rule: dec_nat.induct)
  case (1 n)
  show ?case
  proof (cases "n < 10")
    case True
    then show ?thesis by (subst dec_nat.simps) simp
  next
    case False
    with 1 show ?thesis by (subst dec_nat.simps) auto
  qed
qed

lemma dec_nat_nonempty [simp]: "dec_nat n \<noteq> []"
  by (subst dec_nat.simps) simp

lemma atoi_digits_append:
  "\<forall>c \<in> set s. isdigit c \<Longrightarrow> atoi_digits acc (s @ t) = atoi_digits (atoi_digits acc s) t"
  by (induction s arbitrary: acc) auto

lemma atoi_digits_dec_nat: "atoi_digits 0 (dec_nat n) = int n"
proof (induction n rule: dec_nat.induct)
  case (1 n)
  show ?case
  proof (cases "n < 10")
    case True
    then show ?thesis by (subst dec_nat.simps) simp
  next
    case False
    with 1 have IH: "atoi_digits 0 (dec_nat (n div 10)) = int (n div 10)" by simp
    have "int (n div 10) * 10 + int (n mod 10) = int n"
      using div_mult_mod_eq [of n 10] by (metis of_nat_add of_nat_mult of_nat_numeral)
    with False IH show ?thesis
      by (subst dec_nat.simps) (simp add: atoi_digits_append dec_nat_digits)
  qed
qed

lemma isdigit_not_space: "isdigit c \<Longrightarrow> \<not> isspace c \<and> c \<noteq> CHR ''-'' \<and> c \<noteq> CHR ''+''"
  by (auto simp: isdigit_def isspace_def)

lemma atoi_dec_nat:
  assumes "n < 2 ^ 31"
  shows "atoi (dec_nat n) = int n"
proof -
  obtain c cs where c: "dec_nat n = c # cs"
    by (cases "dec_nat n") auto
  with dec_nat_digits [of n] have d: "isdigit c" by auto
  have "dropWhile isspace (dec_nat n) = c # cs"
    using c isdigit_not_space [OF d] by simp
  moreover have "atoi_digits 0 (c # cs) = int n"
    using atoi_digits_dec_nat [of n] c by simp
  ultimately show ?thesis
    using isdigit_not_space [OF d] assms by (simp add: atoi_def s32_id)
qed

lemma length_dec_nat: "n < 10 ^ k \<Longrightarrow> 0 < k \<Longrightarrow> length (dec_nat n) \<le> k"
proof (induction k arbitrary: n)
  case (Suc k)
  show ?case
  proof (cases "n < 10")
    case True
    then show ?thesis by (subst dec_nat.simps) simp
  next
    case False
    with Suc.prems have "n div 10 < 10 ^ k" "0 < k"
      by (auto intro: gr0I)
    with Suc.IH False show ?thesis by (subst dec_nat.simps) simp
  qed
qed simp

lemma sprintf_d_cases:
  obtains ds where "ds \<noteq> []" "\<forall>c \<in> set ds. isdigit c" "sprintf_d i = ds"
  | ds where "ds \<noteq> []" "\<forall>c \<in> set ds. isdigit c" "sprintf_d i = CHR ''-'' # ds"
  using dec_nat_digits dec_nat_nonempty by (metis sprintf_d_def)

lemma length_sprintf_d: "- (2 ^ 31) \<le> i \<Longrightarrow> i < 2 ^ 31 \<Longrightarrow> length (sprintf_d i) \<le> 11"
  using length_dec_nat [of "nat (- i)" 10] length_dec_nat [of "nat i" 10]
  by (cases "i < 0") (simp_all add: sprintf_d_def nat_less_iff)

lemma atoi_sprintf_d:
  assumes "- (2 ^ 31) \<le> i" "i < 2 ^ 31"
  shows "atoi (sprintf_d i) = i"
proof (cases "i < 0")
  case True
  then have "atoi (sprintf_d i) = s32 i"
    by (simp add: sprintf_d_def atoi_def isspace_def atoi_digits_dec_nat)
  with assms show ?thesis by (simp add: s32_id)
next
  case False
  with assms atoi_dec_nat [of "nat i"] show ?thesis by (simp add: sprintf_d_def)
qed

lemma sprintf_d_NUL: "NUL \<notin> set (sprintf_d i)"
  using dec_nat_digits [of "nat i"] dec_nat_digits [of "nat (- i)"]
  by (auto simp: sprintf_d_def isdigit_def)

lemma length_sprintf_08x [simp]: "length (sprintf_08x w) = 8"
  by (simp add: sprintf_08x_def)

section \<open>List lemmas\<close>

lemma take_drop_nth_list: "i < length xs \<Longrightarrow> take 1 (drop i xs) = [xs ! i]"
  by (simp add: Cons_nth_drop_Suc [symmetric])

lemma map_nth_slice: "a + n \<le> length xs \<Longrightarrow> map (\<lambda>i. xs ! (a + i)) [0..<n] = take n (drop a xs)"
  by (rule nth_equalityI) auto

section \<open>Arithmetic\<close>

lemma mod_add_cancel_left:
  fixes a :: nat
  assumes "(a + x) mod m = (a + y) mod m"
  shows "x mod m = y mod m"
proof -
  have "int (a + x) mod int m = int (a + y) mod int m"
    using assms by (metis zmod_int)
  then have "int m dvd int x - int y"
    by (simp add: mod_eq_dvd_iff)
  then have "int x mod int m = int y mod int m"
    by (simp add: mod_eq_dvd_iff)
  then show ?thesis by (metis nat_int zmod_int)
qed

lemma mod_shift_cancel:
  fixes a :: nat
  assumes "a' mod m = a mod m" "a' + x = a + y"
  shows "x mod m = y mod m"
proof (rule mod_add_cancel_left)
  have "(a + x) mod m = (a mod m + x) mod m" by (rule mod_add_left_eq [symmetric])
  also have "\<dots> = (a' mod m + x) mod m" by (simp only: assms(1))
  also have "\<dots> = (a' + x) mod m" by (rule mod_add_left_eq)
  finally show "(a + x) mod m = (a + y) mod m" by (simp only: assms(2))
qed

end
