(* ===== verification/Fletcher32.thy ===== *)
theory Fletcher32
  imports Prelude
begin

text \<open>
  The Fletcher-32 checksum of \<open>components/checksum/src/fletcher32.c\<close>.  The routine sums 16-bit
  halfwords into two 32-bit accumulators and reduces them modulo 65535 only once per block of 360
  halfwords.  The theory models the two nested loops at their machine width, proves that no
  addition wraps, that the result is the textbook pair of sums, and which corruptions it detects.
\<close>

section \<open>The routine\<close>

text \<open>The inner \<open>do ... while ((blocklen -= 2))\<close> loop; \<^const>\<open>None\<close> is a read past the buffer.\<close>

fun fl_block :: "u16 list \<Rightarrow> u32 \<Rightarrow> u32 \<Rightarrow> u32 \<Rightarrow> (u32 \<times> u32 \<times> u16 list) option" where
  "fl_block [] blocklen c0 c1 = None"
| "fl_block (d # ds) blocklen c0 c1 =
     (let c0 = c0 + ucast d;
          c1 = c1 + c0;
          blocklen = blocklen - 2
      in if blocklen \<noteq> 0 then fl_block ds blocklen c0 c1 else Some (c0, c1, ds))"

definition fl_blocklen :: "u32 \<Rightarrow> u32" where
  "fl_blocklen len = (if len > 360 * 2 then 360 * 2 else len)"

lemma fl_blocklen_progress: "len > 0 \<Longrightarrow> unat (len - fl_blocklen len) < unat len"
  by (auto simp: fl_blocklen_def unat_sub word_less_nat_alt word_le_nat_alt)

function fl_loop :: "u16 list \<Rightarrow> u32 \<Rightarrow> u32 \<Rightarrow> u32 \<Rightarrow> u32 option" where
  "fl_loop data len c0 c1 =
     (if len > 0 then
        (let blocklen = fl_blocklen len;
             len' = len - blocklen
         in case fl_block data blocklen c0 c1 of
              None \<Rightarrow> None
            | Some (c0, c1, data) \<Rightarrow> fl_loop data len' (c0 mod 65535) (c1 mod 65535))
      else Some (push_bit 16 c1 OR c0))"
  by pat_completeness auto
termination
  by (relation "measure (\<lambda>(data, len, c0, c1). unat len)") (auto simp: fl_blocklen_progress)

declare fl_loop.simps [simp del]

definition fletcher32 :: "u16 list \<Rightarrow> u32 \<Rightarrow> u32 option" where
  "fletcher32 data len = fl_loop data ((len + 1) AND NOT 1) 0 0"

text \<open>The cast \<open>(const unsigned short *)buff\<close> on the little-endian target.\<close>

fun halfwords :: "string \<Rightarrow> u16 list" where
  "halfwords (a # b # cs) = (word_of_nat (code a + 256 * code b)) # halfwords cs"
| "halfwords _ = []"

definition fletcher32_checksum_get :: "string \<Rightarrow> u32 \<Rightarrow> u32 option" where
  "fletcher32_checksum_get buff sz = fletcher32 (halfwords buff) sz"

section \<open>The textbook definition\<close>

primrec wsum :: "nat list \<Rightarrow> nat" where
  "wsum [] = 0"
| "wsum (x # xs) = (length xs + 1) * x + wsum xs"

definition fl_ref :: "u16 list \<Rightarrow> u32" where
  "fl_ref xs =
     word_of_nat (wsum (map unat xs) mod 65535 * 65536 + sum_list (map unat xs) mod 65535)"

lemma wsum_append: "wsum (xs @ ys) = wsum xs + length ys * sum_list xs + wsum ys"
  by (induction xs) (auto simp: algebra_simps)

lemma sum_list_u16_bound: "sum_list (map unat (xs :: u16 list)) \<le> length xs * 65535"
proof (induction xs)
  case (Cons x xs)
  have "unat x \<le> 65535"
    using unsigned_less [of x, where 'a = nat] by simp
  with Cons show ?case by simp
qed simp

lemma wsum_u16_bound: "2 * wsum (map unat (xs :: u16 list)) \<le> length xs * (length xs + 1) * 65535"
proof (induction xs)
  case (Cons x xs)
  have "unat x \<le> 65535"
    using unsigned_less [of x, where 'a = nat] by simp
  then have "(length xs + 1) * unat x \<le> (length xs + 1) * 65535"
    by (rule mult_le_mono2)
  with Cons show ?case by (simp add: algebra_simps)
qed simp

lemma length_halfwords [simp]: "length (halfwords s) = length s div 2"
  by (induction s rule: halfwords.induct) auto

lemma unat_ucast_u16: "unat (ucast (d :: u16) :: u32) = unat d"
  using unsigned_less [of d, where 'a = nat]
  by (simp add: unsigned_ucast_eq take_bit_nat_eq_self_iff)

section \<open>One block is exact\<close>

lemma fl_block_exact:
  assumes "0 < k" "k \<le> length data" "unat blocklen = 2 * k"
    and "unat c0 + sum_list (map unat (take k data)) < 2 ^ 32"
    and "unat c1 + k * unat c0 + wsum (map unat (take k data)) < 2 ^ 32"
  shows "fl_block data blocklen c0 c1 =
    Some (word_of_nat (unat c0 + sum_list (map unat (take k data))),
          word_of_nat (unat c1 + k * unat c0 + wsum (map unat (take k data))), drop k data)"
  using assms
proof (induction k arbitrary: data blocklen c0 c1)
  case 0
  then show ?case by simp
next
  case (Suc k)
  then obtain d ds where data: "data = d # ds" by (cases data) auto
  define c0' where "c0' = c0 + ucast d"
  define c1' where "c1' = c1 + c0'"
  have ucd: "unat (ucast d :: u32) = unat d"
    by (rule unat_ucast_u16)
  have b0: "unat c0 + unat d < 2 ^ 32"
    using Suc.prems(4) data by simp
  then have c0': "unat c0' = unat c0 + unat d"
    by (simp add: c0'_def unat_word_ariths ucd)
  have "unat c1 + (unat c0 + unat d) < 2 ^ 32"
    using Suc.prems(5) data by (simp add: algebra_simps)
  then have c1': "unat c1' = unat c1 + (unat c0 + unat d)"
    by (simp add: c1'_def unat_word_ariths c0')
  have "(2 :: u32) \<le> blocklen"
    using Suc.prems(3) by (simp add: word_le_nat_alt)
  then have bl: "unat (blocklen - 2) = 2 * k"
    using Suc.prems(3) by (simp add: unat_sub)
  show ?case
  proof (cases "k = 0")
    case True
    with bl have "blocklen - 2 = 0" by (simp add: unat_eq_zero)
    then have "fl_block data blocklen c0 c1 = Some (c0', c1', ds)"
      by (simp add: data Let_def c0'_def c1'_def)
    moreover have "c0' = word_of_nat (unat c0 + unat d)"
      by (subst c0' [symmetric]) simp
    moreover have "c1' = word_of_nat (unat c1 + (unat c0 + unat d))"
      by (subst c1' [symmetric]) simp
    ultimately show ?thesis using True data by (simp add: add.assoc)
  next
    case False
    with bl have "blocklen - 2 \<noteq> 0" by auto
    then have "fl_block data blocklen c0 c1 = fl_block ds (blocklen - 2) c0' c1'"
      by (simp add: data Let_def c0'_def c1'_def)
    also have "\<dots> = Some (word_of_nat (unat c0' + sum_list (map unat (take k ds))),
          word_of_nat (unat c1' + k * unat c0' + wsum (map unat (take k ds))), drop k ds)"
      using Suc.prems data False
      by (intro Suc.IH) (auto simp: bl c0' c1' algebra_simps)
    also have "unat c0' + sum_list (map unat (take k ds)) =
        unat c0 + sum_list (map unat (take (Suc k) data))"
      by (simp add: data c0')
    also have "unat c1' + k * unat c0' + wsum (map unat (take k ds)) =
        unat c1 + Suc k * unat c0 + wsum (map unat (take (Suc k) data))"
      using Suc.prems(2) data by (simp add: c0' c1' algebra_simps min_def)
    finally show ?thesis using data by simp
  qed
qed

lemma fl_block_None: "length data < k \<Longrightarrow> unat blocklen = 2 * k \<Longrightarrow> fl_block data blocklen c0 c1 = None"
proof (induction data arbitrary: k blocklen c0 c1)
  case (Cons d ds)
  then obtain j where j: "k = Suc j" "length ds < j" by (cases k) auto
  have "(2 :: u32) \<le> blocklen"
    using Cons.prems j by (simp add: word_le_nat_alt)
  then have "unat (blocklen - 2) = 2 * j"
    using Cons.prems j by (simp add: unat_sub)
  with Cons.IH j show ?case by (auto simp: Let_def)
qed simp

section \<open>The whole routine is exact\<close>

lemma join_halves:
  assumes "unat (c0 :: u32) < 65536"
  shows "push_bit 16 c1 OR c0 = word_of_nat (unat c1 * 65536 + unat c0)"
proof -
  have "push_bit 16 c1 AND c0 = 0"
  proof (rule bit_eqI)
    fix n
    have "\<not> bit c0 n" if "16 \<le> n"
    proof -
      have "(65536 :: nat) \<le> 2 ^ n"
        using power_increasing [OF that, of "2 :: nat"] by simp
      with assms have "\<not> bit (unat c0) n" by (simp add: bit_iff_odd)
      then show ?thesis by (simp add: bit_unsigned_iff)
    qed
    then show "bit (push_bit 16 c1 AND c0) n = bit (0 :: u32) n"
      by (auto simp: bit_and_iff bit_push_bit_iff)
  qed
  then have "push_bit 16 c1 OR c0 = push_bit 16 c1 + c0"
    by (simp add: disjunctive_add_eq_or)
  also have "\<dots> = word_of_nat (unat c1 * 65536 + unat c0)"
    by (simp add: push_bit_eq_mult)
  finally show ?thesis .
qed

lemma fl_loop_exact:
  assumes "unat len = 2 * n" "n \<le> length data" "unat c0 < 65535" "unat c1 < 65535"
  shows "fl_loop data len c0 c1 =
    Some (word_of_nat ((unat c1 + n * unat c0 + wsum (map unat (take n data))) mod 65535 * 65536 +
                       (unat c0 + sum_list (map unat (take n data))) mod 65535))"
  using assms
proof (induction n arbitrary: data len c0 c1 rule: less_induct)
  case (less n)
  show ?case
  proof (cases "n = 0")
    case True
    with less.prems have "len = 0" by (simp add: unat_eq_zero)
    with True less.prems join_halves [of c0 c1] show ?thesis
      by (simp add: fl_loop.simps)
  next
    case False
    define k where "k = min n 360"
    define s0 where "s0 = unat c0 + sum_list (map unat (take k data))"
    define s1 where "s1 = unat c1 + k * unat c0 + wsum (map unat (take k data))"
    have len: "len > 0"
      using less.prems(1) False by (simp add: word_less_nat_alt)
    have bl: "unat (fl_blocklen len) = 2 * k"
      using less.prems(1) by (auto simp: fl_blocklen_def k_def word_less_nat_alt min_def)
    have "fl_blocklen len \<le> len"
      by (simp add: word_le_nat_alt bl less.prems(1) k_def)
    then have rest: "unat (len - fl_blocklen len) = 2 * (n - k)"
      by (simp add: unat_sub bl less.prems(1))
    have k: "0 < k" "k \<le> 360" "k \<le> length data" "n - k < n" "n - k \<le> length (drop k data)"
      using False less.prems(2) by (auto simp: k_def)
    have s0: "s0 < 2 ^ 32"
      using sum_list_u16_bound [of "take k data"] less.prems(3) k by (simp add: s0_def)
    have "k * (k + 1) \<le> 360 * 361"
      using k by (intro mult_le_mono) auto
    then have "2 * wsum (map unat (take k data)) \<le> 360 * 361 * 65535"
      using wsum_u16_bound [of "take k data"] k by (simp add: min_absorb2)
    moreover have "k * unat c0 \<le> 360 * 65534"
      using k less.prems(3) by (intro mult_le_mono) auto
    ultimately have s1: "s1 < 2 ^ 32"
      using less.prems(4) by (simp add: s1_def)
    have split: "take n data = take k data @ take (n - k) (drop k data)"
      using take_add [of k "n - k" data] by (simp add: k_def)
    have len_rest: "length (take (n - k) (drop k data)) = n - k"
      using k by simp
    have nk: "n * unat c0 = k * unat c0 + (n - k) * unat c0"
      by (simp add: k_def add_mult_distrib [symmetric])
    have "fl_block data (fl_blocklen len) c0 c1 =
        Some (word_of_nat s0, word_of_nat s1, drop k data)"
      unfolding s0_def s1_def
      by (rule fl_block_exact [OF k(1) k(3) bl s0 [unfolded s0_def] s1 [unfolded s1_def]])
    then have "fl_loop data len c0 c1 =
        fl_loop (drop k data) (len - fl_blocklen len) (word_of_nat s0 mod 65535) (word_of_nat s1 mod 65535)"
      using len by (subst fl_loop.simps) (simp add: Let_def)
    also have "\<dots> = Some (word_of_nat ((s1 mod 65535 + (n - k) * (s0 mod 65535) +
        wsum (map unat (take (n - k) (drop k data)))) mod 65535 * 65536 +
        (s0 mod 65535 + sum_list (map unat (take (n - k) (drop k data)))) mod 65535))"
    proof -
      have m: "unat (word_of_nat s0 mod 65535 :: u32) = s0 mod 65535"
        "unat (word_of_nat s1 mod 65535 :: u32) = s1 mod 65535"
        using s0 s1 by (simp_all add: unat_word_ariths unat_of_nat)
      show ?thesis
        using less.IH [OF k(4) rest k(5), of "word_of_nat s0 mod 65535" "word_of_nat s1 mod 65535"]
        by (simp add: m)
    qed
    also have "(s0 mod 65535 + sum_list (map unat (take (n - k) (drop k data)))) mod 65535 =
        (unat c0 + sum_list (map unat (take n data))) mod 65535"
      by (simp add: split s0_def mod_simps add.assoc)
    also have "(s1 mod 65535 + (n - k) * (s0 mod 65535) +
        wsum (map unat (take (n - k) (drop k data)))) mod 65535 =
        (unat c1 + n * unat c0 + wsum (map unat (take n data))) mod 65535"
    proof -
      have "s1 + (n - k) * s0 + wsum (map unat (take (n - k) (drop k data))) =
          unat c1 + n * unat c0 + wsum (map unat (take n data))"
        unfolding split map_append wsum_append length_map len_rest nk s0_def s1_def
        by (simp only: distrib_left ac_simps)
      moreover have "(s1 mod 65535 + (n - k) * (s0 mod 65535) + w) mod 65535 =
          (s1 + (n - k) * s0 + w) mod 65535" for w
        by (metis (no_types) mod_add_cong mod_mod_trivial mod_mult_right_eq)
      ultimately show ?thesis by simp
    qed
    finally show ?thesis .
  qed
qed

lemma fl_block_Some:
  "0 < k \<Longrightarrow> k \<le> length data \<Longrightarrow> unat blocklen = 2 * k \<Longrightarrow>
   \<exists>c0' c1'. fl_block data blocklen c0 c1 = Some (c0', c1', drop k data)"
proof (induction k arbitrary: data blocklen c0 c1)
  case (Suc k)
  then obtain d ds where data: "data = d # ds" by (cases data) auto
  have "(2 :: u32) \<le> blocklen"
    using Suc.prems(3) by (simp add: word_le_nat_alt)
  then have bl: "unat (blocklen - 2) = 2 * k"
    using Suc.prems(3) by (simp add: unat_sub)
  show ?case
  proof (cases "k = 0")
    case True
    with bl have "blocklen - 2 = 0" by (simp add: unat_eq_zero)
    with True show ?thesis by (simp add: data Let_def)
  next
    case False
    with bl have "blocklen - 2 \<noteq> 0" by auto
    with Suc.IH [OF _ _ bl] False Suc.prems(2) show ?thesis
      by (simp add: data Let_def)
  qed
qed simp

lemma fl_loop_None:
  "unat len = 2 * n \<Longrightarrow> length data < n \<Longrightarrow> fl_loop data len c0 c1 = None"
proof (induction n arbitrary: data len c0 c1 rule: less_induct)
  case (less n)
  define k where "k = min n 360"
  have len: "len > 0" and k: "0 < k" "n - k < n"
    using less.prems by (auto simp: word_less_nat_alt k_def)
  have bl: "unat (fl_blocklen len) = 2 * k"
    using less.prems(1) by (auto simp: fl_blocklen_def k_def word_less_nat_alt min_def)
  have "fl_blocklen len \<le> len"
    by (simp add: word_le_nat_alt bl less.prems(1) k_def)
  then have rest: "unat (len - fl_blocklen len) = 2 * (n - k)"
    by (simp add: unat_sub bl less.prems(1))
  show ?case
  proof (cases "length data < k")
    case True
    with fl_block_None [OF _ bl] len show ?thesis
      by (subst fl_loop.simps) (simp add: Let_def)
  next
    case False
    then obtain c0' c1' where "fl_block data (fl_blocklen len) c0 c1 = Some (c0', c1', drop k data)"
      using fl_block_Some [OF k(1) _ bl] by (metis not_less)
    moreover have "fl_loop (drop k data) (len - fl_blocklen len) d0 d1 = None" for d0 d1
      using False less.prems(2) by (intro less.IH [OF k(2) rest]) auto
    ultimately show ?thesis
      using len by (subst fl_loop.simps) (simp add: Let_def)
  qed
qed

lemma round_up_len:
  assumes "unat (len :: u32) < 2 ^ 32 - 1"
  shows "unat ((len + 1) AND NOT 1) = 2 * ((unat len + 1) div 2)"
proof -
  have "(x :: u32) AND NOT 1 = 2 * (x div 2)" for x
    by (rule bit_word_eqI) (auto simp: bit_simps bit_double_iff bit_Suc gr0_conv_Suc)
  then have "(len + 1) AND NOT 1 = 2 * ((len + 1) div 2)" .
  moreover have u: "unat (len + 1) = unat len + 1"
    using assms by (simp add: unat_word_ariths)
  moreover have "2 * ((unat len + 1) div 2) < 2 ^ 32"
    using assms by simp
  ultimately show ?thesis
    by (simp add: unat_word_ariths unat_div)
qed

section \<open>Properties\<close>

lemma fl_ref_inject:
  assumes "fl_ref xs = fl_ref ys"
  shows "sum_list (map unat xs) mod 65535 = sum_list (map unat ys) mod 65535"
    and "wsum (map unat xs) mod 65535 = wsum (map unat ys) mod 65535"
proof -
  define a b c d where "a = wsum (map unat xs) mod 65535" "b = sum_list (map unat xs) mod 65535"
    "c = wsum (map unat ys) mod 65535" "d = sum_list (map unat ys) mod 65535"
  have lt: "a < 65535" "b < 65535" "c < 65535" "d < 65535"
    by (simp_all add: a_b_c_d_def)
  have "unat (fl_ref xs) = a * 65536 + b" "unat (fl_ref ys) = c * 65536 + d"
    using lt by (simp_all only: fl_ref_def a_b_c_d_def [symmetric] unat_of_nat) simp_all
  with assms have eq: "a * 65536 + b = c * 65536 + d" by simp
  have "(a * 65536 + b) mod 65536 = b" "(c * 65536 + d) mod 65536 = d"
    using lt by simp_all
  with eq have "a = c \<and> b = d" by simp
  then show "sum_list (map unat xs) mod 65535 = sum_list (map unat ys) mod 65535"
    and "wsum (map unat xs) mod 65535 = wsum (map unat ys) mod 65535"
    by (simp_all add: a_b_c_d_def)
qed

lemma fl_ref_update:
  assumes "i < length xs" "unat y mod 65535 \<noteq> unat (xs ! i) mod 65535"
  shows "fl_ref (xs[i := y]) \<noteq> fl_ref xs"
proof
  assume eq: "fl_ref (xs[i := y]) = fl_ref xs"
  have "sum_list (map unat (xs[i := y])) + unat (xs ! i) = sum_list (map unat xs) + unat y"
    using assms(1) elem_le_sum_list [of i "map unat xs"]
    by (simp add: map_update sum_list_update)
  with fl_ref_inject(1) [OF eq] have "unat (xs ! i) mod 65535 = unat y mod 65535"
    by (rule mod_shift_cancel)
  with assms(2) show False by simp
qed

lemma fl_ref_swap:
  assumes "Suc i < length xs" "unat (xs ! i) mod 65535 \<noteq> unat (xs ! Suc i) mod 65535"
  shows "fl_ref (xs[i := xs ! Suc i, Suc i := xs ! i]) \<noteq> fl_ref xs"
proof
  define x y ps qs where "x = xs ! i" "y = xs ! Suc i" "ps = take i xs" "qs = drop (Suc (Suc i)) xs"
  have xs: "xs = ps @ x # y # qs"
    using assms(1) by (simp add: x_y_ps_qs_def Cons_nth_drop_Suc)
  have len: "length ps = i"
    using assms(1) by (simp add: x_y_ps_qs_def)
  have sw: "xs[i := xs ! Suc i, Suc i := xs ! i] = ps @ y # x # qs"
    by (simp add: x_y_ps_qs_def(1,2) [symmetric]) (simp add: xs list_update_append len)
  assume "fl_ref (xs[i := xs ! Suc i, Suc i := xs ! i]) = fl_ref xs"
  then have eq: "wsum (map unat (ps @ y # x # qs)) mod 65535 = wsum (map unat xs) mod 65535"
    unfolding sw by (rule fl_ref_inject(2))
  have "wsum (map unat (ps @ y # x # qs)) + unat x = wsum (map unat xs) + unat y"
    by (simp add: xs wsum_append algebra_simps)
  with eq have "unat x mod 65535 = unat y mod 65535"
    by (rule mod_shift_cancel)
  with assms(2) show False by (simp add: x_y_ps_qs_def)
qed

lemma fletcher32_eq:
  assumes "unat len < 2 ^ 32 - 1"
  shows "fletcher32 data len =
    (if (unat len + 1) div 2 \<le> length data
     then Some (fl_ref (take ((unat len + 1) div 2) data)) else None)"
  using fl_loop_exact [OF round_up_len [OF assms], of data 0 0]
    fl_loop_None [OF round_up_len [OF assms], of data 0 0]
  by (simp add: fletcher32_def fl_ref_def)

text \<open>
  Property C1. \<open>fletcher32\<close> computes exactly the textbook Fletcher-32 sums: for every length but the
  one that wraps the rounding (\<open>0xffffffff\<close>), no 32-bit accumulator overflows, the result is the
  pair of sums modulo 65535 over the \<open>(len + 1) / 2\<close> halfwords, and the routine reads past the
  buffer exactly when fewer halfwords are there.
\<close>

theorem fletcher32_exact:
  assumes "unat len < 2 ^ 32 - 1"
  shows "fletcher32 data len =
    (if (unat len + 1) div 2 \<le> length data
     then Some (fl_ref (take ((unat len + 1) div 2) data)) else None)"
  using assms by (rule fletcher32_eq)

theorem fletcher32_exact_witness:
  "unat (3 :: u32) < 2 ^ 32 - 1 \<and> fletcher32 [1, 2] 3 = Some 262147"
  using fletcher32_exact [of 3 "[1, 2]"] by (simp add: fl_ref_def)

text \<open>
  Property C2. The checksum detects every change of a single halfword (up to the ambiguity of
  \<open>0x0000\<close> and \<open>0xffff\<close>, equal modulo 65535) and every exchange of two neighbouring halfwords.
\<close>

theorem fletcher32_detects:
  assumes "unat len < 2 ^ 32 - 1" "(unat len + 1) div 2 \<le> length data" "i < (unat len + 1) div 2"
    and "data' = data[i := y] \<and> unat y mod 65535 \<noteq> unat (data ! i) mod 65535 \<or>
      Suc i < (unat len + 1) div 2 \<and> data' = data[i := data ! Suc i, Suc i := data ! i] \<and>
      unat (data ! i) mod 65535 \<noteq> unat (data ! Suc i) mod 65535"
  shows "fletcher32 data' len \<noteq> fletcher32 data len"
proof -
  define n where "n = (unat len + 1) div 2"
  have n: "i < n" "n \<le> length data" "length data' = length data"
    using assms by (auto simp: n_def)
  from assms(4) have "fl_ref (take n data') \<noteq> fl_ref (take n data)"
  proof
    assume "data' = data[i := y] \<and> unat y mod 65535 \<noteq> unat (data ! i) mod 65535"
    with n fl_ref_update [of i "take n data" y] show ?thesis
      by (simp add: take_update_swap)
  next
    assume "Suc i < (unat len + 1) div 2 \<and> data' = data[i := data ! Suc i, Suc i := data ! i] \<and>
      unat (data ! i) mod 65535 \<noteq> unat (data ! Suc i) mod 65535"
    with n fl_ref_swap [of i "take n data"] show ?thesis
      by (simp add: take_update_swap n_def)
  qed
  with n show ?thesis
    by (simp add: fletcher32_eq [OF assms(1)] n_def)
qed

theorem fletcher32_detects_witness:
  "fletcher32 [7, 2] 4 \<noteq> fletcher32 [1, 2] 4 \<and> fletcher32 [2, 1] 4 \<noteq> fletcher32 [1, 2] 4"
  using fletcher32_detects [of 4 "[1, 2]" 0 "[7, 2]" 7] fletcher32_detects [of 4 "[1, 2]" 0 "[2, 1]"]
  by simp

end
