(* ===== verification/Basic_Json.thy ===== *)
theory Basic_Json
  imports Prelude
begin

text \<open>
  The streaming JSON tokenizer of \<open>components/json/basic_json/json.c\<close>, which the boot loader and the
  file utilities use to read \<open>boot.json\<close> and \<open>part.json\<close> one character at a time.

  The \<open>int ch\<close> of the source is a \<open>char option\<close> with \<^const>\<open>None\<close> for \<open>EOF\<close>; the function pointer
  \<open>parser->tokenizer\<close> is an enumeration of the four functions it can hold; \<open>jtoken\<close> holds the
  characters between \<open>parser->token\<close> and \<open>parser->endp\<close>.  A failed \<open>assert\<close> is \<^const>\<open>None\<close>.
\<close>

section \<open>Parser state\<close>

datatype json_token =
    JSON_NONE | JSON_LITERAL | JSON_STRING | JSON_NUMBER | JSON_UNKNOWN
  | JSON_FALSE | JSON_TRUE | JSON_NULL | JSON_END
  | JSON_BEGIN_OBJECT | JSON_END_OBJECT | JSON_BEGIN_ARRAY | JSON_END_ARRAY
  | JSON_VALUE_SEPARATOR | JSON_MEMBER_SEPARATOR

datatype json_tok_fn = Tok_start | Tok_string | Tok_number | Tok_literal

record json_parser =
  tokenizer :: json_tok_fn
  jtoken :: string
  jstate :: u32
  ungetc :: "char option"

definition json_init :: json_parser where
  "json_init = \<lparr>tokenizer = Tok_start, jtoken = [], jstate = 0, ungetc = None\<rparr>"

definition json_finish :: "json_parser \<Rightarrow> json_parser" where
  "json_finish p = p"

definition isjsonspace :: "char \<Rightarrow> bool" where
  "isjsonspace ch \<longleftrightarrow> ch = CHR '' '' \<or> ch = CHR 0x09 \<or> ch = CHR 0x0A \<or> ch = CHR 0x0D"

text \<open>\<open>token[80]\<close> keeps one place for the terminator: at most 79 characters are stored.\<close>

definition addc :: "json_parser \<Rightarrow> char \<Rightarrow> json_parser" where
  "addc p ch = (if length (jtoken p) < 79 then p\<lparr>jtoken := jtoken p @ [ch]\<rparr> else p)"

section \<open>The four tokenizer functions\<close>

text \<open>Each returns the token, whether the character is consumed, and the new parser state.\<close>

type_synonym tok_result = "json_token \<times> bool \<times> json_parser"

definition json_token_string :: "json_parser \<Rightarrow> char option \<Rightarrow> tok_result" where
  "json_token_string p cho =
     (case cho of
        None \<Rightarrow> (JSON_STRING, False, p)
      | Some ch \<Rightarrow>
          if jstate p AND 1 \<noteq> 0 then
            (let p = p\<lparr>jstate := jstate p AND NOT 1\<rparr> in
             if ch = CHR 0x5C then (JSON_NONE, True, addc p ch)
             else if ch = CHR ''b'' then (JSON_NONE, True, addc p (CHR 0x08))
             else if ch = CHR ''f'' then (JSON_NONE, True, addc p (CHR 0x0C))
             else if ch = CHR ''n'' then (JSON_NONE, True, addc p (CHR 0x0A))
             else if ch = CHR ''r'' then (JSON_NONE, True, addc p (CHR 0x0D))
             else if ch = CHR ''t'' then (JSON_NONE, True, addc p (CHR 0x09))
             else (let p = (if ch = CHR ''u'' then addc p (CHR 0x5C) else p)
                   in (JSON_NONE, True, addc p ch)))
          else if ch = CHR 0x5C then (JSON_NONE, True, p\<lparr>jstate := jstate p OR 1\<rparr>)
          else if ch = CHR 0x22 then (JSON_STRING, True, p)
          else (JSON_NONE, True, addc p ch))"

definition num_states :: "u32 list" where
  "num_states = [4 OR 2 OR 1, 4 OR 2, 8 OR 4, 4, 16]"

definition json_token_number :: "json_parser \<Rightarrow> char option \<Rightarrow> tok_result" where
  "json_token_number p cho =
     (case cho of
        None \<Rightarrow> (JSON_NUMBER, False, p)
      | Some ch \<Rightarrow>
          (let m = num_states ! unat (jstate p) in
           if m AND 1 \<noteq> 0 \<and> ch = CHR ''-'' then (JSON_NONE, True, addc (p\<lparr>jstate := 1\<rparr>) ch)
           else if m AND 2 \<noteq> 0 \<and> ch = CHR ''0'' then (JSON_NONE, True, addc (p\<lparr>jstate := 2\<rparr>) ch)
           else if m AND 4 \<noteq> 0 \<and> isdigit ch then (JSON_NONE, True, addc (p\<lparr>jstate := 3\<rparr>) ch)
           else if m AND 8 \<noteq> 0 \<and> tolower ch = CHR ''x'' then (JSON_NONE, True, addc (p\<lparr>jstate := 4\<rparr>) ch)
           else if m AND 16 \<noteq> 0 \<and> isxdigit ch then (JSON_NONE, True, addc (p\<lparr>jstate := 4\<rparr>) ch)
           else (JSON_NUMBER, False, p)))"

definition json_token_literal :: "json_parser \<Rightarrow> char option \<Rightarrow> tok_result" where
  "json_token_literal p cho =
     (let good = (case cho of
                    None \<Rightarrow> False
                  | Some ch \<Rightarrow> isalpha ch \<or> jtoken p \<noteq> [] \<and> (isdigit ch \<or> ch = CHR ''_''))
      in if good then (JSON_NONE, True, addc p (the cho))
         else (let token = cstr (jtoken p) in
               if token = ''false'' then (JSON_FALSE, False, p)
               else if token = ''true'' then (JSON_TRUE, False, p)
               else if token = ''null'' then (JSON_NULL, False, p)
               else (JSON_LITERAL, False, p)))"

text \<open>
  The value of a punctuation character as an \<open>enum json_token\<close>.  \<open>strchr\<close> also finds the
  terminator of its string, so a NUL character counts as punctuation with the value
  \<open>JSON_NONE\<close>.
\<close>

definition punct_token :: "char \<Rightarrow> json_token option" where
  "punct_token ch =
     (if ch = CHR ''['' then Some JSON_BEGIN_ARRAY
      else if ch = CHR '']'' then Some JSON_END_ARRAY
      else if ch = CHR ''{'' then Some JSON_BEGIN_OBJECT
      else if ch = CHR ''}'' then Some JSON_END_OBJECT
      else if ch = CHR '','' then Some JSON_VALUE_SEPARATOR
      else if ch = CHR '':'' then Some JSON_MEMBER_SEPARATOR
      else if ch = NUL then Some JSON_NONE
      else None)"

definition json_token_start :: "json_parser \<Rightarrow> char option \<Rightarrow> tok_result" where
  "json_token_start p cho =
     (case cho of
        None \<Rightarrow> (JSON_END, True, p)
      | Some ch \<Rightarrow>
          if isjsonspace ch then (JSON_NONE, True, p)
          else
            (let p = p\<lparr>jtoken := []\<rparr> in
             case punct_token ch of
               Some t \<Rightarrow> (t, True, addc p ch)
             | None \<Rightarrow>
                 if ch = CHR 0x22 then (JSON_NONE, True, p\<lparr>tokenizer := Tok_string, jstate := 0\<rparr>)
                 else if isdigit ch \<or> ch = CHR ''-''
                 then (JSON_NONE, False, p\<lparr>tokenizer := Tok_number, jstate := 0\<rparr>)
                 else if isalpha ch
                 then (JSON_NONE, False, p\<lparr>tokenizer := Tok_literal, jstate := 0\<rparr>)
                 else (JSON_UNKNOWN, True, addc p ch)))"

definition json_step :: "json_parser \<Rightarrow> char option \<Rightarrow> tok_result" where
  "json_step p cho =
     (case tokenizer p of
        Tok_start \<Rightarrow> json_token_start p cho
      | Tok_string \<Rightarrow> json_token_string p cho
      | Tok_number \<Rightarrow> json_token_number p cho
      | Tok_literal \<Rightarrow> json_token_literal p cho)"

lemmas json_step_defs = json_step_def json_token_start_def json_token_string_def
  json_token_number_def json_token_literal_def

lemma addc_fields [simp]:
  "tokenizer (addc p ch) = tokenizer p" "jstate (addc p ch) = jstate p"
  "ungetc (addc p ch) = ungetc p"
  by (simp_all add: addc_def)

lemma json_step_None_char: "json_step p None = (r, b, p') \<Longrightarrow> r \<noteq> JSON_NONE"
  by (auto simp: json_step_defs Let_def split: json_tok_fn.splits if_splits)

lemma json_step_ungetc: "json_step p cho = (r, b, p') \<Longrightarrow> ungetc p' = ungetc p"
  by (auto simp: json_step_defs Let_def
      split: json_tok_fn.splits option.splits if_splits)

lemma json_step_start: "json_step p cho = (r, b, p') \<Longrightarrow> tokenizer p' = Tok_start \<Longrightarrow> tokenizer p = Tok_start"
  by (auto simp: json_step_defs Let_def
      split: json_tok_fn.splits option.splits if_splits)

lemma json_step_again:
  "json_step p cho = (JSON_NONE, False, p') \<Longrightarrow>
   tokenizer p = Tok_start \<and> tokenizer p' \<noteq> Tok_start"
  by (auto simp: json_step_defs Let_def
      split: json_tok_fn.splits option.splits if_splits)

section \<open>The driver\<close>

text \<open>What one turn of the \<open>do ... while\<close> loop uses up: characters still to look at, then the
  start state.\<close>

definition pending :: "json_parser \<Rightarrow> char option \<Rightarrow> nat" where
  "pending p ch = (if ch = None then 0 else 2) + (if ungetc p = None then 0 else 2) +
     (if tokenizer p = Tok_start then 1 else 0)"

lemma pending_decreases:
  assumes step: "json_step p ch = (JSON_NONE, b, p')"
    and "(if b then ungetc p' else ch) \<noteq> None"
  shows "pending (if b then p'\<lparr>ungetc := None\<rparr> else p') (if b then ungetc p' else ch) < pending p ch"
proof -
  have "ch \<noteq> None"
    using step json_step_None_char by (cases ch) auto
  moreover note json_step_ungetc [OF step] json_step_start [OF step]
  moreover have "\<not> b \<Longrightarrow> tokenizer p = Tok_start \<and> tokenizer p' \<noteq> Tok_start"
    using step json_step_again by (cases b) auto
  ultimately show ?thesis
    using assms(2) by (auto simp: pending_def)
qed

function json_loop :: "json_parser \<Rightarrow> char option \<Rightarrow> (json_token \<times> json_parser) option" where
  "json_loop p ch =
     (let (result, consumed, p') = json_step p ch in
      if result = JSON_NONE then
        (let ch' = (if consumed then ungetc p' else ch);
             p'' = (if consumed then p'\<lparr>ungetc := None\<rparr> else p')
         in if ch' \<noteq> None then json_loop p'' ch' else Some (JSON_NONE, p''))
      else if \<not> consumed \<and> ungetc p' \<noteq> None then None
      else Some (result, p'\<lparr>ungetc := (if consumed then ungetc p' else ch), tokenizer := Tok_start\<rparr>))"
  by pat_completeness auto
termination
  by (relation "measure (\<lambda>(p, ch). pending p ch)") (auto dest!: sym [of _ "json_step _ _"] simp: pending_decreases)

declare json_loop.simps [simp del]

text \<open>\<open>json_tokenizer\<close>: a character pushed back by the previous call goes first.\<close>

definition json_tokenizer :: "json_parser \<Rightarrow> char option \<Rightarrow> (json_token \<times> json_parser) option" where
  "json_tokenizer p ch =
     (case ungetc p of
        None \<Rightarrow> json_loop p ch
      | Some u \<Rightarrow> json_loop (p\<lparr>ungetc := ch\<rparr>) (Some u))"

text \<open>A whole input: the token each character completes (\<open>JSON_NONE\<close> for none) and the last state.\<close>

fun json_run :: "json_parser \<Rightarrow> char option list \<Rightarrow> (json_token list \<times> json_parser) option" where
  "json_run p [] = Some ([], p)"
| "json_run p (ch # chs) =
     (case json_tokenizer p ch of
        None \<Rightarrow> None
      | Some (t, p') \<Rightarrow>
          (case json_run p' chs of None \<Rightarrow> None | Some (ts, p'') \<Rightarrow> Some (t # ts, p'')))"

section \<open>Safety: bounds, the assertion, progress\<close>

definition json_wf :: "json_parser \<Rightarrow> bool" where
  "json_wf p \<longleftrightarrow> length (jtoken p) \<le> 79 \<and> (tokenizer p = Tok_number \<longrightarrow> unat (jstate p) < length num_states) \<and>
     (ungetc p \<noteq> None \<longrightarrow> tokenizer p = Tok_start)"

text \<open>Inside the loop a token that was just begun has not used its first character yet.\<close>

definition json_loop_wf :: "json_parser \<Rightarrow> char option \<Rightarrow> bool" where
  "json_loop_wf p ch \<longleftrightarrow> length (jtoken p) \<le> 79 \<and>
     (tokenizer p = Tok_number \<longrightarrow> unat (jstate p) < length num_states) \<and>
     (ungetc p \<noteq> None \<longrightarrow> (\<exists>c. ch = Some c \<and>
        (tokenizer p = Tok_start \<or>
         tokenizer p = Tok_number \<and> jstate p = 0 \<and> (isdigit c \<or> c = CHR ''-'') \<or>
         tokenizer p = Tok_literal \<and> isalpha c)))"

lemma length_num_states [simp]: "length num_states = 5"
  by (simp add: num_states_def)

lemma length_addc: "length (jtoken p) \<le> 79 \<Longrightarrow> length (jtoken (addc p ch)) \<le> 79"
  by (simp add: addc_def)

lemma json_step_token_bound:
  "json_step p cho = (r, b, p') \<Longrightarrow> length (jtoken p) \<le> 79 \<Longrightarrow> length (jtoken p') \<le> 79"
  by (auto simp: json_step_defs Let_def length_addc
      split: json_tok_fn.splits option.splits if_splits)

lemma json_step_state_bound:
  "json_step p cho = (r, b, p') \<Longrightarrow> tokenizer p' = Tok_number \<Longrightarrow>
   (tokenizer p = Tok_number \<longrightarrow> unat (jstate p) < 5) \<Longrightarrow> unat (jstate p') < 5"
  by (auto simp: json_step_defs Let_def
      split: json_tok_fn.splits option.splits if_splits)

lemma json_step_first:
  assumes "json_step p (Some c) = (r, b, p')"
    and "tokenizer p = Tok_number \<and> jstate p = 0 \<and> (isdigit c \<or> c = CHR ''-'') \<or>
      tokenizer p = Tok_literal \<and> isalpha c"
  shows "b \<and> r = JSON_NONE"
  using assms
  by (auto simp: json_step_defs Let_def num_states_def split: if_splits)

lemma json_step_begun:
  assumes "json_step p (Some c) = (JSON_NONE, False, p')"
  shows "tokenizer p' = Tok_number \<and> jstate p' = 0 \<and> (isdigit c \<or> c = CHR ''-'') \<or>
    tokenizer p' = Tok_literal \<and> isalpha c"
  using assms
  by (auto simp: json_step_defs Let_def split: json_tok_fn.splits option.splits if_splits)

lemma json_step_start_char:
  assumes "json_step p (Some c) = (r, b, p')" "tokenizer p = Tok_start" "r \<noteq> JSON_NONE"
  shows "b"
  using assms
  by (auto simp: json_step_defs Let_def split: option.splits if_splits)

lemma json_loop_safe:
  "json_loop_wf p ch \<Longrightarrow> \<exists>t p'. json_loop p ch = Some (t, p') \<and> json_wf p'"
proof (induction p ch rule: json_loop.induct)
  case (1 p ch)
  obtain r b p' where step: "json_step p ch = (r, b, p')" by (cases "json_step p ch")
  have tok: "length (jtoken p') \<le> 79"
    using json_step_token_bound [OF step] "1.prems" by (simp add: json_loop_wf_def)
  have st: "tokenizer p' = Tok_number \<longrightarrow> unat (jstate p') < 5"
    using json_step_state_bound [OF step] "1.prems" by (simp add: json_loop_wf_def)
  note un = json_step_ungetc [OF step]
  show ?case
  proof (cases "r = JSON_NONE")
    case True
    define ch' where "ch' = (if b then ungetc p' else ch)"
    define p'' where "p'' = (if b then p'\<lparr>ungetc := None\<rparr> else p')"
    have eq: "json_loop p ch = (if ch' \<noteq> None then json_loop p'' ch' else Some (JSON_NONE, p''))"
      by (subst json_loop.simps) (simp add: step True Let_def ch'_def p''_def)
    have wf: "json_loop_wf p'' ch'"
    proof (cases b)
      case True
      with tok st show ?thesis by (simp add: json_loop_wf_def p''_def)
    next
      case False
      from step obtain c where c: "ch = Some c"
        using json_step_None_char \<open>r = JSON_NONE\<close> by (cases ch) auto
      from json_step_begun [of p c p'] step False \<open>r = JSON_NONE\<close> c tok st show ?thesis
        by (auto simp: json_loop_wf_def p''_def ch'_def)
    qed
    show ?thesis
    proof (cases "ch' = None")
      case True
      with wf eq show ?thesis by (auto simp: json_loop_wf_def json_wf_def)
    next
      case ch': False
      have "\<exists>t q. json_loop p'' ch' = Some (t, q) \<and> json_wf q"
        by (rule "1.IH" [OF step [symmetric] refl refl \<open>r = JSON_NONE\<close> ch'_def p''_def ch' wf])
      with eq ch' show ?thesis by simp
    qed
  next
    case False
    have "ungetc p' = None" if "\<not> b"
    proof (rule ccontr)
      assume "ungetc p' \<noteq> None"
      with un "1.prems" obtain c where c: "ch = Some c" and
        cs: "tokenizer p = Tok_start \<or> tokenizer p = Tok_number \<and> jstate p = 0 \<and> (isdigit c \<or> c = CHR ''-'') \<or>
         tokenizer p = Tok_literal \<and> isalpha c"
        by (auto simp: json_loop_wf_def)
      with step False that json_step_start_char [of p c r b p'] json_step_first [of p c r b p']
      show "False" by auto
    qed
    with False step tok st show ?thesis
      by (cases b; subst json_loop.simps; auto simp: json_wf_def)
  qed
qed

lemma json_tokenizer_safe:
  assumes "json_wf p"
  shows "\<exists>t p'. json_tokenizer p ch = Some (t, p') \<and> json_wf p'"
proof (cases "ungetc p")
  case None
  with assms have "json_loop_wf p ch" by (simp add: json_wf_def json_loop_wf_def)
  with None json_loop_safe show ?thesis by (simp add: json_tokenizer_def)
next
  case (Some u)
  with assms have "json_loop_wf (p\<lparr>ungetc := ch\<rparr>) (Some u)"
    by (simp add: json_wf_def json_loop_wf_def)
  with Some json_loop_safe show ?thesis by (simp add: json_tokenizer_def)
qed

lemma json_wf_init [simp]: "json_wf json_init"
  by (simp add: json_wf_def json_init_def)

text \<open>
  Property C3. The tokenizer is safe on every input: whatever characters and end-of-file marks it is
  fed, \<open>assert(parser->ungetc == EOF)\<close> never fails, the loop ends, the state table is only read
  inside its five entries, and \<open>endp\<close> never leaves the 80-byte token buffer.
\<close>

theorem json_run_safe:
  "\<exists>ts p. json_run json_init chs = Some (ts, p) \<and> length ts = length chs \<and>
     length (jtoken p) \<le> 79 \<and> (tokenizer p = Tok_number \<longrightarrow> unat (jstate p) < length num_states)"
proof -
  have "\<exists>ts p. json_run q chs = Some (ts, p) \<and> length ts = length chs \<and> json_wf p"
    if "json_wf q" for q
    using that
  proof (induction chs arbitrary: q)
    case (Cons ch chs)
    then obtain t q' where "json_tokenizer q ch = Some (t, q')" "json_wf q'"
      using json_tokenizer_safe by blast
    with Cons.IH [of q'] show ?case by auto
  qed simp
  from this [OF json_wf_init] show ?thesis by (auto simp: json_wf_def)
qed

theorem json_run_safe_witness:
  "\<exists>ts p. json_run json_init (map Some ''[1a'') = Some (ts, p) \<and>
     length ts = length (map Some ''[1a'') \<and>
     length (jtoken p) \<le> 79 \<and> (tokenizer p = Tok_number \<longrightarrow> unat (jstate p) < length num_states)"
  by (rule json_run_safe)

section \<open>Round trips\<close>

lemma ungetc_idle [simp]: "ungetc p = None \<Longrightarrow> p\<lparr>ungetc := None\<rparr> = p"
  by (cases p) simp

lemma json_tokenizer_consume:
  "json_step p (Some c) = (JSON_NONE, True, p') \<Longrightarrow> ungetc p = None \<Longrightarrow>
   json_tokenizer p (Some c) = Some (JSON_NONE, p')"
  by (simp add: json_tokenizer_def json_step_ungetc json_loop.simps [of p "Some c"])

lemma json_tokenizer_complete:
  "json_step p (Some c) = (t, True, p') \<Longrightarrow> t \<noteq> JSON_NONE \<Longrightarrow> ungetc p = None \<Longrightarrow>
   json_tokenizer p (Some c) = Some (t, p'\<lparr>tokenizer := Tok_start\<rparr>)"
  by (simp add: json_tokenizer_def json_step_ungetc json_loop.simps [of p "Some c"])

lemma json_tokenizer_pushback:
  "json_step p (Some c) = (t, False, p') \<Longrightarrow> t \<noteq> JSON_NONE \<Longrightarrow> ungetc p = None \<Longrightarrow>
   json_tokenizer p (Some c) = Some (t, p'\<lparr>ungetc := Some c, tokenizer := Tok_start\<rparr>)"
  by (simp add: json_tokenizer_def json_step_ungetc json_loop.simps [of p "Some c"])

lemma json_tokenizer_begin:
  "json_step p (Some c) = (JSON_NONE, False, p') \<Longrightarrow> json_step p' (Some c) = (JSON_NONE, True, p'') \<Longrightarrow>
   ungetc p = None \<Longrightarrow> json_tokenizer p (Some c) = Some (JSON_NONE, p'')"
  by (simp add: json_tokenizer_def json_step_ungetc json_loop.simps [of p "Some c"] json_loop.simps [of p' "Some c"])

lemma json_run_append:
  "json_run p (xs @ ys) =
    (case json_run p xs of None \<Rightarrow> None
     | Some (ts, q) \<Rightarrow> map_option (\<lambda>(us, r). (ts @ us, r)) (json_run q ys))"
proof (induction xs arbitrary: p)
  case Nil
  then show ?case by (cases "json_run p ys") auto
next
  case (Cons x xs)
  then show ?case by (auto split: option.split)
qed

lemma json_run_length: "json_run p xs = Some (ts, q) \<Longrightarrow> length ts = length xs"
  by (induction xs arbitrary: p ts) (auto split: option.splits)

subsection \<open>Quoted strings\<close>

text \<open>How a writer quotes a string: a backslash before every quote and backslash.\<close>

fun json_escape :: "string \<Rightarrow> string" where
  "json_escape [] = []"
| "json_escape (c # cs) =
     (if c = CHR 0x22 \<or> c = CHR 0x5C then CHR 0x5C # c # json_escape cs else c # json_escape cs)"

definition json_quote :: "string \<Rightarrow> string" where
  "json_quote s = CHR 0x22 # json_escape s @ [CHR 0x22]"

definition in_string :: "json_parser \<Rightarrow> string \<Rightarrow> bool" where
  "in_string p s \<longleftrightarrow> tokenizer p = Tok_string \<and> jstate p = 0 \<and> ungetc p = None \<and> jtoken p = take 79 s"

lemma in_string_plain:
  assumes "in_string p s" "c \<noteq> CHR 0x22" "c \<noteq> CHR 0x5C"
  shows "\<exists>p'. json_tokenizer p (Some c) = Some (JSON_NONE, p') \<and> in_string p' (s @ [c])"
proof -
  from assms have "json_step p (Some c) = (JSON_NONE, True, addc p c)"
    by (simp add: json_step_defs in_string_def)
  with assms have "json_tokenizer p (Some c) = Some (JSON_NONE, addc p c)"
    by (intro json_tokenizer_consume) (simp_all add: in_string_def)
  with assms show ?thesis
    by (auto simp: in_string_def addc_def)
qed

lemma in_string_escaped:
  assumes "in_string p s" "c = CHR 0x22 \<or> c = CHR 0x5C"
  shows "\<exists>p'. json_run p [Some (CHR 0x5C), Some c] = Some ([JSON_NONE, JSON_NONE], p') \<and> in_string p' (s @ [c])"
proof -
  define q where "q = p\<lparr>jstate := 1\<rparr>"
  from assms have "json_step p (Some (CHR 0x5C)) = (JSON_NONE, True, q)"
    by (simp add: json_step_defs in_string_def q_def)
  with assms have 1: "json_tokenizer p (Some (CHR 0x5C)) = Some (JSON_NONE, q)"
    by (intro json_tokenizer_consume) (simp_all add: in_string_def)
  from assms have "json_step q (Some c) = (JSON_NONE, True, addc (q\<lparr>jstate := 0\<rparr>) c)"
    by (auto simp: json_step_defs in_string_def q_def)
  with assms have 2: "json_tokenizer q (Some c) = Some (JSON_NONE, addc (q\<lparr>jstate := 0\<rparr>) c)"
    by (intro json_tokenizer_consume) (simp_all add: in_string_def q_def)
  from 1 2 assms show ?thesis
    by (auto simp: in_string_def addc_def q_def)
qed

lemma json_run_escape:
  "in_string p s \<Longrightarrow> \<exists>p'. json_run p (map Some (json_escape t)) =
     Some (replicate (length (json_escape t)) JSON_NONE, p') \<and> in_string p' (s @ t)"
proof (induction t arbitrary: p s)
  case (Cons c cs)
  show ?case
  proof (cases "c = CHR 0x22 \<or> c = CHR 0x5C")
    case True
    from in_string_escaped [OF Cons.prems True] obtain p' where
      p': "json_run p [Some (CHR 0x5C), Some c] = Some ([JSON_NONE, JSON_NONE], p')" "in_string p' (s @ [c])"
      by blast
    from Cons.IH [OF p'(2)] p'(1) True show ?thesis
      using json_run_append [of p "[Some (CHR 0x5C), Some c]" "map Some (json_escape cs)"] by auto
  next
    case False
    from in_string_plain [OF Cons.prems] False obtain p' where
      p': "json_tokenizer p (Some c) = Some (JSON_NONE, p')" "in_string p' (s @ [c])" by blast
    from Cons.IH [OF p'(2)] p'(1) False show ?thesis by auto
  qed
qed simp

definition json_idle :: "json_parser \<Rightarrow> bool" where
  "json_idle p \<longleftrightarrow> tokenizer p = Tok_start \<and> ungetc p = None"

lemma json_idle_init [simp]: "json_idle json_init"
  by (simp add: json_idle_def json_init_def)

lemma json_open_quote:
  assumes "json_idle p"
  shows "\<exists>p'. json_tokenizer p (Some (CHR 0x22)) = Some (JSON_NONE, p') \<and> in_string p' []"
proof -
  define p' where "p' = p\<lparr>jtoken := [], tokenizer := Tok_string, jstate := 0\<rparr>"
  from assms have "json_step p (Some (CHR 0x22)) = (JSON_NONE, True, p')"
    by (simp add: json_step_defs json_idle_def isjsonspace_def punct_token_def p'_def)
  with assms have "json_tokenizer p (Some (CHR 0x22)) = Some (JSON_NONE, p')"
    by (intro json_tokenizer_consume) (simp_all add: json_idle_def)
  with assms show ?thesis by (auto simp: in_string_def p'_def json_idle_def)
qed

lemma json_close_quote:
  assumes "in_string p s"
  shows "\<exists>p'. json_tokenizer p (Some (CHR 0x22)) = Some (JSON_STRING, p') \<and> json_idle p' \<and> jtoken p' = take 79 s"
proof -
  from assms have "json_step p (Some (CHR 0x22)) = (JSON_STRING, True, p)"
    by (simp add: json_step_defs in_string_def)
  with assms have "json_tokenizer p (Some (CHR 0x22)) = Some (JSON_STRING, p\<lparr>tokenizer := Tok_start\<rparr>)"
    by (intro json_tokenizer_complete) (simp_all add: in_string_def)
  with assms show ?thesis by (auto simp: in_string_def json_idle_def)
qed

lemma json_run_quote:
  assumes "json_idle p"
  shows "\<exists>p'. json_run p (map Some (json_quote s)) =
      Some (replicate (length (json_escape s) + 1) JSON_NONE @ [JSON_STRING], p') \<and>
    json_idle p' \<and> jtoken p' = take 79 s"
proof -
  from json_open_quote [OF assms] obtain p1 where
    1: "json_tokenizer p (Some (CHR 0x22)) = Some (JSON_NONE, p1)" "in_string p1 []" by blast
  from json_run_escape [OF 1(2), of s] obtain p2 where
    2: "json_run p1 (map Some (json_escape s)) = Some (replicate (length (json_escape s)) JSON_NONE, p2)"
      "in_string p2 s" by auto
  from json_close_quote [OF 2(2)] obtain p3 where
    3: "json_tokenizer p2 (Some (CHR 0x22)) = Some (JSON_STRING, p3)" "json_idle p3" "jtoken p3 = take 79 s"
    by blast
  from 1 2 3 show ?thesis
    by (simp add: json_quote_def json_run_append)
qed

subsection \<open>Integers\<close>

definition in_number :: "json_parser \<Rightarrow> string \<Rightarrow> bool" where
  "in_number p s \<longleftrightarrow> tokenizer p = Tok_number \<and> ungetc p = None \<and> jtoken p = take 79 s \<and>
     (jstate p = 2 \<or> jstate p = 3)"

lemma in_number_digit:
  assumes "in_number p s" "isdigit c"
  shows "\<exists>p'. json_tokenizer p (Some c) = Some (JSON_NONE, p') \<and> in_number p' (s @ [c])"
proof -
  from assms have "json_step p (Some c) = (JSON_NONE, True, addc (p\<lparr>jstate := 3\<rparr>) c)"
    by (auto simp: json_step_defs in_number_def num_states_def)
  with assms have "json_tokenizer p (Some c) = Some (JSON_NONE, addc (p\<lparr>jstate := 3\<rparr>) c)"
    by (intro json_tokenizer_consume) (simp_all add: in_number_def)
  with assms show ?thesis by (auto simp: in_number_def addc_def)
qed

lemma in_number_digits:
  "in_number p s \<Longrightarrow> \<forall>c \<in> set ds. isdigit c \<Longrightarrow>
   \<exists>p'. json_run p (map Some ds) = Some (replicate (length ds) JSON_NONE, p') \<and> in_number p' (s @ ds)"
proof (induction ds arbitrary: p s)
  case (Cons d ds)
  then obtain p1 where p1: "json_tokenizer p (Some d) = Some (JSON_NONE, p1)" "in_number p1 (s @ [d])"
    using in_number_digit by (metis list.set_intros(1))
  with Cons.IH [OF p1(2)] Cons.prems show ?case by auto
qed simp

lemma digit_not_punct:
  "isdigit c \<Longrightarrow> \<not> isjsonspace c \<and> punct_token c = None \<and> c \<noteq> CHR 0x22 \<and> c \<noteq> CHR ''-''"
proof -
  assume d: "isdigit c"
  have "c \<noteq> k" if "\<not> isdigit k" for k using d that by blast
  then show ?thesis
    by (simp add: isjsonspace_def punct_token_def isdigit_def)
qed

lemma json_number_begin:
  assumes "json_idle p" "isdigit c"
  shows "\<exists>p'. json_tokenizer p (Some c) = Some (JSON_NONE, p') \<and> in_number p' [c]"
proof -
  define q where "q = p\<lparr>jtoken := [], tokenizer := Tok_number, jstate := 0\<rparr>"
  define q' where "q' = addc (q\<lparr>jstate := (if c = CHR ''0'' then 2 else 3)\<rparr>) c"
  from assms have 1: "json_step p (Some c) = (JSON_NONE, False, q)"
    by (simp add: json_step_defs json_idle_def digit_not_punct q_def)
  from assms have 2: "json_step q (Some c) = (JSON_NONE, True, q')"
    by (simp add: json_step_defs q_def q'_def num_states_def digit_not_punct)
  from assms have "json_tokenizer p (Some c) = Some (JSON_NONE, q')"
    by (intro json_tokenizer_begin [OF 1 2]) (simp add: json_idle_def)
  with assms show ?thesis by (auto simp: in_number_def q_def q'_def addc_def json_idle_def)
qed

lemma json_number_minus:
  assumes "json_idle p" "isdigit c"
  shows "\<exists>p'. json_run p [Some (CHR ''-''), Some c] = Some ([JSON_NONE, JSON_NONE], p') \<and>
    in_number p' [CHR ''-'', c]"
proof -
  define q where "q = p\<lparr>jtoken := [], tokenizer := Tok_number, jstate := 0\<rparr>"
  define q' where "q' = addc (q\<lparr>jstate := 1\<rparr>) (CHR ''-'')"
  define q'' where "q'' = addc (q'\<lparr>jstate := (if c = CHR ''0'' then 2 else 3)\<rparr>) c"
  from assms have 1: "json_step p (Some (CHR ''-'')) = (JSON_NONE, False, q)"
    by (auto simp: json_step_defs json_idle_def isjsonspace_def punct_token_def q_def)
  have 2: "json_step q (Some (CHR ''-'')) = (JSON_NONE, True, q')"
    by (auto simp: json_step_defs q_def q'_def num_states_def)
  from assms have 3: "json_step q' (Some c) = (JSON_NONE, True, q'')"
    by (auto simp: json_step_defs q_def q'_def q''_def num_states_def isdigit_def)
  from assms have "json_tokenizer p (Some (CHR ''-'')) = Some (JSON_NONE, q')"
    by (intro json_tokenizer_begin [OF 1 2]) (simp add: json_idle_def)
  moreover from assms have "json_tokenizer q' (Some c) = Some (JSON_NONE, q'')"
    by (intro json_tokenizer_consume [OF 3]) (simp add: json_idle_def q'_def q_def)
  ultimately show ?thesis
    using assms by (auto simp: in_number_def q_def q'_def q''_def addc_def json_idle_def)
qed

lemma json_number_end:
  assumes "in_number p s" "\<not> isdigit c" "tolower c \<noteq> CHR ''x''"
  shows "json_tokenizer p (Some c) = Some (JSON_NUMBER, p\<lparr>ungetc := Some c, tokenizer := Tok_start\<rparr>)"
proof -
  from assms have "json_step p (Some c) = (JSON_NUMBER, False, p)"
    by (auto simp: json_step_defs in_number_def num_states_def)
  with assms show ?thesis
    by (intro json_tokenizer_pushback) (simp_all add: in_number_def)
qed

lemma json_run_sprintf_d:
  assumes "json_idle p"
  shows "\<exists>p'. json_run p (map Some (sprintf_d i)) = Some (replicate (length (sprintf_d i)) JSON_NONE, p') \<and>
    in_number p' (sprintf_d i)"
proof (cases rule: sprintf_d_cases [of i])
  case (1 ds)
  then obtain d ds' where ds: "ds = d # ds'" by (cases ds) auto
  with 1 json_number_begin [OF assms, of d] obtain q where
    q: "json_tokenizer p (Some d) = Some (JSON_NONE, q)" "in_number q [d]" by auto
  with in_number_digits [OF q(2), of ds'] 1 ds show ?thesis by auto
next
  case (2 ds)
  then obtain d ds' where ds: "ds = d # ds'" by (cases ds) auto
  with 2 json_number_minus [OF assms, of d] obtain q where
    q: "json_run p [Some (CHR ''-''), Some d] = Some ([JSON_NONE, JSON_NONE], q)" "in_number q [CHR ''-'', d]"
    by auto
  with in_number_digits [OF q(2), of ds'] 2 ds
    json_run_append [of p "[Some (CHR ''-''), Some d]" "map Some ds'"] show ?thesis by auto
qed

text \<open>
  Property C4. Strings survive: feeding an idle tokenizer the quoted form of any string delivers one
  \<open>JSON_STRING\<close> token, at the closing quote, whose text is the string cut to the 79 characters the
  token buffer holds, and leaves the tokenizer idle.
\<close>

theorem json_string_roundtrip:
  assumes "json_idle p"
  shows "\<exists>p'. json_run p (map Some (json_quote s)) =
      Some (replicate (length (json_escape s) + 1) JSON_NONE @ [JSON_STRING], p') \<and>
    json_idle p' \<and> jtoken p' = take 79 s"
  using assms by (rule json_run_quote)

theorem json_string_roundtrip_witness:
  "json_idle json_init \<and>
   (\<exists>p'. json_run json_init (map Some (json_quote ''say \"x\"'')) =
      Some (replicate (length (json_escape ''say \"x\"'') + 1) JSON_NONE @ [JSON_STRING], p') \<and>
    json_idle p' \<and> jtoken p' = take 79 ''say \"x\"'')"
  using json_string_roundtrip [OF json_idle_init, of "''say \"x\"''"] json_idle_init by blast

text \<open>
  Property C5. Integers survive: the decimal text of any C \<open>int\<close>, followed by a character that cannot
  continue a number, delivers one \<open>JSON_NUMBER\<close> token; \<open>atoi\<close> of the token text gives the integer back
  and the delimiter is kept for the next call.
\<close>

theorem json_number_roundtrip:
  assumes "json_idle p" "- (2 ^ 31) \<le> i" "i < 2 ^ 31" "\<not> isdigit c" "tolower c \<noteq> CHR ''x''"
  shows "\<exists>p'. json_run p (map Some (sprintf_d i @ [c])) =
      Some (replicate (length (sprintf_d i)) JSON_NONE @ [JSON_NUMBER], p') \<and>
    atoi (cstr (jtoken p')) = i \<and> tokenizer p' = Tok_start \<and> ungetc p' = Some c"
proof -
  from json_run_sprintf_d [OF assms(1), of i] obtain q where
    q: "json_run p (map Some (sprintf_d i)) = Some (replicate (length (sprintf_d i)) JSON_NONE, q)"
      "in_number q (sprintf_d i)" by blast
  from q(2) length_sprintf_d [OF assms(2,3)] have "jtoken q = sprintf_d i"
    by (simp add: in_number_def)
  with q json_number_end [OF q(2) assms(4,5)] show ?thesis
    by (simp add: json_run_append cstr_id sprintf_d_NUL atoi_sprintf_d [OF assms(2,3)])
qed

theorem json_number_roundtrip_witness:
  "\<exists>p'. json_run json_init (map Some (sprintf_d (- 40) @ ''}'')) =
      Some (replicate (length (sprintf_d (- 40))) JSON_NONE @ [JSON_NUMBER], p') \<and>
    atoi (cstr (jtoken p')) = - 40 \<and> tokenizer p' = Tok_start \<and> ungetc p' = Some (CHR ''}'')"
  by (rule json_number_roundtrip) (simp_all add: ctype_defs)

end
