(* ===== verification/Stdio.thy ===== *)
theory Stdio
  imports Fletcher32
begin

text \<open>
  The file layer the components share: files as whole contents by path, and the stdio calls the
  sources make on them.  What the kernel and the heap decide (whether a file opens, how many bytes a
  call moves, whether an allocation succeeds) is a parameter, the record \<open>env\<close>; a theorem about a
  healthy system assumes \<open>io_ok\<close>, a theorem about faults leaves the failing calls open.  The theory
  also holds \<open>fletcher32_file_checksum_get\<close> of \<open>components/checksum/src/fletcher32.c\<close>, the routine
  every integrity check is built on.
\<close>

section \<open>Files\<close>

type_synonym fs = "string \<Rightarrow> string option"

record env =
  os_alloc :: "nat \<Rightarrow> bool"
  fopen_r_ok :: "string \<Rightarrow> bool"
  fopen_w_ok :: "string \<Rightarrow> bool"
  fread_max :: "string \<Rightarrow> nat \<Rightarrow> nat"
  fwrite_max :: "string \<Rightarrow> nat \<Rightarrow> nat"

definition fopen_r :: "env \<Rightarrow> fs \<Rightarrow> string \<Rightarrow> string option" where
  \<comment> \<open>the contents behind the handle, \<^const>\<open>None\<close> for a \<open>NULL\<close> handle\<close>
  "fopen_r e m path = (if fopen_r_ok e path then m path else None)"

definition fread :: "env \<Rightarrow> string \<Rightarrow> string \<Rightarrow> nat \<Rightarrow> string" where
  \<comment> \<open>the bytes \<open>fread(buff, 1, n, f)\<close> delivers from the start of the file\<close>
  "fread e path content n = take (min n (fread_max e path n)) content"

definition fopen_w :: "env \<Rightarrow> fs \<Rightarrow> string \<Rightarrow> fs option" where
  "fopen_w e m path = (if fopen_w_ok e path then Some (m(path \<mapsto> [])) else None)"

definition fwrite :: "env \<Rightarrow> fs \<Rightarrow> string \<Rightarrow> string \<Rightarrow> nat \<times> fs" where
  \<comment> \<open>\<open>fwrite\<close> appends to what the open file holds and returns the count\<close>
  "fwrite e m path buf =
     (let k = min (length buf) (fwrite_max e path (length buf))
      in (k, m(path \<mapsto> (case m path of None \<Rightarrow> [] | Some s \<Rightarrow> s) @ take k buf)))"

definition unlink :: "fs \<Rightarrow> string \<Rightarrow> fs" where
  "unlink m path = m(path := None)"

section \<open>Healthy and partly healthy systems\<close>

definition reads_ok :: "env \<Rightarrow> bool" where
  "reads_ok e \<longleftrightarrow> (\<forall>n. os_alloc e n) \<and> (\<forall>p. fopen_r_ok e p) \<and> (\<forall>p n. fread_max e p n = n)"

definition writes_ok :: "env \<Rightarrow> bool" where
  "writes_ok e \<longleftrightarrow> (\<forall>p. fopen_w_ok e p) \<and> (\<forall>p n. fwrite_max e p n = n)"

definition io_ok :: "env \<Rightarrow> bool" where
  "io_ok e \<longleftrightarrow> reads_ok e \<and> writes_ok e"

definition healthy_env :: env where
  "healthy_env = \<lparr>os_alloc = \<lambda>_. True, fopen_r_ok = \<lambda>_. True, fopen_w_ok = \<lambda>_. True,
     fread_max = \<lambda>_ n. n, fwrite_max = \<lambda>_ n. n\<rparr>"

lemma io_ok_healthy [simp]: "io_ok healthy_env"
  by (simp add: io_ok_def reads_ok_def writes_ok_def healthy_env_def)

lemma io_okD [simp]: "io_ok e \<Longrightarrow> reads_ok e" "io_ok e \<Longrightarrow> writes_ok e"
  by (simp_all add: io_ok_def)

lemma reads_okD [simp]:
  "reads_ok e \<Longrightarrow> os_alloc e n"
  "reads_ok e \<Longrightarrow> fopen_r e m p = m p"
  "reads_ok e \<Longrightarrow> fread e p s n = take n s"
  by (simp_all add: reads_ok_def fopen_r_def fread_def)

lemma writes_okD [simp]:
  "writes_ok e \<Longrightarrow> fopen_w e m p = Some (m(p \<mapsto> []))"
  "writes_ok e \<Longrightarrow> fwrite e m p buf = (length buf, m(p \<mapsto> (case m p of None \<Rightarrow> [] | Some s \<Rightarrow> s) @ buf))"
  by (simp_all add: writes_ok_def fopen_w_def fwrite_def)

lemma fopen_w_frame: "fopen_w e m p = Some m' \<Longrightarrow> q \<noteq> p \<Longrightarrow> m' q = m q"
  by (auto simp: fopen_w_def split: if_splits)

lemma fopen_w_present: "fopen_w e m p = Some m' \<Longrightarrow> m' p = Some []"
  by (auto simp: fopen_w_def split: if_splits)

lemma fwrite_frame: "q \<noteq> p \<Longrightarrow> snd (fwrite e m p buf) q = m q"
  by (simp add: fwrite_def Let_def)

section \<open>The checksum of a file\<close>

text \<open>
  The return code and what is stored through \<open>checksum_out\<close> (\<^const>\<open>None\<close> when the routine leaves it
  alone).  The outer \<^const>\<open>None\<close> is a read past the buffer, which \<open>file_checksum_defined\<close>
  rules out.
\<close>

definition fletcher32_file_checksum_get :: "env \<Rightarrow> fs \<Rightarrow> string \<Rightarrow> (int \<times> u32 option) option" where
  "fletcher32_file_checksum_get e m path =
     (case fopen_r e m path of
        None \<Rightarrow> Some (- 1, None)
      | Some content \<Rightarrow>
          let sz = length content in
          if \<not> os_alloc e (sz + 1) then Some (- 1, None)
          else
            let buff = fread e path content sz in
            if length buff \<noteq> sz then Some (- 1, None)
            else map_option (\<lambda>chk. (0, Some chk))
                   (fletcher32 (halfwords (buff @ [NUL])) (word_of_nat sz)))"

text \<open>The value the checksum of a file has: the textbook sums over its NUL-padded halfwords.\<close>

definition file_sum :: "string \<Rightarrow> u32" where
  "file_sum s = fl_ref (halfwords (s @ [NUL]))"

definition small_file :: "string \<Rightarrow> bool" where
  "small_file s \<longleftrightarrow> length s < 2 ^ 31"

lemma fletcher32_file_sum:
  assumes "small_file s"
  shows "fletcher32 (halfwords (s @ [NUL])) (word_of_nat (length s)) = Some (file_sum s)"
proof -
  have u: "unat (word_of_nat (length s) :: u32) = length s"
    using assms by (simp add: small_file_def unat_of_nat)
  have "unat (word_of_nat (length s) :: u32) < 2 ^ 32 - 1"
    using assms unfolding u small_file_def by simp
  from fletcher32_eq [OF this, of "halfwords (s @ [NUL])"] show ?thesis
    by (simp add: u file_sum_def)
qed

lemma file_checksum_defined:
  assumes "\<And>s. m path = Some s \<Longrightarrow> small_file s"
  shows "\<exists>rc out. fletcher32_file_checksum_get e m path = Some (rc, out)"
proof (cases "fopen_r e m path")
  case (Some s)
  then have "m path = Some s" by (simp add: fopen_r_def split: if_splits)
  then have "small_file s" by (rule assms)
  moreover have "fread e path s (length s) = s" if "length (fread e path s (length s)) = length s"
    using that by (simp add: fread_def)
  ultimately show ?thesis
    using Some by (auto simp: fletcher32_file_checksum_get_def Let_def fletcher32_file_sum)
qed (simp add: fletcher32_file_checksum_get_def)

lemma file_checksum_ok:
  "reads_ok e \<Longrightarrow> m path = Some s \<Longrightarrow> small_file s \<Longrightarrow>
   fletcher32_file_checksum_get e m path = Some (0, Some (file_sum s))"
  by (simp add: fletcher32_file_checksum_get_def Let_def fletcher32_file_sum)

end
