(* ===== verification/Fs_Utils.thy ===== *)
theory Fs_Utils
  imports Stdio Basic_Json
begin

text \<open>
  The file utilities of \<open>components/utils/src/fs_utils.c\<close>: whole-file reads and writes, cloning, the
  checksum files beside the control files, the reader of \<open>boot.json\<close> and the path an application
  file has under the booted image.  A C variable the source reads before it is written is an
  explicit argument (\<open>garbage\<close>).
\<close>

section \<open>Paths\<close>

definition PART_FILE_PATH :: string where "PART_FILE_PATH = ''/root/part.json''"
definition BOOT_FILE_PATH :: string where "BOOT_FILE_PATH = ''/root/boot.json''"
definition FOTA_CFG_FILE_PATH :: string where "FOTA_CFG_FILE_PATH = ''/root/fota_config.json''"
definition PART_CHKSUM_FILE_PATH :: string where "PART_CHKSUM_FILE_PATH = ''/root/part.checksum''"
definition BOOT_CHKSUM_FILE_PATH :: string where "BOOT_CHKSUM_FILE_PATH = ''/root/boot.checksum''"
definition FOTA_CFG_CHKSUM_FILE_PATH :: string where
  "FOTA_CFG_CHKSUM_FILE_PATH = ''/root/fota_config.checksum''"
definition PART_BACKUP_FILE_PATH :: string where "PART_BACKUP_FILE_PATH = ''/root/part_backup.json''"
definition BOOT_BACKUP_FILE_PATH :: string where "BOOT_BACKUP_FILE_PATH = ''/root/boot_backup.json''"
definition FOTA_CFG_BACKUP_FILE_PATH :: string where
  "FOTA_CFG_BACKUP_FILE_PATH = ''/root/fota_config_backup.json''"
definition PART_BACKUP_CHKSUM_FILE_PATH :: string where
  "PART_BACKUP_CHKSUM_FILE_PATH = ''/root/part_backup.checksum''"
definition BOOT_BACKUP_CHKSUM_FILE_PATH :: string where
  "BOOT_BACKUP_CHKSUM_FILE_PATH = ''/root/boot_backup.checksum''"
definition FOTA_CFG_BACKUP_CHKSUM_FILE_PATH :: string where
  "FOTA_CFG_BACKUP_CHKSUM_FILE_PATH = ''/root/fota_config_backukp.checksum''"
definition DIRTY_BIT_FILE_PATH :: string where "DIRTY_BIT_FILE_PATH = ''/root/dirty''"
definition FOTA_IN_PROGRESS_FILE_PATH :: string where
  "FOTA_IN_PROGRESS_FILE_PATH = ''/root/fot_in_progress''"

lemmas path_defs = PART_FILE_PATH_def BOOT_FILE_PATH_def FOTA_CFG_FILE_PATH_def
  PART_CHKSUM_FILE_PATH_def BOOT_CHKSUM_FILE_PATH_def FOTA_CFG_CHKSUM_FILE_PATH_def
  PART_BACKUP_FILE_PATH_def BOOT_BACKUP_FILE_PATH_def FOTA_CFG_BACKUP_FILE_PATH_def
  PART_BACKUP_CHKSUM_FILE_PATH_def BOOT_BACKUP_CHKSUM_FILE_PATH_def
  FOTA_CFG_BACKUP_CHKSUM_FILE_PATH_def DIRTY_BIT_FILE_PATH_def FOTA_IN_PROGRESS_FILE_PATH_def

section \<open>Whole files\<close>

definition utils_is_file_present :: "env \<Rightarrow> fs \<Rightarrow> string \<Rightarrow> bool" where
  "utils_is_file_present e m path = (fopen_r e m path \<noteq> None)"

definition utils_file_size_get :: "env \<Rightarrow> fs \<Rightarrow> string \<Rightarrow> int" where
  "utils_file_size_get e m path =
     (case fopen_r e m path of None \<Rightarrow> - 1 | Some content \<Rightarrow> int (length content))"

text \<open>The buffer, with its terminator, and \<open>*len\<close>.\<close>

definition utils_file_get :: "env \<Rightarrow> fs \<Rightarrow> string \<Rightarrow> (string \<times> int) option" where
  "utils_file_get e m path =
     (let fileSize = utils_file_size_get e m path in
      if fileSize \<le> 0 then None
      else
        (case fopen_r e m path of
           None \<Rightarrow> None
         | Some content \<Rightarrow>
             if \<not> os_alloc e (nat (fileSize + 1)) then None
             else
               let buff = fread e path content (nat fileSize) in
               if int (length buff) \<noteq> fileSize then None
               else Some (buff @ [NUL], fileSize + 1)))"

definition utils_file_store :: "env \<Rightarrow> fs \<Rightarrow> string \<Rightarrow> string \<Rightarrow> int \<times> fs" where
  "utils_file_store e m file_path buff =
     (case fopen_w e m file_path of
        None \<Rightarrow> (- 1, m)
      | Some m \<Rightarrow>
          let (bytes_written, m) = fwrite e m file_path buff
          in (if bytes_written \<noteq> length buff then - 1 else 0, m))"

definition utils_file_clone :: "env \<Rightarrow> fs \<Rightarrow> string \<Rightarrow> string \<Rightarrow> int \<times> fs" where
  "utils_file_clone e m dst_path src_path =
     (case fopen_r e m src_path of
        None \<Rightarrow> (- 1, m)
      | Some content \<Rightarrow>
          let sz = length content in
          if \<not> os_alloc e (sz + 1) then (- 1, m)
          else
            let buff = fread e src_path content sz in
            if length buff \<noteq> sz then (- 1, m)
            else
              (case fopen_w e m dst_path of
                 None \<Rightarrow> (- 1, m)
               | Some m \<Rightarrow> (0, snd (fwrite e m dst_path buff))))"

text \<open>\<open>f_chksum\<close> keeps its uninitialised value when the file cannot be read.\<close>

definition utils_create_checksum_file :: "env \<Rightarrow> u32 \<Rightarrow> fs \<Rightarrow> string \<Rightarrow> string \<Rightarrow> (int \<times> fs) option" where
  "utils_create_checksum_file e garbage m file_path chksum_file_path =
     (case fletcher32_file_checksum_get e m file_path of
        None \<Rightarrow> None
      | Some (rc, out) \<Rightarrow>
          let f_chksum = (case out of None \<Rightarrow> garbage | Some c \<Rightarrow> c);
              chksum_str = sprintf_08x f_chksum
          in Some (utils_file_store e m chksum_file_path chksum_str))"

definition utils_file_touch :: "env \<Rightarrow> fs \<Rightarrow> string \<Rightarrow> int \<times> fs" where
  "utils_file_touch e m path = (case fopen_w e m path of None \<Rightarrow> (- 1, m) | Some m \<Rightarrow> (0, m))"

definition utils_update_fota_cfg_file :: "env \<Rightarrow> u32 \<Rightarrow> fs \<Rightarrow> string \<Rightarrow> (int \<times> fs) option" where
  "utils_update_fota_cfg_file e garbage m buf =
     (let m = snd (utils_file_touch e m DIRTY_BIT_FILE_PATH);
          m = snd (utils_file_store e m FOTA_CFG_FILE_PATH buf)
      in map_option (\<lambda>(_, m). (0, m))
           (utils_create_checksum_file e garbage m FOTA_CFG_FILE_PATH FOTA_CFG_CHKSUM_FILE_PATH))"

section \<open>The boot index\<close>

datatype parse_state = JSON_PARSE_STATE_KEY | JSON_PARSE_STATE_SEPRATOR | JSON_PARSE_STATE_VAL

text \<open>
  The character loop of \<open>utils_get_boot_index\<close>.  The comparison of the key with \<open>boot_index\<close> has an
  empty branch in the source, so the key's text does not matter.  \<^const>\<open>None\<close> is a failed assertion
  of the tokenizer.
\<close>

fun boot_index_scan :: "json_parser \<Rightarrow> parse_state \<Rightarrow> string \<Rightarrow> int option" where
  "boot_index_scan json state [] = Some (- 1)"
| "boot_index_scan json state (ch # chs) =
     (case json_tokenizer json (Some ch) of
        None \<Rightarrow> None
      | Some (t, json) \<Rightarrow>
          if t = JSON_END then Some (- 1)
          else if t = JSON_BEGIN_ARRAY then boot_index_scan json JSON_PARSE_STATE_KEY chs
          else if state = JSON_PARSE_STATE_KEY \<and> t = JSON_STRING
          then boot_index_scan json JSON_PARSE_STATE_SEPRATOR chs
          else if state = JSON_PARSE_STATE_SEPRATOR \<and> t = JSON_MEMBER_SEPARATOR
          then boot_index_scan json JSON_PARSE_STATE_VAL chs
          else if state = JSON_PARSE_STATE_VAL \<and> t = JSON_NUMBER
          then Some (atoi (cstr (jtoken json)))
          else boot_index_scan json state chs)"

definition utils_get_boot_index :: "env \<Rightarrow> fs \<Rightarrow> int option" where
  "utils_get_boot_index e m =
     (case fopen_r e m BOOT_FILE_PATH of
        None \<Rightarrow> Some (- 1)
      | Some content \<Rightarrow> boot_index_scan json_init JSON_PARSE_STATE_KEY content)"

text \<open>The return code and the string left in \<open>abs_path_out\<close>.\<close>

definition utils_file_absolute_path_get :: "env \<Rightarrow> fs \<Rightarrow> string \<Rightarrow> (int \<times> string option) option" where
  "utils_file_absolute_path_get e m path =
     (case utils_get_boot_index e m of
        None \<Rightarrow> None
      | Some boot_index \<Rightarrow>
          if boot_index < 0 then Some (- 1, None)
          else Some (0, Some (''/root/p'' @ sprintf_d boot_index @ ''/'' @ path)))"

section \<open>Writers\<close>

lemma utils_file_store_ok [simp]: "writes_ok e \<Longrightarrow> utils_file_store e m p buf = (0, m(p \<mapsto> buf))"
  by (simp add: utils_file_store_def)

lemma utils_file_clone_ok [simp]:
  "io_ok e \<Longrightarrow> m src = Some s \<Longrightarrow> utils_file_clone e m dst src = (0, m(dst \<mapsto> s))"
  by (simp add: utils_file_clone_def Let_def)

lemma utils_file_touch_ok [simp]: "writes_ok e \<Longrightarrow> utils_file_touch e m p = (0, m(p \<mapsto> []))"
  by (simp add: utils_file_touch_def)

lemma utils_is_file_present_ok [simp]: "reads_ok e \<Longrightarrow> utils_is_file_present e m p \<longleftrightarrow> m p \<noteq> None"
  by (simp add: utils_is_file_present_def)

lemma utils_create_checksum_file_ok:
  "io_ok e \<Longrightarrow> m f = Some s \<Longrightarrow> small_file s \<Longrightarrow>
   utils_create_checksum_file e g m f c = Some (0, m(c \<mapsto> sprintf_08x (file_sum s)))"
  by (simp add: utils_create_checksum_file_def file_checksum_ok)

text \<open>Whatever fails, a writer touches only the file it is given, and never removes it.\<close>

lemma utils_file_store_frame: "q \<noteq> p \<Longrightarrow> snd (utils_file_store e m p buf) q = m q"
  by (auto simp: utils_file_store_def fwrite_frame split_beta fopen_w_frame split: option.splits)

lemma utils_file_store_keeps: "m q \<noteq> None \<Longrightarrow> snd (utils_file_store e m p buf) q \<noteq> None"
  by (cases "q = p")
    (auto simp: utils_file_store_frame, auto simp: utils_file_store_def fwrite_def Let_def split: option.splits)

lemma utils_file_clone_frame: "q \<noteq> dst \<Longrightarrow> snd (utils_file_clone e m dst src) q = m q"
  by (auto simp: utils_file_clone_def Let_def fwrite_frame fopen_w_frame split: option.splits)

lemma utils_file_clone_keeps: "m q \<noteq> None \<Longrightarrow> snd (utils_file_clone e m dst src) q \<noteq> None"
  by (cases "q = dst")
    (auto simp: utils_file_clone_frame, auto simp: utils_file_clone_def fwrite_def Let_def split: option.splits)

lemma utils_file_touch_frame: "q \<noteq> p \<Longrightarrow> snd (utils_file_touch e m p) q = m q"
  by (auto simp: utils_file_touch_def fopen_w_frame split: option.splits)

section \<open>Intact files\<close>

text \<open>A file is intact when its checksum file starts with the eight hex digits of its sum.\<close>

definition file_intact :: "fs \<Rightarrow> string \<Rightarrow> string \<Rightarrow> bool" where
  "file_intact m f c \<longleftrightarrow>
     (\<exists>s t. m f = Some s \<and> m c = Some t \<and> small_file s \<and> take 8 t = sprintf_08x (file_sum s))"

lemma file_intact_cong: "m' f = m f \<Longrightarrow> m' c = m c \<Longrightarrow> file_intact m' f c = file_intact m f c"
  by (simp add: file_intact_def)

lemma file_intact_new:
  "f \<noteq> c \<Longrightarrow> small_file s \<Longrightarrow> file_intact (m(f \<mapsto> s, c \<mapsto> sprintf_08x (file_sum s))) f c"
  by (simp add: file_intact_def)

text \<open>
  Property C7. Storing a new \<open>fota_config.json\<close> on a healthy file system returns 0, leaves the dirty
  mark, the new contents and a checksum file that the boot loader accepts, and changes no other file.
\<close>

theorem utils_update_fota_cfg_file_ok:
  assumes "io_ok e" "small_file buf"
  shows "\<exists>m'. utils_update_fota_cfg_file e garbage m buf = Some (0, m') \<and>
    m' FOTA_CFG_FILE_PATH = Some buf \<and> m' DIRTY_BIT_FILE_PATH = Some [] \<and>
    file_intact m' FOTA_CFG_FILE_PATH FOTA_CFG_CHKSUM_FILE_PATH \<and>
    (\<forall>q. q \<noteq> FOTA_CFG_FILE_PATH \<longrightarrow> q \<noteq> FOTA_CFG_CHKSUM_FILE_PATH \<longrightarrow> q \<noteq> DIRTY_BIT_FILE_PATH \<longrightarrow> m' q = m q)"
proof -
  define m1 where "m1 = m(DIRTY_BIT_FILE_PATH \<mapsto> [], FOTA_CFG_FILE_PATH \<mapsto> buf)"
  have "utils_create_checksum_file e garbage m1 FOTA_CFG_FILE_PATH FOTA_CFG_CHKSUM_FILE_PATH =
      Some (0, m1(FOTA_CFG_CHKSUM_FILE_PATH \<mapsto> sprintf_08x (file_sum buf)))"
    using assms by (intro utils_create_checksum_file_ok) (simp_all add: m1_def)
  then have "utils_update_fota_cfg_file e garbage m buf =
      Some (0, m1(FOTA_CFG_CHKSUM_FILE_PATH \<mapsto> sprintf_08x (file_sum buf)))"
    using assms by (simp add: utils_update_fota_cfg_file_def m1_def)
  moreover have "file_intact (m1(FOTA_CFG_CHKSUM_FILE_PATH \<mapsto> sprintf_08x (file_sum buf)))
      FOTA_CFG_FILE_PATH FOTA_CFG_CHKSUM_FILE_PATH"
    unfolding m1_def using assms(2) by (intro file_intact_new) (simp_all add: path_defs)
  ultimately show ?thesis
    by (simp add: m1_def) (simp add: path_defs)
qed

theorem utils_update_fota_cfg_file_ok_witness:
  "\<exists>m'. utils_update_fota_cfg_file healthy_env 7 Map.empty ''{}'' = Some (0, m') \<and>
    m' FOTA_CFG_FILE_PATH = Some ''{}'' \<and> m' DIRTY_BIT_FILE_PATH = Some [] \<and>
    file_intact m' FOTA_CFG_FILE_PATH FOTA_CFG_CHKSUM_FILE_PATH \<and>
    (\<forall>q. q \<noteq> FOTA_CFG_FILE_PATH \<longrightarrow> q \<noteq> FOTA_CFG_CHKSUM_FILE_PATH \<longrightarrow> q \<noteq> DIRTY_BIT_FILE_PATH \<longrightarrow> m' q = Map.empty q)"
  by (rule utils_update_fota_cfg_file_ok) (simp_all add: small_file_def)

section \<open>Reading the boot index\<close>

lemma atoi_range: "- (2 ^ 31) \<le> atoi s \<and> atoi s < 2 ^ 31"
  using s32_bounds by (auto simp: atoi_def split: list.split)

lemma boot_index_scan_total:
  "json_wf json \<Longrightarrow> \<exists>i. boot_index_scan json state chs = Some i \<and> - (2 ^ 31) \<le> i \<and> i < 2 ^ 31"
proof (induction chs arbitrary: json state)
  case (Cons ch chs)
  then obtain t json' where t: "json_tokenizer json (Some ch) = Some (t, json')" "json_wf json'"
    using json_tokenizer_safe by blast
  with Cons.IH [OF t(2)] atoi_range [of "cstr (jtoken json')"] show ?case by simp
qed simp

lemma utils_get_boot_index_total:
  "\<exists>i. utils_get_boot_index e m = Some i \<and> - (2 ^ 31) \<le> i \<and> i < 2 ^ 31"
  using boot_index_scan_total [OF json_wf_init]
  by (auto simp: utils_get_boot_index_def split: option.split)

text \<open>Characters that complete no token only move the tokenizer.\<close>

lemma boot_index_scan_quiet:
  "json_run json (map Some xs) = Some (replicate (length xs) JSON_NONE, json') \<Longrightarrow>
   boot_index_scan json state (xs @ ys) = boot_index_scan json' state ys"
  by (induction xs arbitrary: json) (auto split: option.splits)

lemma json_space_quiet: "json_idle p \<Longrightarrow> isjsonspace c \<Longrightarrow> json_tokenizer p (Some c) = Some (JSON_NONE, p)"
  by (intro json_tokenizer_consume) (simp_all add: json_idle_def json_step_defs)

lemma json_spaces_quiet:
  "json_idle p \<Longrightarrow> \<forall>c \<in> set ws. isjsonspace c \<Longrightarrow>
   json_run p (map Some ws) = Some (replicate (length ws) JSON_NONE, p)"
  by (induction ws) (auto simp: json_space_quiet)

lemma json_punct:
  assumes "json_idle p" "\<not> isjsonspace c" "punct_token c = Some t" "t \<noteq> JSON_NONE"
  shows "\<exists>p'. json_tokenizer p (Some c) = Some (t, p') \<and> json_idle p'"
proof -
  from assms have "json_step p (Some c) = (t, True, addc (p\<lparr>jtoken := []\<rparr>) c)"
    by (simp add: json_idle_def json_step_defs)
  with assms show ?thesis
    by (auto simp: json_idle_def dest!: json_tokenizer_complete)
qed

lemma boot_index_scan_spaces:
  "json_idle p \<Longrightarrow> \<forall>c \<in> set ws. isjsonspace c \<Longrightarrow> boot_index_scan p st (ws @ ys) = boot_index_scan p st ys"
  by (rule boot_index_scan_quiet) (rule json_spaces_quiet)

lemma boot_index_scan_punct:
  assumes "json_idle p"
  shows "\<exists>p'. json_idle p' \<and>
      boot_index_scan p JSON_PARSE_STATE_KEY (CHR ''{'' # ys) = boot_index_scan p' JSON_PARSE_STATE_KEY ys"
    and "\<exists>p'. json_idle p' \<and>
      boot_index_scan p JSON_PARSE_STATE_SEPRATOR (CHR '':'' # ys) = boot_index_scan p' JSON_PARSE_STATE_VAL ys"
  using json_punct [OF assms, of "CHR ''{''" JSON_BEGIN_OBJECT] json_punct [OF assms, of "CHR '':''" JSON_MEMBER_SEPARATOR]
  by (auto simp: isjsonspace_def punct_token_def)

lemma boot_index_scan_key:
  assumes "json_idle p"
  shows "\<exists>p'. json_idle p' \<and> boot_index_scan p JSON_PARSE_STATE_KEY (json_quote k @ ys) =
    boot_index_scan p' JSON_PARSE_STATE_SEPRATOR ys"
proof -
  define q where "q = CHR 0x22 # json_escape k"
  from json_run_quote [OF assms, of k] obtain p' where
    p': "json_run p (map Some (q @ [CHR 0x22])) = Some (replicate (length q) JSON_NONE @ [JSON_STRING], p')" "json_idle p'"
    by (auto simp: json_quote_def q_def)
  then obtain p1 where p1: "json_run p (map Some q) = Some (replicate (length q) JSON_NONE, p1)"
      "json_tokenizer p1 (Some (CHR 0x22)) = Some (JSON_STRING, p')"
    using json_run_length [of p "map Some q"]
    by (auto simp: json_run_append split: option.splits)
  have "boot_index_scan p JSON_PARSE_STATE_KEY (json_quote k @ ys) =
      boot_index_scan p1 JSON_PARSE_STATE_KEY (CHR 0x22 # ys)"
    using boot_index_scan_quiet [OF p1(1), of JSON_PARSE_STATE_KEY "CHR 0x22 # ys"]
    by (simp add: json_quote_def q_def)
  with p1 p' show ?thesis by auto
qed

lemma boot_index_scan_number:
  assumes "json_idle p" "- (2 ^ 31) \<le> i" "i < 2 ^ 31" "\<not> isdigit c" "tolower c \<noteq> CHR ''x''"
  shows "boot_index_scan p JSON_PARSE_STATE_VAL (sprintf_d i @ c # ys) = Some i"
proof -
  from json_run_sprintf_d [OF assms(1), of i] obtain q where
    q: "json_run p (map Some (sprintf_d i)) = Some (replicate (length (sprintf_d i)) JSON_NONE, q)"
      "in_number q (sprintf_d i)" by blast
  from q(2) length_sprintf_d [OF assms(2,3)] have "jtoken q = sprintf_d i"
    by (simp add: in_number_def)
  with json_number_end [OF q(2) assms(4,5)] show ?thesis
    by (simp add: boot_index_scan_quiet [OF q(1)] cstr_id sprintf_d_NUL atoi_sprintf_d [OF assms(2,3)])
qed

text \<open>
  The text of a boot file: one member, its value an integer, white space wherever JSON allows it.
\<close>

definition boot_text :: "string \<Rightarrow> string \<Rightarrow> string \<Rightarrow> string \<Rightarrow> string \<Rightarrow> int \<Rightarrow> string \<Rightarrow> string" where
  "boot_text w1 w2 key w3 w4 i rest =
     w1 @ ''{'' @ w2 @ json_quote key @ w3 @ '':'' @ w4 @ sprintf_d i @ rest"

lemma boot_index_scan_text:
  assumes ws: "\<forall>c \<in> set (w1 @ w2 @ w3 @ w4). isjsonspace c"
    and i: "- (2 ^ 31) \<le> i" "i < 2 ^ 31" "\<not> isdigit c" "tolower c \<noteq> CHR ''x''"
  shows "boot_index_scan json_init JSON_PARSE_STATE_KEY (boot_text w1 w2 key w3 w4 i (c # rest)) = Some i"
proof -
  let ?r4 = "sprintf_d i @ c # rest" let ?r3 = "w3 @ '':'' @ w4 @ ?r4" let ?r2 = "w2 @ json_quote key @ ?r3"
  from boot_index_scan_punct(1) [OF json_idle_init, of ?r2] obtain p1 where p1: "json_idle p1"
      "boot_index_scan json_init JSON_PARSE_STATE_KEY (''{'' @ ?r2) = boot_index_scan p1 JSON_PARSE_STATE_KEY ?r2"
    by auto
  from boot_index_scan_key [OF p1(1), of key ?r3] obtain p2 where p2: "json_idle p2"
      "boot_index_scan p1 JSON_PARSE_STATE_KEY (json_quote key @ ?r3) = boot_index_scan p2 JSON_PARSE_STATE_SEPRATOR ?r3"
    by auto
  from boot_index_scan_punct(2) [OF p2(1), of "w4 @ ?r4"] obtain p3 where p3: "json_idle p3"
      "boot_index_scan p2 JSON_PARSE_STATE_SEPRATOR ('':'' @ w4 @ ?r4) = boot_index_scan p3 JSON_PARSE_STATE_VAL (w4 @ ?r4)"
    by auto
  have "boot_index_scan json_init JSON_PARSE_STATE_KEY (w1 @ ''{'' @ ?r2) = boot_index_scan p1 JSON_PARSE_STATE_KEY ?r2"
    using ws p1(2) by (simp add: boot_index_scan_spaces)
  also have "\<dots> = boot_index_scan p2 JSON_PARSE_STATE_SEPRATOR ?r3"
    using ws p1(1) p2(2) by (simp add: boot_index_scan_spaces)
  also have "\<dots> = boot_index_scan p3 JSON_PARSE_STATE_VAL (w4 @ ?r4)"
    using ws p2(1) p3(2) by (simp add: boot_index_scan_spaces)
  also have "\<dots> = Some i"
    using ws p3(1) boot_index_scan_number [OF p3(1) i] by (simp add: boot_index_scan_spaces)
  finally show ?thesis by (simp add: boot_text_def)
qed

text \<open>
  Property C8. \<open>utils_get_boot_index\<close> and the path built on it: the reader always returns (the
  tokenizer's assertion cannot fail, whatever the file holds) with a value in the range of \<open>int\<close>, and
  on a boot file with one integer member it returns that integer, so that an application file
  resolves to \<open>/root/p<i>/<path>\<close>.
\<close>

theorem utils_file_absolute_path_ok:
  assumes "reads_ok e" "m BOOT_FILE_PATH = Some (boot_text w1 w2 key w3 w4 i (c # rest))"
    and "\<forall>c \<in> set (w1 @ w2 @ w3 @ w4). isjsonspace c" "0 \<le> i" "i < 2 ^ 31" "\<not> isdigit c" "tolower c \<noteq> CHR ''x''"
  shows "utils_get_boot_index e m = Some i \<and>
    utils_file_absolute_path_get e m path = Some (0, Some (''/root/p'' @ sprintf_d i @ ''/'' @ path)) \<and>
    (\<forall>e' m'. \<exists>j. utils_get_boot_index e' m' = Some j \<and> - (2 ^ 31) \<le> j \<and> j < 2 ^ 31)"
proof -
  have "utils_get_boot_index e m = Some i"
    using assms boot_index_scan_text [of w1 w2 w3 w4 i c key rest]
    by (simp add: utils_get_boot_index_def)
  with assms(4) show ?thesis
    using utils_get_boot_index_total by (simp add: utils_file_absolute_path_get_def)
qed

definition sample_boot :: string where
  "sample_boot = boot_text [] [CHR 0x0A, CHR 0x20] ''image'' [] [CHR 0x20] 1 [CHR 0x0A, CHR 0x7D]"

theorem utils_file_absolute_path_ok_witness:
  "utils_get_boot_index healthy_env [BOOT_FILE_PATH \<mapsto> sample_boot] = Some 1 \<and>
   utils_file_absolute_path_get healthy_env [BOOT_FILE_PATH \<mapsto> sample_boot] ''ca.pem'' =
     Some (0, Some (''/root/p'' @ sprintf_d 1 @ ''/'' @ ''ca.pem''))"
  using utils_file_absolute_path_ok [of healthy_env "[BOOT_FILE_PATH \<mapsto> sample_boot]"
      "[]" "[CHR 0x0A, CHR 0x20]" "''image''" "[]" "[CHR 0x20]" 1 "CHR 0x0A" "[CHR 0x7D]" "''ca.pem''"]
  by (simp add: isjsonspace_def ctype_defs sample_boot_def)

end
