(* ===== verification/Utils.thy ===== *)
theory Utils
  imports Prelude
begin

text \<open>
  Two routines of \<open>components/utils/src/utils.c\<close>: the comparison of version strings that decides which
  firmware slot is replaced and whether a package is newer, and the in-place string reversal.
\<close>

section \<open>Version strings\<close>

text \<open>
  The source computes with plain \<open>int\<close>: an operation whose result does not fit is undefined and is
  \<^const>\<open>None\<close> here.  One turn of an accumulation loop is \<open>(deci * 10) + *str - '0'\<close>, three operations from
  left to right.
\<close>

definition int32 :: "int \<Rightarrow> int option" where
  "int32 i = (if - (2 ^ 31) \<le> i \<and> i < 2 ^ 31 then Some i else None)"

definition num_str_digit :: "int \<Rightarrow> char \<Rightarrow> int option" where
  "num_str_digit acc c =
     Option.bind (int32 (acc * 10)) (\<lambda>m. Option.bind (int32 (m + int (code c))) (\<lambda>a. int32 (a - 48)))"

fun num_str_deci :: "int \<Rightarrow> string \<Rightarrow> (int \<times> string) option" where
  "num_str_deci deci [] = Some (deci, [])"
| "num_str_deci deci (c # cs) =
     (if c = CHR ''.'' then Some (deci, c # cs)
      else Option.bind (num_str_digit deci c) (\<lambda>deci. num_str_deci deci cs))"

fun num_str_fracn :: "int \<Rightarrow> string \<Rightarrow> int option" where
  "num_str_fracn fracn [] = Some fracn"
| "num_str_fracn fracn (c # cs) = Option.bind (num_str_digit fracn c) (\<lambda>fracn. num_str_fracn fracn cs)"

definition num_str_split :: "string \<Rightarrow> (int \<times> int) option" where
  "num_str_split str =
     Option.bind (num_str_deci 0 str) (\<lambda>(deci, str).
       let str = (case str of [] \<Rightarrow> [] | c # cs \<Rightarrow> if c = CHR ''.'' then cs else str)
       in map_option (\<lambda>fracn. (deci, fracn)) (num_str_fracn 0 str))"

definition utils_num_str_cmp :: "string \<Rightarrow> string \<Rightarrow> int option" where
  "utils_num_str_cmp str1 str2 =
     Option.bind (num_str_split str1) (\<lambda>(deci1, fracn1).
     Option.bind (num_str_split str2) (\<lambda>(deci2, fracn2).
       if deci1 = deci2 then (if fracn1 = fracn2 then Some 0 else int32 (fracn1 - fracn2))
       else int32 (deci1 - deci2)))"

text \<open>A version text: digits, a point, digits; and the pair of numbers it denotes.\<close>

definition digits :: "string \<Rightarrow> bool" where
  "digits ds \<longleftrightarrow> (\<forall>c \<in> set ds. isdigit c)"

definition ver_text :: "string \<Rightarrow> string \<Rightarrow> string" where
  "ver_text a b = a @ ''.'' @ b"

lemma atoi_digits_ge: "0 \<le> acc \<Longrightarrow> acc \<le> atoi_digits acc ds"
proof (induction ds arbitrary: acc)
  case (Cons c cs)
  show ?case
  proof (cases "isdigit c")
    case True
    then have "acc \<le> acc * 10 + (int (code c) - 48)" "0 \<le> acc * 10 + (int (code c) - 48)"
      using Cons.prems by (simp_all add: isdigit_def)
    with Cons.IH True show ?thesis by fastforce
  qed simp
qed simp

lemma digit_step:
  assumes "isdigit c" "0 \<le> acc" "atoi_digits acc (c # cs) < 2147483600"
  shows "num_str_digit acc c = Some (acc * 10 + (int (code c) - 48))"
    and "0 \<le> acc * 10 + (int (code c) - 48)"
proof -
  show nn: "0 \<le> acc * 10 + (int (code c) - 48)"
    using assms by (simp add: isdigit_def)
  have "acc * 10 + (int (code c) - 48) \<le> atoi_digits (acc * 10 + (int (code c) - 48)) cs"
    using nn by (rule atoi_digits_ge)
  with assms(1,3) have "acc * 10 + (int (code c) - 48) < 2147483600" by simp
  with assms(1,2) show "num_str_digit acc c = Some (acc * 10 + (int (code c) - 48))"
    by (simp add: num_str_digit_def int32_def isdigit_def)
qed

lemma num_str_deci_digits:
  "digits ds \<Longrightarrow> 0 \<le> acc \<Longrightarrow> atoi_digits acc ds < 2147483600 \<Longrightarrow>
   num_str_deci acc (ds @ CHR ''.'' # rest) = Some (atoi_digits acc ds, CHR ''.'' # rest)"
proof (induction ds arbitrary: acc)
  case (Cons c cs)
  then have c: "isdigit c" "digits cs" by (simp_all add: digits_def)
  moreover from c(1) have "c \<noteq> CHR ''.''" by (auto simp: isdigit_def)
  ultimately show ?case
    using Cons.IH [of "acc * 10 + (int (code c) - 48)"] Cons.prems digit_step [OF c(1) Cons.prems(2,3)]
    by simp
qed simp

lemma num_str_fracn_digits:
  "digits ds \<Longrightarrow> 0 \<le> acc \<Longrightarrow> atoi_digits acc ds < 2147483600 \<Longrightarrow> num_str_fracn acc ds = Some (atoi_digits acc ds)"
proof (induction ds arbitrary: acc)
  case (Cons c cs)
  then have c: "isdigit c" "digits cs" by (simp_all add: digits_def)
  then show ?case
    using Cons.IH [of "acc * 10 + (int (code c) - 48)"] Cons.prems digit_step [OF c(1) Cons.prems(2,3)]
    by simp
qed simp

lemma num_str_split_ver:
  assumes "digits a" "digits b" "atoi_digits 0 a < 2147483600" "atoi_digits 0 b < 2147483600"
  shows "num_str_split (ver_text a b) = Some (atoi_digits 0 a, atoi_digits 0 b)"
  using assms num_str_deci_digits [of a 0 b] num_str_fracn_digits [of b 0]
  by (simp add: num_str_split_def ver_text_def)

lemma int32_diff:
  "0 \<le> x \<Longrightarrow> x < 2147483600 \<Longrightarrow> 0 \<le> y \<Longrightarrow> y < 2147483600 \<Longrightarrow> int32 (x - y) = Some (x - y)"
  by (simp add: int32_def)

text \<open>The bound is sharp: the digit is added before \<open>'0'\<close> is subtracted, so that 2147483600, which fits an
  \<open>int\<close>, already overflows on the way.\<close>

lemma num_str_overflow: "utils_num_str_cmp (ver_text ''2147483600'' b) str2 = None"
  by (simp add: utils_num_str_cmp_def num_str_split_def ver_text_def num_str_digit_def int32_def)

text \<open>
  Property C6. On version strings \<open><digits>.<digits>\<close> whose two numbers are below 2147483600 no signed
  operation overflows, the routine returns, and its result orders the versions by the pair (number
  before the point, number after the point), leading zeros ignored: negative, zero or positive exactly
  when the first pair is smaller, equal or larger.  The part after the point counts as a whole number,
  not as a decimal fraction, so that 1.9 is older than 1.10.
\<close>

theorem utils_num_str_cmp_lex:
  assumes "digits a" "digits b" "digits c" "digits d"
    and "atoi_digits 0 a < 2147483600" "atoi_digits 0 b < 2147483600"
    and "atoi_digits 0 c < 2147483600" "atoi_digits 0 d < 2147483600"
  shows "\<exists>r. utils_num_str_cmp (ver_text a b) (ver_text c d) = Some r \<and>
    (r < 0 \<longleftrightarrow> atoi_digits 0 a < atoi_digits 0 c \<or>
       atoi_digits 0 a = atoi_digits 0 c \<and> atoi_digits 0 b < atoi_digits 0 d) \<and>
    (r = 0 \<longleftrightarrow> atoi_digits 0 a = atoi_digits 0 c \<and> atoi_digits 0 b = atoi_digits 0 d)"
  using assms atoi_digits_ge [of 0 a] atoi_digits_ge [of 0 b] atoi_digits_ge [of 0 c] atoi_digits_ge [of 0 d]
  by (auto simp: utils_num_str_cmp_def num_str_split_ver int32_diff)

theorem utils_num_str_cmp_lex_witness:
  "(\<exists>r. utils_num_str_cmp (ver_text ''1'' ''9'') (ver_text ''1'' ''10'') = Some r \<and> r < 0) \<and>
   utils_num_str_cmp (ver_text ''1'' ''1'') (ver_text ''01'' ''1'') = Some 0"
  using utils_num_str_cmp_lex [of "''1''" "''9''" "''1''" "''10''"]
    utils_num_str_cmp_lex [of "''1''" "''1''" "''01''" "''1''"]
  by (auto simp: digits_def isdigit_def)

section \<open>Reversal\<close>

function reverse_loop :: "string \<Rightarrow> nat \<Rightarrow> nat \<Rightarrow> nat \<Rightarrow> string" where
  "reverse_loop s i j mid =
     (if i < mid then reverse_loop (s[i := s ! j, j := s ! i]) (i + 1) (j - 1) mid else s)"
  by pat_completeness auto
termination
  by (relation "measure (\<lambda>(s, i, j, mid). mid - i)") auto

declare reverse_loop.simps [simp del]

definition reverse_str :: "string \<Rightarrow> string" where
  "reverse_str s = reverse_loop s 0 (length s - 1) (length s div 2)"

lemma reverse_loop_rev:
  assumes "length t = length s" "i \<le> length s div 2"
    and "\<And>k. k < length s \<Longrightarrow> t ! k = (if k < i \<or> length s - i \<le> k then rev s ! k else s ! k)"
  shows "reverse_loop t i (length s - 1 - i) (length s div 2) = rev s"
  using assms
proof (induction "length s div 2 - i" arbitrary: t i)
  case 0
  then have i: "i = length s div 2" by simp
  have "t = rev s"
  proof (rule nth_equalityI)
    fix k assume "k < length t"
    then have k: "k < length s" using "0.prems" by simp
    show "t ! k = rev s ! k"
    proof (cases "k < i \<or> length s - i \<le> k")
      case False
      then have "k = length s - Suc k" using i k by linarith
      then have "rev s ! k = s ! k" using k by (metis rev_nth)
      with False "0.prems"(3) [OF k] show ?thesis by simp
    qed (use "0.prems"(3) [OF k] in simp)
  qed (use "0.prems" in simp)
  with i show ?case by (subst reverse_loop.simps) simp
next
  case (Suc n)
  define j where "j = length s - 1 - i"
  define t' where "t' = t[i := t ! j, j := t ! i]"
  have ij: "i < length s div 2" "i < j" "j < length s"
    using Suc.hyps(2) by (auto simp: j_def)
  have nth: "t' ! k = (if k < i + 1 \<or> length s - (i + 1) \<le> k then rev s ! k else s ! k)"
    if "k < length s" for k
  proof -
    have "t ! i = s ! i" "t ! j = s ! j"
      using Suc.prems(3) [of i] Suc.prems(3) [of j] ij by (auto simp: j_def)
    moreover have "rev s ! i = s ! j" "rev s ! j = s ! i"
      using ij by (simp_all add: rev_nth j_def)
    ultimately show ?thesis
      using Suc.prems(1) Suc.prems(3) [OF that] that ij
      by (auto simp: t'_def nth_list_update j_def)
  qed
  have "reverse_loop t i j (length s div 2) = reverse_loop t' (i + 1) (j - 1) (length s div 2)"
    using ij by (subst reverse_loop.simps) (simp add: t'_def)
  also have "\<dots> = rev s"
    using Suc.hyps(1) [of "i + 1" t'] Suc.hyps(2) Suc.prems(1) nth ij by (simp add: j_def t'_def)
  finally show ?case by (simp add: j_def)
qed

text \<open>The swapping loop ends and leaves every character at the mirrored place.\<close>

lemma reverse_str_rev: "reverse_str s = rev s"
  using reverse_loop_rev [of s s 0] by (simp add: reverse_str_def)

end
