(* ===== verification/Byte_Store.thy ===== *)
theory Byte_Store
  imports Prelude
begin

text \<open>
  The interface of a byte-addressed store with a write-back cache: what a firmware writer may rely
  on.  \<open>view\<close> is what a read returns, \<open>durable\<close> what survives without the cache, and \<open>admits\<close> the
  contents the provider can take.  The sector cache provides it, the firmware download uses it.
\<close>

definition put :: "(nat \<Rightarrow> byte) \<Rightarrow> nat \<Rightarrow> byte list \<Rightarrow> nat \<Rightarrow> byte" where
  "put v a data x = (if a \<le> x \<and> x < a + length data then data ! (x - a) else v x)"

lemma put_Nil [simp]: "put v a [] = v"
  by (rule ext) (auto simp: put_def)

lemma put_append: "put (put v a xs) (a + length xs) ys = put v a (xs @ ys)"
  by (rule ext) (auto simp: put_def nth_append)

lemma put_take_drop: "n \<le> length data \<Longrightarrow> put (put v a (take n data)) (a + n) (drop n data) = put v a data"
  using put_append [of v a "take n data" "drop n data"] by simp

lemma put_read: "map (\<lambda>i. put v a data (a + i)) [0..<length data] = data"
  by (rule nth_equalityI) (simp_all add: put_def)

locale byte_store =
  fixes inv :: "'s \<Rightarrow> bool"
    and view :: "'s \<Rightarrow> nat \<Rightarrow> byte"
    and durable :: "'s \<Rightarrow> nat \<Rightarrow> byte"
    and admits :: "(nat \<Rightarrow> byte) \<Rightarrow> nat \<Rightarrow> nat \<Rightarrow> bool"
    and store :: "'s \<Rightarrow> u32 \<Rightarrow> byte list \<Rightarrow> 's option"
    and fetch :: "'s \<Rightarrow> u32 \<Rightarrow> nat \<Rightarrow> (byte list \<times> 's) option"
    and flush :: "'s \<Rightarrow> 's option"
  assumes write_law: "inv s \<Longrightarrow> unat a + length data \<le> 2 ^ 32 \<Longrightarrow>
      admits (put (view s) (unat a) data) (unat a) (length data) \<Longrightarrow>
      \<exists>s'. store s a data = Some s' \<and> inv s' \<and> view s' = put (view s) (unat a) data"
    and read_law: "inv s \<Longrightarrow> unat a + n \<le> 2 ^ 32 \<Longrightarrow>
      \<exists>s'. fetch s a n = Some (map (\<lambda>i. view s (unat a + i)) [0..<n], s') \<and> inv s' \<and> view s' = view s"
    and flush_law: "inv s \<Longrightarrow>
      \<exists>s'. flush s = Some s' \<and> inv s' \<and> view s' = view s \<and> durable s' = view s"
begin

text \<open>A read after a write returns what was written.\<close>

lemma read_back:
  assumes "inv s" "unat a + length data \<le> 2 ^ 32"
    "admits (put (view s) (unat a) data) (unat a) (length data)"
  shows "\<exists>s' s''. store s a data = Some s' \<and> fetch s' a (length data) = Some (data, s'')"
proof -
  from write_law [OF assms] obtain s' where
    s': "store s a data = Some s'" "inv s'" "view s' = put (view s) (unat a) data" by blast
  from read_law [OF s'(2) assms(2)] obtain s'' where
    "fetch s' a (length data) = Some (map (\<lambda>i. view s' (unat a + i)) [0..<length data], s'')" by blast
  with s' show ?thesis by (simp add: put_read)
qed

text \<open>Streaming: a write right after what is already stored extends it.\<close>

lemma write_next:
  assumes "inv s" "view s = put v b done" "unat a = b + length done" "unat a + length data \<le> 2 ^ 32"
    "admits (put v b (done @ data)) (unat a) (length data)"
  shows "\<exists>s'. store s a data = Some s' \<and> inv s' \<and> view s' = put v b (done @ data)"
proof -
  have "put (view s) (unat a) data = put v b (done @ data)"
    by (simp add: assms(2,3) put_append)
  with write_law [OF assms(1,4)] assms(5) show ?thesis by simp
qed

text \<open>After a flush the stored stream is durable.\<close>

lemma flush_stream:
  assumes "inv s" "view s = put v b data"
  shows "\<exists>s'. flush s = Some s' \<and> inv s' \<and> view s' = put v b data \<and> durable s' = put v b data"
  using flush_law [OF assms(1)] assms(2) by auto

end

end
