(* ===== verification/Sector_Cache.thy ===== *)
theory Sector_Cache
  imports Byte_Store
begin

text \<open>
  The write-back flash cache of \<open>components/utils/src/sector_cache.c\<close> (the copies in
  \<open>apps/gordon\<close> and \<open>apps/fota/ota\<close> have the same bodies; the one of \<open>gordon\<close> adds
  \<open>sector_cache_erase_sector\<close>).  The SPI flash driver is not part of the sources: its three
  operations are the record \<open>spi_ops\<close> over an abstract device state, and what the code relies on
  is the predicate \<open>nor_flash\<close>, the behaviour of a NOR flash: a read returns the cells, programming
  clears bits of one page, erasing sets a whole 4096-byte sector to \<open>0xff\<close>.  A failed \<open>assert\<close> is
  \<^const>\<open>None\<close>.
\<close>

section \<open>The device\<close>

record 'd spi_ops =
  spi_mem_read :: "'d \<Rightarrow> u32 \<Rightarrow> nat \<Rightarrow> byte list"
  spi_mem_write :: "'d \<Rightarrow> u32 \<Rightarrow> byte list \<Rightarrow> 'd"
  spi_sector_erase :: "'d \<Rightarrow> u32 \<Rightarrow> 'd"

definition nor_flash :: "'d spi_ops \<Rightarrow> ('d \<Rightarrow> nat \<Rightarrow> byte) \<Rightarrow> bool" where
  "nor_flash ops cell \<longleftrightarrow>
     (\<forall>d a n. unat a + n \<le> 2 ^ 32 \<longrightarrow>
        spi_mem_read ops d a n = map (\<lambda>i. cell d (unat a + i)) [0..<n]) \<and>
     (\<forall>d a bs x. unat a mod 256 + length bs \<le> 256 \<longrightarrow>
        cell (spi_mem_write ops d a bs) x =
          (if unat a \<le> x \<and> x < unat a + length bs then cell d x AND bs ! (x - unat a) else cell d x)) \<and>
     (\<forall>d a x. unat a mod 4096 = 0 \<longrightarrow>
        cell (spi_sector_erase ops d a) x =
          (if unat a \<le> x \<and> x < unat a + 4096 then 0xFF else cell d x))"

text \<open>A device that behaves so: the cells themselves.\<close>

definition plain_flash :: "(nat \<Rightarrow> byte) spi_ops" where
  "plain_flash =
     \<lparr>spi_mem_read = \<lambda>d a n. map (\<lambda>i. d (unat a + i)) [0..<n],
      spi_mem_write = \<lambda>d a bs x.
        if unat a \<le> x \<and> x < unat a + length bs then d x AND bs ! (x - unat a) else d x,
      spi_sector_erase = \<lambda>d a x. if unat a \<le> x \<and> x < unat a + 4096 then 0xFF else d x\<rparr>"

lemma nor_flash_plain [simp]: "nor_flash plain_flash (\<lambda>d. d)"
  by (simp add: nor_flash_def plain_flash_def)

section \<open>The cache\<close>

datatype cache_state = EMPTY | VALID | DIRTY

record sector_cache =
  sc_address :: u32
  sc_lru :: u32
  sc_state :: cache_state
  sc_data :: "byte list"

record 'd flash_state =
  fl_dev :: 'd
  fl_cache :: "sector_cache list"
  fl_ticks :: nat

definition MUST_ERASE :: u32 where
  "MUST_ERASE = NOT 0"

text \<open>The loop of \<open>check_program_state\<close> over the two buffers, \<open>offset\<close> counting up.\<close>

fun program_loop :: "byte list \<Rightarrow> byte list \<Rightarrow> nat \<Rightarrow> u32 \<Rightarrow> u32" where
  "program_loop (n # new) (m # old) offset program =
     (let program = (if NOT n AND m \<noteq> 0 then program OR push_bit (offset div 256) 1 else program)
      in if n AND NOT m \<noteq> 0 then MUST_ERASE else program_loop new old (offset + 1) program)"
| "program_loop _ _ offset program = program"

definition check_program_state :: "byte list \<Rightarrow> byte list \<Rightarrow> u32" where
  "check_program_state new old = program_loop new old 0 0"

definition ALIGN :: "nat \<Rightarrow> nat \<Rightarrow> nat" where
  "ALIGN x b = (x + (b - 1)) div b * b"

text \<open>
  The loop of \<open>check_erased_state\<close> as written: the \<open>for\<close> header adds one to \<open>offset\<close> after both
  branches, also after the skip to the next page and after the \<open>offset++\<close> of the body.
\<close>

function erased_loop :: "byte list \<Rightarrow> nat \<Rightarrow> u32 \<Rightarrow> u32" where
  "erased_loop sector offset program =
     (if offset < length sector then
        if sector ! offset \<noteq> 0xFF
        then erased_loop sector (ALIGN (offset + 1) 256 + 1) (program OR push_bit (offset div 256) 1)
        else erased_loop sector (offset + 1 + 1) program
      else program)"
  by pat_completeness auto
termination
proof (relation "measure (\<lambda>(sector, offset, program). length sector - offset)", goal_cases)
  case (2 sector offset program)
  have "offset < ALIGN (offset + 1) 256 + 1" by (simp add: ALIGN_def)
  with 2 show ?case by simp
qed auto

declare erased_loop.simps [simp del]

definition check_erased_state :: "byte list \<Rightarrow> u32" where
  "check_erased_state sector = erased_loop sector 0 0"

definition page_program :: "'d spi_ops \<Rightarrow> 'd \<Rightarrow> u32 \<Rightarrow> nat \<Rightarrow> byte list \<Rightarrow> 'd" where
  "page_program ops dev sector_address page_index sector =
     spi_mem_write ops dev (sector_address + word_of_nat page_index * 256)
       (take 256 (drop (page_index * 256) sector))"

definition program_pages :: "'d spi_ops \<Rightarrow> u32 \<Rightarrow> byte list \<Rightarrow> u32 \<Rightarrow> nat list \<Rightarrow> 'd \<Rightarrow> 'd" where
  "program_pages ops sector_address sector program pages dev =
     fold (\<lambda>page_index dev. if program AND push_bit page_index 1 \<noteq> 0
        then page_program ops dev sector_address page_index sector else dev) pages dev"

definition sector_program :: "'d spi_ops \<Rightarrow> 'd \<Rightarrow> u32 \<Rightarrow> byte list \<Rightarrow> 'd option" where
  "sector_program ops dev sector_address sector =
     (if \<not> length sector \<le> 4096 then None
      else if \<not> sector_address AND 4095 = 0 then None
      else
        let worksector = spi_mem_read ops dev sector_address 4096;
            program = check_program_state sector worksector;
            worksector = sector @ drop (length sector) worksector;
            (dev, program) = (if program = MUST_ERASE
              then (spi_sector_erase ops dev sector_address, check_erased_state worksector)
              else (dev, program))
        in Some (if program \<noteq> 0
                 then program_pages ops sector_address worksector program [0..<16] dev else dev))"

definition sector_cache_flush :: "'d spi_ops \<Rightarrow> 'd \<Rightarrow> sector_cache \<Rightarrow> ('d \<times> sector_cache) option" where
  "sector_cache_flush ops dev c =
     (if sc_state c \<noteq> DIRTY then Some (dev, c)
      else map_option (\<lambda>dev. (dev, c\<lparr>sc_state := VALID\<rparr>)) (sector_program ops dev (sc_address c) (sc_data c)))"

fun flush_loop :: "'d spi_ops \<Rightarrow> 'd \<Rightarrow> sector_cache list \<Rightarrow> ('d \<times> sector_cache list) option" where
  "flush_loop ops dev [] = Some (dev, [])"
| "flush_loop ops dev (c # cs) =
     (case sector_cache_flush ops dev c of
        None \<Rightarrow> None
      | Some (dev, c) \<Rightarrow> map_option (\<lambda>(dev, cs). (dev, c # cs)) (flush_loop ops dev cs))"

definition sector_cache_flush_all :: "'d spi_ops \<Rightarrow> 'd flash_state \<Rightarrow> 'd flash_state option" where
  "sector_cache_flush_all ops s =
     map_option (\<lambda>(dev, cs). s\<lparr>fl_dev := dev, fl_cache := cs\<rparr>) (flush_loop ops (fl_dev s) (fl_cache s))"

definition time_before :: "u32 \<Rightarrow> u32 \<Rightarrow> bool" where
  "time_before a b \<longleftrightarrow> sint (a - b) < 0"

text \<open>
  \<open>sector_cache_find\<close> returns the index of the entry to use: the first empty one, else the oldest
  valid one, else the oldest dirty one.  The address is a parameter of the source that its body
  never reads.
\<close>

definition older :: "sector_cache list \<Rightarrow> nat \<Rightarrow> nat option \<Rightarrow> bool" where
  "older cs idx best = (case best of None \<Rightarrow> True | Some b \<Rightarrow> time_before (sc_lru (cs ! idx)) (sc_lru (cs ! b)))"

fun find_loop :: "sector_cache list \<Rightarrow> nat list \<Rightarrow> nat option \<Rightarrow> nat option \<Rightarrow> nat option" where
  "find_loop cs [] valid dirty = (if valid \<noteq> None then valid else dirty)"
| "find_loop cs (idx # idxs) valid dirty =
     (let c = cs ! idx in
      if sc_state c = EMPTY then Some idx
      else
        let valid = (if sc_state c = VALID \<and> older cs idx valid then Some idx else valid);
            dirty = (if sc_state c = DIRTY \<and> older cs idx dirty then Some idx else dirty)
        in find_loop cs idxs valid dirty)"

definition sector_cache_find :: "sector_cache list \<Rightarrow> u32 \<Rightarrow> nat option" where
  "sector_cache_find cs address = find_loop cs [0..<length cs] None None"

definition sector_base :: "u32 \<Rightarrow> u32" where
  "sector_base address = address AND NOT 4095"

definition sector_cache_load :: "'d spi_ops \<Rightarrow> 'd flash_state \<Rightarrow> u32 \<Rightarrow> ('d flash_state \<times> nat) option" where
  "sector_cache_load ops s address =
     (let sector_address = sector_base address in
      case sector_cache_find (fl_cache s) sector_address of
        None \<Rightarrow> None
      | Some idx \<Rightarrow>
          let c = fl_cache s ! idx in
          case (if sc_address c \<noteq> sector_address then sector_cache_flush ops (fl_dev s) c
                else Some (fl_dev s, c)) of
            None \<Rightarrow> None
          | Some (dev, c) \<Rightarrow>
              let c = (if sc_address c \<noteq> sector_address \<or> sc_state c = EMPTY
                then c\<lparr>sc_data := spi_mem_read ops dev sector_address 4096,
                       sc_address := sector_address, sc_state := VALID\<rparr>
                else c)
              in Some (s\<lparr>fl_dev := dev, fl_cache := (fl_cache s)[idx := c]\<rparr>, idx))"

definition touch_lru :: "(nat \<Rightarrow> u32) \<Rightarrow> 'd flash_state \<Rightarrow> nat \<Rightarrow> 'd flash_state" where
  \<comment> \<open>\<open>c->lru = os_systime()\<close>; the clock is a parameter read once per call\<close>
  "touch_lru systime s idx =
     s\<lparr>fl_cache := (fl_cache s)[idx := (fl_cache s ! idx)\<lparr>sc_lru := systime (fl_ticks s)\<rparr>],
       fl_ticks := fl_ticks s + 1\<rparr>"

function sector_cache_read ::
    "'d spi_ops \<Rightarrow> (nat \<Rightarrow> u32) \<Rightarrow> 'd flash_state \<Rightarrow> u32 \<Rightarrow> nat \<Rightarrow> (byte list \<times> 'd flash_state) option" where
  "sector_cache_read ops systime s address len =
     (if len > 0 then
        (let offset = unat address mod 4096;
             n = min len (4096 - offset)
         in case sector_cache_load ops s address of
              None \<Rightarrow> None
            | Some (s, idx) \<Rightarrow>
                let chunk = take n (drop offset (sc_data (fl_cache s ! idx)))
                in map_option (\<lambda>(rest, s). (chunk @ rest, s))
                     (sector_cache_read ops systime (touch_lru systime s idx) (address + word_of_nat n) (len - n)))
      else Some ([], s))"
  by pat_completeness auto
termination
  by (relation "measure (\<lambda>(ops, systime, s, address, len). len)") auto

function sector_cache_write ::
    "'d spi_ops \<Rightarrow> (nat \<Rightarrow> u32) \<Rightarrow> 'd flash_state \<Rightarrow> u32 \<Rightarrow> byte list \<Rightarrow> 'd flash_state option" where
  "sector_cache_write ops systime s address data =
     (if data \<noteq> [] then
        (let offset = unat address mod 4096;
             n = min (length data) (4096 - offset)
         in case sector_cache_load ops s address of
              None \<Rightarrow> None
            | Some (s, idx) \<Rightarrow>
                let c = fl_cache s ! idx;
                    c = c\<lparr>sc_data := take offset (sc_data c) @ take n data @ drop (offset + n) (sc_data c),
                          sc_state := DIRTY\<rparr>;
                    s = s\<lparr>fl_cache := (fl_cache s)[idx := c]\<rparr>
                in sector_cache_write ops systime (touch_lru systime s idx) (address + word_of_nat n) (drop n data))
      else Some s)"
  by pat_completeness auto
termination
  by (relation "measure (\<lambda>(ops, systime, s, address, data). length data)") auto

declare sector_cache_read.simps [simp del] sector_cache_write.simps [simp del]

lemma sector_cache_empty_request [simp]:
  "sector_cache_write ops systime s a [] = Some s" "sector_cache_read ops systime s a 0 = Some ([], s)"
  by (simp_all add: sector_cache_write.simps sector_cache_read.simps)

text \<open>\<open>sector_cache_erase_sector\<close> of \<open>apps/gordon\<close>.\<close>

definition sector_cache_erase_sector :: "'d spi_ops \<Rightarrow> 'd flash_state \<Rightarrow> u32 \<Rightarrow> 'd flash_state" where
  "sector_cache_erase_sector ops s address =
     s\<lparr>fl_cache := map (\<lambda>c. if sc_address c = address
         then c\<lparr>sc_state := (if sc_state c = VALID \<or> sc_state c = DIRTY then EMPTY else sc_state c),
                sc_address := 0\<rparr>
         else c) (fl_cache s),
       fl_dev := spi_sector_erase ops (fl_dev s) address\<rparr>"

text \<open>
  \<open>sector_cache_init\<close>: the boot argument gives the number of entries (at least one); when they cannot
  be allocated a single entry is tried.  The result is the block with its entries, \<^const>\<open>None\<close> for the cache left
  at \<open>NULL\<close>, and \<open>sector_cache_size\<close>.  The size in bytes is a 32-bit product: when it wraps the block holds fewer
  entries than \<open>sector_cache_size\<close> says.
\<close>

definition empty_entry :: sector_cache where
  "empty_entry = \<lparr>sc_address = 0, sc_lru = 0, sc_state = EMPTY, sc_data = replicate 4096 0\<rparr>"

definition sector_cache_init :: "(nat \<Rightarrow> bool) \<Rightarrow> int \<Rightarrow> sector_cache list option \<times> nat" where
  "sector_cache_init alloc boot_arg =
     (let sz = (if boot_arg < 1 then 1 else nat boot_arg);
          bytes = sz * 4108 mod 2 ^ 32
      in if alloc bytes then (Some (replicate (bytes div 4108) empty_entry), sz)
         else if sz > 1 then (if alloc 4108 then Some [empty_entry] else None, 1)
         else (None, sz))"

section \<open>Which pages are programmed\<close>

lemma bit_page_mask: "k < 16 \<Longrightarrow> bit (2 ^ p :: u32) k \<longleftrightarrow> k = p"
  by (auto simp: bit_simps)

lemma and_page_mask: "k < 16 \<Longrightarrow> (w AND push_bit k 1 \<noteq> (0 :: u32)) \<longleftrightarrow> bit w k"
  by (auto simp: bit_eq_iff [where 'a = "32 word"] bit_simps)

text \<open>Programming suffices when no bit has to go from 0 to 1.\<close>

definition only_clears :: "byte list \<Rightarrow> byte list \<Rightarrow> bool" where
  "only_clears new old \<longleftrightarrow> (\<forall>i < length new. new ! i AND NOT (old ! i) = 0)"

lemma program_loop_erase:
  "length new = length old \<Longrightarrow> \<not> only_clears new old \<Longrightarrow> program_loop new old offset program = MUST_ERASE"
proof (induction new old offset program rule: program_loop.induct)
  case (1 n new m old offset program)
  show ?case
  proof (cases "n AND NOT m = 0")
    case True
    with 1 have "\<not> only_clears new old"
      by (auto simp: only_clears_def nth_Cons split: nat.splits)
    with 1 True show ?thesis by (simp add: Let_def)
  qed (simp add: Let_def)
qed (auto simp: only_clears_def)

lemma program_loop_bits:
  "length new = length old \<Longrightarrow> only_clears new old \<Longrightarrow> offset + length new \<le> 4096 \<Longrightarrow> k < 16 \<Longrightarrow>
   bit (program_loop new old offset program) k \<longleftrightarrow>
     bit program k \<or> (\<exists>i < length new. (offset + i) div 256 = k \<and> NOT (new ! i) AND old ! i \<noteq> 0)"
proof (induction new old offset program rule: program_loop.induct)
  case (1 n new m old offset program)
  define program' where "program' = (if NOT n AND m \<noteq> 0 then program OR push_bit (offset div 256) 1 else program)"
  from 1 have oc: "n AND NOT m = 0" "only_clears new old"
    unfolding only_clears_def by (force, force)
  have "bit program' k \<longleftrightarrow> bit program k \<or> offset div 256 = k \<and> NOT n AND m \<noteq> 0"
    using 1 by (auto simp: program'_def bit_or_iff bit_page_mask)
  moreover have "bit (program_loop new old (offset + 1) program') k \<longleftrightarrow>
     bit program' k \<or> (\<exists>i < length new. (offset + 1 + i) div 256 = k \<and> NOT (new ! i) AND old ! i \<noteq> 0)"
    using 1 oc program'_def by simp
  moreover have "program_loop (n # new) (m # old) offset program = program_loop new old (offset + 1) program'"
    using oc by (simp add: program'_def Let_def)
  ultimately show ?case
    by (auto simp: less_Suc_eq_0_disj)
qed auto

lemma program_loop_no_erase:
  assumes "length new = length old" "only_clears new old" "offset + length new \<le> 4096" "\<not> bit program 31"
  shows "program_loop new old offset program \<noteq> MUST_ERASE"
proof -
  have "\<not> bit (program_loop new old offset program) 31"
    using assms
  proof (induction new old offset program rule: program_loop.induct)
    case (1 n new m old offset program)
    then have "n AND NOT m = 0" "only_clears new old"
      unfolding only_clears_def by (force, force)
    moreover have "\<not> bit (if NOT n AND m \<noteq> 0 then program OR push_bit (offset div 256) 1 else program) 31"
      using 1 by (auto simp: bit_simps)
    ultimately show ?case using 1 by (simp add: Let_def)
  qed auto
  then show ?thesis by (auto simp: MUST_ERASE_def bit_simps)
qed

section \<open>The scan of an erased sector\<close>

text \<open>
  The scan visits every other byte.  It starts on even offsets and moves to odd ones after the first
  page that needs programming, so a page is sure to be seen only when it holds data at an even and
  at an odd offset.
\<close>

definition page_storable :: "byte list \<Rightarrow> nat \<Rightarrow> bool" where
  "page_storable sector k \<longleftrightarrow>
     (\<exists>i < length sector. i div 256 = k \<and> sector ! i \<noteq> 0xFF) \<longrightarrow>
     (\<exists>i < length sector. i div 256 = k \<and> even i \<and> sector ! i \<noteq> 0xFF) \<and>
     (\<exists>i < length sector. i div 256 = k \<and> odd i \<and> sector ! i \<noteq> 0xFF)"

definition sector_storable :: "byte list \<Rightarrow> bool" where
  "sector_storable sector \<longleftrightarrow> (\<forall>k < 16. page_storable sector k)"

lemma erased_loop_mono: "bit program k \<Longrightarrow> bit (erased_loop sector offset program) k"
proof (induction sector offset program rule: erased_loop.induct)
  case (1 sector offset program)
  then show ?case by (subst erased_loop.simps) (auto simp: bit_or_iff)
qed

lemma ALIGN_next: "i div 256 < k \<Longrightarrow> ALIGN (i + 1) 256 + 1 \<le> 256 * k + 1 \<and> even (ALIGN (i + 1) 256)"
  by (auto simp: ALIGN_def)

lemma erased_loop_sees:
  assumes "length sector = 4096" "k < 16"
    and "e < 4096" "e div 256 = k" "even e" "sector ! e \<noteq> 0xFF"
    and "f < 4096" "f div 256 = k" "odd f" "sector ! f \<noteq> 0xFF"
  shows "offset \<le> i \<Longrightarrow> even (i - offset) \<Longrightarrow> i = e \<or> i = f \<Longrightarrow> bit (erased_loop sector offset program) k"
proof (induction "4096 - offset" arbitrary: offset program i rule: less_induct)
  case less
  have i: "i < 4096" "i div 256 = k" "sector ! i \<noteq> 0xFF" using less.prems assms by auto
  have off: "offset < 4096" using less.prems i by simp
  show ?case
  proof (cases "sector ! offset = 0xFF")
    case True
    with i less.prems have "offset \<noteq> i" by auto
    moreover have "i \<noteq> offset + 1" using less.prems by auto
    ultimately have "offset + 2 \<le> i" using less.prems by simp
    moreover have "even (i - (offset + 2))"
      using less.prems calculation by auto
    ultimately have "bit (erased_loop sector (offset + 2) program) k"
      using less.hyps [of "offset + 2" i] less.prems off by auto
    with True off assms(1) show ?thesis by (subst erased_loop.simps) simp
  next
    case False
    define program' where "program' = program OR push_bit (offset div 256) 1"
    define nxt where "nxt = ALIGN (offset + 1) 256 + 1"
    have eq: "erased_loop sector offset program = erased_loop sector nxt program'"
      using False off assms(1) by (subst erased_loop.simps) (simp add: program'_def nxt_def)
    show ?thesis
    proof (cases "offset div 256 = k")
      case True
      then have "bit program' k" using assms(2) by (simp add: program'_def bit_or_iff bit_page_mask)
      with eq erased_loop_mono show ?thesis by simp
    next
      case False
      with i less.prems have "offset div 256 < k" by (metis div_le_mono le_neq_implies_less)
      from ALIGN_next [OF this] have n: "nxt \<le> 256 * k + 1" "odd nxt"
        by (simp_all add: nxt_def)
      have "256 * k + 1 \<le> f" using assms(8,9)
        by (metis Suc_eq_plus1 dvd_mult2 dvd_triv_left even_numeral le_antisym mult.commute not_less_eq_eq times_div_less_eq_dividend)
      then have "nxt \<le> f" "even (f - nxt)" using n assms(9) by auto
      moreover have "offset < nxt" by (simp add: nxt_def ALIGN_def)
      ultimately show ?thesis
        using less.hyps [of nxt f program'] off eq by simp
    qed
  qed
qed

text \<open>
  When every byte at an even offset is blank the scan finds nothing, whatever the odd offsets hold.
\<close>

lemma erased_loop_misses:
  "even offset \<Longrightarrow> (\<And>i. i < length sector \<Longrightarrow> even i \<Longrightarrow> sector ! i = 0xFF) \<Longrightarrow>
   erased_loop sector offset program = program"
proof (induction sector offset program rule: erased_loop.induct)
  case (1 sector offset program)
  then show ?case by (subst erased_loop.simps) simp
qed

section \<open>Programming a sector\<close>

lemma nor_flash_read:
  "nor_flash ops cell \<Longrightarrow> unat a + n \<le> 2 ^ 32 \<Longrightarrow>
   spi_mem_read ops d a n = map (\<lambda>i. cell d (unat a + i)) [0..<n]"
  by (simp add: nor_flash_def)

lemma nor_flash_write:
  "nor_flash ops cell \<Longrightarrow> unat a mod 256 + length bs \<le> 256 \<Longrightarrow>
   cell (spi_mem_write ops d a bs) x =
     (if unat a \<le> x \<and> x < unat a + length bs then cell d x AND bs ! (x - unat a) else cell d x)"
  by (simp add: nor_flash_def)

lemma nor_flash_erase:
  "nor_flash ops cell \<Longrightarrow> unat a mod 4096 = 0 \<Longrightarrow>
   cell (spi_sector_erase ops d a) x = (if unat a \<le> x \<and> x < unat a + 4096 then 0xFF else cell d x)"
  by (simp add: nor_flash_def)

lemma aligned_room:
  assumes "unat (a :: u32) mod 4096 = 0"
  shows "unat a + 4096 \<le> 2 ^ 32"
proof -
  obtain q where q: "unat a = 4096 * q" using assms by (auto simp: mod_eq_0_iff_dvd)
  have "unat a < 2 ^ 32" using unsigned_less [of a, where 'a = nat] by simp
  with q show ?thesis by simp
qed

lemma unat_page_address:
  assumes "unat (a :: u32) mod 4096 = 0" "k < 16"
  shows "unat (a + word_of_nat k * 256) = unat a + k * 256"
  using aligned_room [OF assms(1)] assms(2) by (simp add: unat_word_ariths unat_of_nat)

lemma page_program_cell:
  assumes "nor_flash ops cell" "unat a mod 4096 = 0" "k < 16" "length sector = 4096"
  shows "cell (page_program ops d a k sector) x =
    (if unat a \<le> x \<and> (x - unat a) div 256 = k then cell d x AND sector ! (x - unat a) else cell d x)"
proof -
  define b where "b = a + word_of_nat k * 256"
  have b: "unat b = unat a + k * 256" using unat_page_address [OF assms(2,3)] by (simp add: b_def)
  from assms(2) obtain q where q: "unat a = 4096 * q" by (auto simp: mod_eq_0_iff_dvd)
  then have "unat b = 256 * (16 * q + k)" using b by simp
  then have "unat b mod 256 = 0" by (simp only: mod_mult_self1_is_0)
  moreover have len: "length (take 256 (drop (k * 256) sector)) = 256" using assms(3,4) by simp
  ultimately have "cell (page_program ops d a k sector) x =
     (if unat b \<le> x \<and> x < unat b + 256 then cell d x AND take 256 (drop (k * 256) sector) ! (x - unat b) else cell d x)"
    using nor_flash_write [OF assms(1), of b "take 256 (drop (k * 256) sector)" d x]
    by (simp add: page_program_def b_def)
  moreover have "unat b \<le> x \<and> x < unat b + 256 \<longleftrightarrow> unat a \<le> x \<and> (x - unat a) div 256 = k"
    using b by auto
  moreover have "take 256 (drop (k * 256) sector) ! (x - unat b) = sector ! (x - unat a)"
    if "unat b \<le> x" "x < unat b + 256"
    using that assms(3,4) b by simp
  ultimately show ?thesis by auto
qed

lemma program_pages_cell:
  assumes "nor_flash ops cell" "unat a mod 4096 = 0" "length sector = 4096"
  shows "distinct pages \<Longrightarrow> set pages \<subseteq> {..<16} \<Longrightarrow>
    cell (program_pages ops a sector program pages d) x =
    (if unat a \<le> x \<and> (x - unat a) div 256 \<in> set pages \<and> bit program ((x - unat a) div 256)
     then cell d x AND sector ! (x - unat a) else cell d x)"
proof (induction pages arbitrary: d)
  case (Cons k pages)
  have "program_pages ops a sector program (k # pages) d =
      program_pages ops a sector program pages (if bit program k then page_program ops d a k sector else d)"
    using Cons.prems and_page_mask [of k program] by (simp add: program_pages_def)
  with Cons page_program_cell [OF assms(1,2) _ assms(3), of k d x] show ?case by auto
qed (simp add: program_pages_def)

lemma erased_and: "(0xFF :: byte) AND b = b"
proof -
  have "(0xFF :: byte) = - 1" by simp
  then show ?thesis by (simp only: and.left_neutral)
qed

lemma aligned_iff: "(a :: u32) AND 4095 = 0 \<longleftrightarrow> unat a mod 4096 = 0"
proof -
  have "a AND 4095 = take_bit 12 a" by (simp add: take_bit_eq_mask mask_eq_exp_minus_1)
  moreover have "unat (take_bit 12 a) = unat a mod 4096"
    by (simp add: take_bit_eq_mod unat_mod)
  ultimately show ?thesis by (metis unsigned_eq_0_iff)
qed

text \<open>The result of \<open>sector_program\<close> on a whole sector, with the pages each branch selects.\<close>

lemma sector_program_cell:
  fixes ops :: "'d spi_ops" and d :: 'd
  assumes nor: "nor_flash ops cell" and al: "unat a mod 4096 = 0" and len: "length sector = 4096"
  defines "old \<equiv> map (\<lambda>i. cell d (unat a + i)) [0..<4096]"
  shows "\<exists>d'. sector_program ops d a sector = Some d' \<and>
    (\<forall>x. cell d' x =
      (if unat a \<le> x \<and> x < unat a + 4096
       then if only_clears sector old
            then if bit (check_program_state sector old) ((x - unat a) div 256)
                 then cell d x AND sector ! (x - unat a) else cell d x
            else if bit (check_erased_state sector) ((x - unat a) div 256)
                 then sector ! (x - unat a) else 0xFF
       else cell d x))"
proof -
  let ?oc = "only_clears sector old"
  define dev where "dev = (if ?oc then d else spi_sector_erase ops d a)"
  define program where "program = (if ?oc then check_program_state sector old else check_erased_state sector)"
  have old: "spi_mem_read ops d a 4096 = old" "length old = 4096"
    using nor_flash_read [OF nor aligned_room [OF al]] by (simp_all add: old_def)
  have must: "check_program_state sector old = MUST_ERASE \<longleftrightarrow> \<not> ?oc"
    using program_loop_erase [of sector old] program_loop_no_erase [of sector old 0 0] len old(2)
    by (auto simp: check_program_state_def)
  have "fold (\<lambda>page_index dev. dev) ks dev = dev" for ks :: "nat list" by (induction ks) auto
  then have idle: "program_pages ops a sector 0 [0..<16] dev = dev" by (simp add: program_pages_def)
  have "sector_program ops d a sector =
      Some (if program \<noteq> 0 then program_pages ops a sector program [0..<16] dev else dev)"
    using len al must unfolding sector_program_def
    by (simp add: old aligned_iff Let_def program_def dev_def)
  with idle have "sector_program ops d a sector = Some (program_pages ops a sector program [0..<16] dev)"
    by (cases "program = 0") simp_all
  moreover have "cell (program_pages ops a sector program [0..<16] dev) x =
      (if unat a \<le> x \<and> x < unat a + 4096 \<and> bit program ((x - unat a) div 256)
       then cell dev x AND sector ! (x - unat a) else cell dev x)" for x
  proof -
    have "set [0..<16] \<subseteq> {..<16 :: nat}" by auto
    from program_pages_cell [OF nor al len distinct_upt this, of program dev x] show ?thesis
      by (auto simp: div_less_iff_less_mult less_diff_conv2)
  qed
  moreover have "cell dev x = (if only_clears sector old then cell d x
      else if unat a \<le> x \<and> x < unat a + 4096 then 0xFF else cell d x)" for x
    using nor_flash_erase [OF nor al] by (simp add: dev_def)
  ultimately show ?thesis
    by (auto simp: program_def erased_and)
qed

text \<open>Where only bits are cleared, the pages left alone already hold the new data.\<close>

lemma only_clears_and: "(n :: byte) AND NOT m = 0 \<Longrightarrow> m AND n = n"
  by (auto simp: bit_eq_iff [where 'a = byte] bit_simps)

lemma only_clears_eq: "(n :: byte) AND NOT m = 0 \<Longrightarrow> NOT n AND m = 0 \<Longrightarrow> m = n"
  by (auto simp: bit_eq_iff [where 'a = byte] bit_simps)

lemma check_program_state_exact:
  assumes "length sector = 4096" "length old = 4096" "only_clears sector old" "i < 4096"
  shows "(if bit (check_program_state sector old) (i div 256) then old ! i AND sector ! i else old ! i) = sector ! i"
proof -
  have n: "sector ! i AND NOT (old ! i) = 0" using assms by (simp add: only_clears_def)
  show ?thesis
  proof (cases "bit (check_program_state sector old) (i div 256)")
    case False
    with assms have "NOT (sector ! i) AND old ! i = 0"
      using program_loop_bits [of sector old 0 "i div 256" 0]
      by (auto simp: check_program_state_def div_less_iff_less_mult)
    with False n only_clears_eq show ?thesis by simp
  qed (simp add: only_clears_and [OF n])
qed

lemma check_erased_state_exact:
  assumes "length sector = 4096" "sector_storable sector" "i < 4096"
    "\<not> bit (check_erased_state sector) (i div 256)"
  shows "sector ! i = 0xFF"
proof (rule ccontr)
  assume "sector ! i \<noteq> 0xFF"
  moreover have k: "i div 256 < 16" using assms(3) by (simp add: div_less_iff_less_mult)
  ultimately obtain e f where "e < 4096" "e div 256 = i div 256" "even e" "sector ! e \<noteq> 0xFF"
      "f < 4096" "f div 256 = i div 256" "odd f" "sector ! f \<noteq> 0xFF"
    using assms(1-3) unfolding sector_storable_def page_storable_def by metis
  with erased_loop_sees [OF assms(1) k this, of 0 e 0] assms(4) show False
    by (simp add: check_erased_state_def)
qed

lemma sector_program_ok:
  assumes "nor_flash ops cell" "unat a mod 4096 = 0" "length sector = 4096" "sector_storable sector"
  shows "\<exists>d'. sector_program ops d a sector = Some d' \<and>
    (\<forall>x. cell d' x = (if unat a \<le> x \<and> x < unat a + 4096 then sector ! (x - unat a) else cell d x))"
proof -
  define old where "old = map (\<lambda>i. cell d (unat a + i)) [0..<4096]"
  have len: "length old = 4096" by (simp add: old_def)
  have nth: "old ! (x - unat a) = cell d x" if "unat a \<le> x" "x < unat a + 4096" for x
    using that by (simp add: old_def less_diff_conv2)
  obtain d' where d': "sector_program ops d a sector = Some d'" and
    cell: "\<And>x. cell d' x = (if unat a \<le> x \<and> x < unat a + 4096
       then if only_clears sector old
            then if bit (check_program_state sector old) ((x - unat a) div 256)
                 then cell d x AND sector ! (x - unat a) else cell d x
            else if bit (check_erased_state sector) ((x - unat a) div 256)
                 then sector ! (x - unat a) else 0xFF
       else cell d x)"
    using sector_program_cell [OF assms(1-3), of d] unfolding old_def by blast
  have "cell d' x = sector ! (x - unat a)" if x: "unat a \<le> x" "x < unat a + 4096" for x
  proof -
    have i: "x - unat a < 4096" using x by simp
    show ?thesis
      using cell [of x] x nth [OF x] check_program_state_exact [OF assms(3) _ _ i, of old]
        check_erased_state_exact [OF assms(3,4) i] len by (cases "only_clears sector old") (auto split: if_splits)
  qed
  with d' cell show ?thesis by auto
qed

section \<open>Coherence of the one-entry cache\<close>

text \<open>
  The default configuration has one entry.  \<open>flash_view\<close> is what a reader sees through the cache;
  the invariant says that a valid entry agrees with the flash and that a dirty one holds data the
  erase scan is sure to see.
\<close>

definition flash_view :: "('d \<Rightarrow> nat \<Rightarrow> byte) \<Rightarrow> 'd flash_state \<Rightarrow> nat \<Rightarrow> byte" where
  "flash_view cell s x =
     (let c = hd (fl_cache s) in
      if sc_state c \<noteq> EMPTY \<and> unat (sc_address c) \<le> x \<and> x < unat (sc_address c) + 4096
      then sc_data c ! (x - unat (sc_address c)) else cell (fl_dev s) x)"

definition cache_inv :: "('d \<Rightarrow> nat \<Rightarrow> byte) \<Rightarrow> 'd flash_state \<Rightarrow> bool" where
  "cache_inv cell s \<longleftrightarrow>
     (\<exists>c. fl_cache s = [c] \<and> length (sc_data c) = 4096 \<and> unat (sc_address c) mod 4096 = 0 \<and>
        (sc_state c = VALID \<longrightarrow>
           (\<forall>i < 4096. sc_data c ! i = cell (fl_dev s) (unat (sc_address c) + i))) \<and>
        (sc_state c = DIRTY \<longrightarrow> sector_storable (sc_data c)))"

lemma find_single [simp]: "sector_cache_find [c] a = Some 0"
  by (cases "sc_state c") (simp_all add: sector_cache_find_def older_def)

lemma unat_sector_base: "unat (sector_base a) = unat a - unat a mod 4096"
proof -
  have m: "(4095 :: u32) = mask 12" by (simp add: mask_eq_exp_minus_1)
  have t: "a AND 4095 = take_bit 12 a" by (simp add: take_bit_eq_mask m)
  have "(a AND 4095) + (a AND NOT 4095) = (a AND 4095) OR (a AND NOT 4095)"
    by (rule disjunctive_add_eq_or) (auto intro: bit_word_eqI simp: bit_simps)
  also have "\<dots> = a" by (auto intro: bit_word_eqI simp: bit_simps)
  finally have "a AND NOT 4095 = a - take_bit 12 a" by (simp add: t algebra_simps)
  moreover have u: "unat (take_bit 12 a) = unat a mod 4096" by (simp add: take_bit_eq_mod unat_mod)
  moreover have "take_bit 12 a \<le> a" by (simp add: word_le_nat_alt u)
  ultimately show ?thesis unfolding sector_base_def by (simp only: unat_sub)
qed

lemma sector_base_aligned [simp]: "unat (sector_base a) mod 4096 = 0"
  by (simp add: unat_sector_base minus_mod_eq_mult_div)

lemma cache_flush_ok:
  assumes nor: "nor_flash ops cell" and inv: "cache_inv cell s" and c: "fl_cache s = [c]"
  shows "\<exists>d c'. sector_cache_flush ops (fl_dev s) c = Some (d, c') \<and> sc_state c' \<noteq> DIRTY \<and>
    sc_address c' = sc_address c \<and> cache_inv cell (s\<lparr>fl_dev := d, fl_cache := [c']\<rparr>) \<and>
    (\<forall>x. cell d x = flash_view cell s x)"
proof (cases "sc_state c = DIRTY")
  case True
  with inv c have "length (sc_data c) = 4096" "unat (sc_address c) mod 4096 = 0" "sector_storable (sc_data c)"
    by (auto simp: cache_inv_def)
  from sector_program_ok [OF nor this(2,1,3), of "fl_dev s"] obtain d where
    d: "sector_program ops (fl_dev s) (sc_address c) (sc_data c) = Some d"
      "\<And>x. cell d x = (if unat (sc_address c) \<le> x \<and> x < unat (sc_address c) + 4096
        then sc_data c ! (x - unat (sc_address c)) else cell (fl_dev s) x)" by blast
  with True inv c show ?thesis
    by (simp add: sector_cache_flush_def cache_inv_def flash_view_def Let_def)
next
  case False
  with inv c have v: "sc_state c = EMPTY \<or> sc_state c = VALID" by (cases "sc_state c") auto
  have "cell (fl_dev s) x = flash_view cell s x" for x
    using inv c v by (auto simp: cache_inv_def flash_view_def Let_def dest: spec [of _ "x - unat (sc_address c)"])
  with False inv c show ?thesis
    by (auto simp: sector_cache_flush_def cache_inv_def)
qed

lemma cache_load_ok:
  assumes nor: "nor_flash ops cell" and inv: "cache_inv cell s"
  shows "\<exists>s' c. sector_cache_load ops s a = Some (s', 0) \<and> fl_cache s' = [c] \<and>
    sc_address c = sector_base a \<and> sc_state c \<noteq> EMPTY \<and> cache_inv cell s' \<and>
    flash_view cell s' = flash_view cell s"
proof -
  from inv obtain c where c: "fl_cache s = [c]" by (auto simp: cache_inv_def)
  show ?thesis
  proof (cases "sc_address c = sector_base a \<and> sc_state c \<noteq> EMPTY")
    case True
    then have "sector_cache_load ops s a = Some (s, 0)"
      using c by (simp add: sector_cache_load_def Let_def)
    with True c inv show ?thesis by auto
  next
    case False
    from cache_flush_ok [OF nor inv c] obtain d c' where
      f: "sector_cache_flush ops (fl_dev s) c = Some (d, c')" "sc_address c' = sc_address c"
        "\<And>x. cell d x = flash_view cell s x" by blast
    define d' where "d' = (if sc_address c \<noteq> sector_base a then d else fl_dev s)"
    define e where "e = (if sc_address c \<noteq> sector_base a then c' else c)"
    define e' where "e' = e\<lparr>sc_data := spi_mem_read ops d' (sector_base a) 4096,
      sc_address := sector_base a, sc_state := VALID\<rparr>"
    have d': "cell d' x = flash_view cell s x" for x
      using f(3) False c by (auto simp: d'_def flash_view_def Let_def)
    have rd: "spi_mem_read ops d' (sector_base a) 4096 = map (\<lambda>i. cell d' (unat (sector_base a) + i)) [0..<4096]"
      using nor_flash_read [OF nor aligned_room] by simp
    have "sector_cache_load ops s a = Some (s\<lparr>fl_dev := d', fl_cache := [e']\<rparr>, 0)"
      using c False f by (auto simp: sector_cache_load_def Let_def d'_def e_def e'_def)
    moreover have "cache_inv cell (s\<lparr>fl_dev := d', fl_cache := [e']\<rparr>)"
      by (simp add: cache_inv_def e'_def rd)
    moreover have "flash_view cell (s\<lparr>fl_dev := d', fl_cache := [e']\<rparr>) x = cell d' x" for x
      by (simp add: flash_view_def e'_def rd Let_def less_diff_conv2)
    with d' have "flash_view cell (s\<lparr>fl_dev := d', fl_cache := [e']\<rparr>) = flash_view cell s" by auto
    ultimately show ?thesis by (auto simp: e'_def)
  qed
qed

definition sector_at :: "(nat \<Rightarrow> byte) \<Rightarrow> nat \<Rightarrow> byte list" where
  "sector_at v sec = map (\<lambda>i. v (sec * 4096 + i)) [0..<4096]"

text \<open>Every sector a write touches ends with contents the erase scan is sure to see.\<close>

definition storable :: "(nat \<Rightarrow> byte) \<Rightarrow> nat \<Rightarrow> nat \<Rightarrow> bool" where
  "storable v a len \<longleftrightarrow>
     (\<forall>sec. a < (sec + 1) * 4096 \<longrightarrow> sec * 4096 < a + len \<longrightarrow> sector_storable (sector_at v sec))"

lemma cache_chunk_ok:
  assumes nor: "nor_flash ops cell" and inv: "cache_inv cell s" and c: "fl_cache s = [c]"
    and addr: "sc_address c = sector_base a" "sc_state c \<noteq> EMPTY"
    and "unat a mod 4096 + length chunk \<le> 4096"
    and ok: "sector_storable (sector_at (put (flash_view cell s) (unat a) chunk) (unat a div 4096))"
  defines "c' \<equiv> c\<lparr>sc_data := take (unat a mod 4096) (sc_data c) @ chunk @
      drop (unat a mod 4096 + length chunk) (sc_data c), sc_state := DIRTY\<rparr>"
  shows "cache_inv cell (s\<lparr>fl_cache := [c'\<lparr>sc_lru := t\<rparr>], fl_ticks := k\<rparr>) \<and>
    flash_view cell (s\<lparr>fl_cache := [c'\<lparr>sc_lru := t\<rparr>], fl_ticks := k\<rparr>) = put (flash_view cell s) (unat a) chunk"
proof -
  define b off where "b = unat (sector_base a)" "off = unat a mod 4096"
  have b: "unat a = b + off" "b = unat a div 4096 * 4096"
    by (simp_all add: b_off_def unat_sector_base minus_mod_eq_div_mult)
  have off: "off + length chunk \<le> 4096" using assms(6) by (simp add: b_off_def)
  have c': "sc_data c' = take off (sc_data c) @ chunk @ drop (off + length chunk) (sc_data c)"
    by (simp add: c'_def b_off_def)
  have len: "length (sc_data c) = 4096" using inv c by (simp add: cache_inv_def)
  have nth: "sc_data c' ! i = put (flash_view cell s) (unat a) chunk (b + i)" if "i < 4096" for i
  proof -
    have "flash_view cell s (b + i) = sc_data c ! i"
      using c addr that by (simp add: flash_view_def b_off_def)
    then show ?thesis
      using len off that by (auto simp: c' put_def nth_append b(1))
  qed
  have len': "length (sc_data c') = 4096" using len off by (simp add: c')
  have "sc_data c' = sector_at (put (flash_view cell s) (unat a) chunk) (unat a div 4096)"
    by (rule nth_equalityI) (simp_all add: len' sector_at_def nth b(2))
  with ok have st: "sector_storable (sc_data c')" by simp
  have "flash_view cell (s\<lparr>fl_cache := [c'\<lparr>sc_lru := t\<rparr>], fl_ticks := k\<rparr>) x = put (flash_view cell s) (unat a) chunk x" for x
  proof (cases "b \<le> x \<and> x < b + 4096")
    case True
    with nth [of "x - b"] show ?thesis
      using addr by (simp add: flash_view_def b_off_def c'_def less_diff_conv2)
  next
    case False
    moreover from False off b(1) have "put (flash_view cell s) (unat a) chunk x = flash_view cell s x"
      by (auto simp: put_def)
    ultimately show ?thesis
      using addr c by (auto simp: flash_view_def b_off_def c'_def)
  qed
  moreover have "cache_inv cell (s\<lparr>fl_cache := [c'\<lparr>sc_lru := t\<rparr>], fl_ticks := k\<rparr>)"
    using st len' addr by (simp add: cache_inv_def c'_def)
  ultimately show ?thesis by blast
qed

lemma sector_at_rest:
  assumes "n \<le> length data" "sec * 4096 + 4096 \<le> a + n"
  shows "sector_at (put v a data) sec = sector_at (put v a (take n data)) sec"
  using assms by (auto simp: sector_at_def put_def)

lemma cache_write_ok:
  assumes nor: "nor_flash ops cell"
  shows "cache_inv cell s \<Longrightarrow> unat a + length data \<le> 2 ^ 32 \<Longrightarrow>
    storable (put (flash_view cell s) (unat a) data) (unat a) (length data) \<Longrightarrow>
    \<exists>s'. sector_cache_write ops systime s a data = Some s' \<and> cache_inv cell s' \<and>
      flash_view cell s' = put (flash_view cell s) (unat a) data"
proof (induction "length data" arbitrary: s a data rule: less_induct)
  case less
  show ?case
  proof (cases "data = []")
    case True
    with less.prems show ?thesis by (simp add: sector_cache_write.simps)
  next
    case False
    define off n where "off = unat a mod 4096" "n = min (length data) (4096 - off)"
    have off: "off < 4096" by (simp add: off_n_def)
    then have n: "0 < n" "n \<le> length data" "off + n \<le> 4096" using False by (auto simp: off_n_def(2))
    from cache_load_ok [OF nor less.prems(1), of a] obtain s1 c where
      s1: "sector_cache_load ops s a = Some (s1, 0)" "fl_cache s1 = [c]" "sc_address c = sector_base a"
        "sc_state c \<noteq> EMPTY" "cache_inv cell s1" "flash_view cell s1 = flash_view cell s" by blast
    define s2 where "s2 = s1\<lparr>fl_cache := [c\<lparr>sc_data := take off (sc_data c) @ take n data @ drop (off + n) (sc_data c),
      sc_state := DIRTY, sc_lru := systime (fl_ticks s1)\<rparr>], fl_ticks := fl_ticks s1 + 1\<rparr>"
    have base: "unat a div 4096 * 4096 + off = unat a" by (simp add: off_n_def)
    have "sector_at (put (flash_view cell s) (unat a) data) (unat a div 4096) =
        sector_at (put (flash_view cell s) (unat a) (take n data)) (unat a div 4096)"
    proof (cases "n = length data")
      case False
      then have "off + n = 4096" using off by (auto simp: off_n_def(2))
      with base n(2) show ?thesis by (intro sector_at_rest) simp_all
    qed simp
    moreover have "sector_storable (sector_at (put (flash_view cell s) (unat a) data) (unat a div 4096))"
      using less.prems(3) n base off unfolding storable_def by simp
    ultimately have "sector_storable (sector_at (put (flash_view cell s1) (unat a) (take n data)) (unat a div 4096))"
      by (simp add: s1(6))
    from cache_chunk_ok [OF nor s1(5,2,3,4) _ this, where t = "systime (fl_ticks s1)" and k = "fl_ticks s1 + 1"] n
    have s2: "cache_inv cell s2" "flash_view cell s2 = put (flash_view cell s) (unat a) (take n data)"
      by (simp_all add: s2_def s1(6) off_n_def(1))
    have step: "sector_cache_write ops systime s a data = sector_cache_write ops systime s2 (a + word_of_nat n) (drop n data)"
      using False s1 by (subst sector_cache_write.simps) (simp add: touch_lru_def s2_def off_n_def Let_def)
    show ?thesis
    proof (cases "n = length data")
      case True
      with step s2 show ?thesis by (simp add: sector_cache_write.simps)
    next
      case False
      then have u: "unat (a + word_of_nat n) = unat a + n"
        using less.prems(2) n by (simp add: unat_word_ariths unat_of_nat)
      have fin: "put (flash_view cell s2) (unat a + n) (drop n data) = put (flash_view cell s) (unat a) data"
        using n(2) by (simp add: s2(2) put_take_drop)
      have "storable (put (flash_view cell s2) (unat (a + word_of_nat n)) (drop n data))
          (unat (a + word_of_nat n)) (length (drop n data))"
        using less.prems(3) n unfolding u fin storable_def by auto
      with less.hyps [of "drop n data" s2 "a + word_of_nat n"] n s2(1) less.prems(2) step fin u show ?thesis
        by simp
    qed
  qed
qed

lemma cache_view_chunk:
  assumes "cache_inv cell s" "fl_cache s = [c]" "sc_address c = sector_base a" "sc_state c \<noteq> EMPTY"
    and "unat a mod 4096 + n \<le> 4096"
  shows "take n (drop (unat a mod 4096) (sc_data c)) = map (\<lambda>i. flash_view cell s (unat a + i)) [0..<n]"
proof (rule nth_equalityI)
  have len: "length (sc_data c) = 4096" using assms(1,2) by (simp add: cache_inv_def)
  then show "length (take n (drop (unat a mod 4096) (sc_data c))) = length (map (\<lambda>i. flash_view cell s (unat a + i)) [0..<n])"
    using assms(5) by simp
  define b off where "b = unat (sector_base a)" "off = unat a mod 4096"
  have b: "unat a = b + off" by (simp add: b_off_def unat_sector_base)
  fix i assume "i < length (take n (drop (unat a mod 4096) (sc_data c)))"
  then have i: "i < n" by simp
  have o: "off + n \<le> 4096" using assms(5) by (simp add: b_off_def)
  have "flash_view cell s (b + (off + i)) = sc_data c ! (off + i)"
    using assms(2-4) i o by (simp add: flash_view_def b_off_def(1))
  then show "take n (drop (unat a mod 4096) (sc_data c)) ! i = map (\<lambda>i. flash_view cell s (unat a + i)) [0..<n] ! i"
    using i o len unfolding b_off_def(2) [symmetric] by (simp add: b add.assoc)
qed

lemma cache_touch:
  assumes "cache_inv cell s"
  shows "cache_inv cell (touch_lru systime s 0) \<and> flash_view cell (touch_lru systime s 0) = flash_view cell s"
proof -
  from assms obtain c where c: "fl_cache s = [c]" by (auto simp: cache_inv_def)
  have "flash_view cell (touch_lru systime s 0) = flash_view cell s"
    by (rule ext) (simp add: touch_lru_def flash_view_def c Let_def)
  with assms c show ?thesis by (simp add: touch_lru_def cache_inv_def)
qed

lemma upt_split: "n \<le> len \<Longrightarrow> map f [0..<len] = map f [0..<n] @ map (\<lambda>i. f (n + i)) [0..<len - n]"
  by (rule nth_equalityI) (auto simp: nth_append)

lemma cache_read_ok:
  assumes nor: "nor_flash ops cell"
  shows "cache_inv cell s \<Longrightarrow> unat a + len \<le> 2 ^ 32 \<Longrightarrow>
    \<exists>s'. sector_cache_read ops systime s a len = Some (map (\<lambda>i. flash_view cell s (unat a + i)) [0..<len], s') \<and>
      cache_inv cell s' \<and> flash_view cell s' = flash_view cell s"
proof (induction len arbitrary: s a rule: less_induct)
  case (less len)
  show ?case
  proof (cases "len = 0")
    case True
    with less.prems show ?thesis by (simp add: sector_cache_read.simps)
  next
    case False
    define off n where "off = unat a mod 4096" "n = min len (4096 - off)"
    have off: "off < 4096" by (simp add: off_n_def)
    then have n: "0 < n" "n \<le> len" "off + n \<le> 4096" using False by (auto simp: off_n_def(2))
    from cache_load_ok [OF nor less.prems(1), of a] obtain s1 c where
      s1: "sector_cache_load ops s a = Some (s1, 0)" "fl_cache s1 = [c]" "sc_address c = sector_base a"
        "sc_state c \<noteq> EMPTY" "cache_inv cell s1" "flash_view cell s1 = flash_view cell s" by blast
    define s2 where "s2 = touch_lru systime s1 0"
    have s2: "cache_inv cell s2" "flash_view cell s2 = flash_view cell s"
      using cache_touch [OF s1(5), of systime] s1(6) by (simp_all add: s2_def)
    have chunk: "take n (drop off (sc_data c)) = map (\<lambda>i. flash_view cell s (unat a + i)) [0..<n]"
      using cache_view_chunk [OF s1(5,2,3,4), of n] n(3) s1(6) by (simp add: off_n_def(1))
    have step: "sector_cache_read ops systime s a len = map_option (\<lambda>(rest, s). (take n (drop off (sc_data c)) @ rest, s))
        (sector_cache_read ops systime s2 (a + word_of_nat n) (len - n))"
      using False s1 by (subst sector_cache_read.simps) (simp add: s2_def off_n_def Let_def)
    show ?thesis
    proof (cases "n = len")
      case True
      with step s2 chunk show ?thesis by (simp add: sector_cache_read.simps)
    next
      case False
      then have u: "unat (a + word_of_nat n) = unat a + n"
        using less.prems(2) n by (simp add: unat_word_ariths unat_of_nat)
      with less.IH [of "len - n" s2 "a + word_of_nat n"] n s2 less.prems(2) obtain s' where
        "sector_cache_read ops systime s2 (a + word_of_nat n) (len - n) =
          Some (map (\<lambda>i. flash_view cell s (unat a + n + i)) [0..<len - n], s')"
        "cache_inv cell s'" "flash_view cell s' = flash_view cell s" by auto
      with step chunk show ?thesis
        using upt_split [OF n(2), of "\<lambda>i. flash_view cell s (unat a + i)"] by (simp add: add.assoc)
    qed
  qed
qed

lemma cache_flush_all_ok:
  assumes "nor_flash ops cell" "cache_inv cell s"
  shows "\<exists>s'. sector_cache_flush_all ops s = Some s' \<and> cache_inv cell s' \<and>
    flash_view cell s' = flash_view cell s \<and> cell (fl_dev s') = flash_view cell s"
proof -
  from assms(2) obtain c where c: "fl_cache s = [c]" by (auto simp: cache_inv_def)
  from cache_flush_ok [OF assms c] obtain d c' where
    f: "sector_cache_flush ops (fl_dev s) c = Some (d, c')" "sc_state c' \<noteq> DIRTY"
      "cache_inv cell (s\<lparr>fl_dev := d, fl_cache := [c']\<rparr>)" "\<And>x. cell d x = flash_view cell s x" by blast
  define s' where "s' = s\<lparr>fl_dev := d, fl_cache := [c']\<rparr>"
  from f(2) have st: "sc_state c' = EMPTY \<or> sc_state c' = VALID" by (cases "sc_state c'") auto
  have "flash_view cell s' x = cell d x" for x
    using f(3) st by (auto simp: s'_def cache_inv_def flash_view_def Let_def dest: spec [of _ "x - unat (sc_address c')"])
  with f have "flash_view cell s' = flash_view cell s" "cell (fl_dev s') = flash_view cell s"
    by (auto simp: s'_def)
  moreover have "sector_cache_flush_all ops s = Some s'"
    by (simp add: sector_cache_flush_all_def c f(1) s'_def)
  ultimately show ?thesis using f(3) by (simp add: s'_def)
qed

interpretation sc: byte_store
  "\<lambda>s. nor_flash ops cell \<and> cache_inv cell s" "flash_view cell" "\<lambda>s. cell (fl_dev s)" storable
  "sector_cache_write ops systime" "sector_cache_read ops systime" "sector_cache_flush_all ops"
  for ops :: "'d spi_ops" and cell :: "'d \<Rightarrow> nat \<Rightarrow> byte" and systime :: "nat \<Rightarrow> u32"
proof
  fix s :: "'d flash_state" and a :: u32 and data :: "byte list" and n :: nat
  assume "nor_flash ops cell \<and> cache_inv cell s"
  then have inv: "nor_flash ops cell" "cache_inv cell s" by simp_all
  show "unat a + length data \<le> 2 ^ 32 \<Longrightarrow> storable (put (flash_view cell s) (unat a) data) (unat a) (length data) \<Longrightarrow>
    \<exists>s'. sector_cache_write ops systime s a data = Some s' \<and> (nor_flash ops cell \<and> cache_inv cell s') \<and>
      flash_view cell s' = put (flash_view cell s) (unat a) data"
    using cache_write_ok [OF inv] inv(1) by simp
  show "unat a + n \<le> 2 ^ 32 \<Longrightarrow>
    \<exists>s'. sector_cache_read ops systime s a n = Some (map (\<lambda>i. flash_view cell s (unat a + i)) [0..<n], s') \<and>
      (nor_flash ops cell \<and> cache_inv cell s') \<and> flash_view cell s' = flash_view cell s"
    using cache_read_ok [OF inv] inv(1) by simp
  show "\<exists>s'. sector_cache_flush_all ops s = Some s' \<and> (nor_flash ops cell \<and> cache_inv cell s') \<and>
      flash_view cell s' = flash_view cell s \<and> cell (fl_dev s') = flash_view cell s"
    using cache_flush_all_ok [OF inv] inv(1) by simp
qed

section \<open>Properties\<close>

lemma cache_init_inv:
  assumes "sector_cache_init alloc boot_arg = (Some cs, n)" "boot_arg \<le> 1"
  shows "n = length cs \<and> cache_inv cell \<lparr>fl_dev = d, fl_cache = cs, fl_ticks = t\<rparr> \<and>
    flash_view cell \<lparr>fl_dev = d, fl_cache = cs, fl_ticks = t\<rparr> = cell d"
proof -
  from assms have "cs = [empty_entry]" "n = 1"
    by (auto simp: sector_cache_init_def Let_def split: if_splits)
  moreover have "flash_view cell \<lparr>fl_dev = d, fl_cache = [empty_entry], fl_ticks = t\<rparr> x = cell d x" for x
    by (simp add: flash_view_def empty_entry_def)
  ultimately show ?thesis by (auto simp: cache_inv_def empty_entry_def)
qed

lemma sector_storable_full:
  assumes "length sector = 4096" "\<And>i. i < 4096 \<Longrightarrow> sector ! i \<noteq> 0xFF"
  shows "sector_storable sector"
  unfolding sector_storable_def page_storable_def
proof (intro allI impI)
  fix k :: nat assume k: "k < 16"
  have "256 * k < 4096 \<and> 256 * k div 256 = k \<and> even (256 * k)" using k by simp
  moreover have "256 * k + 1 < 4096 \<and> (256 * k + 1) div 256 = k \<and> odd (256 * k + 1)" using k by simp
  ultimately show "(\<exists>i<length sector. i div 256 = k \<and> even i \<and> sector ! i \<noteq> 0xFF) \<and>
      (\<exists>i<length sector. i div 256 = k \<and> odd i \<and> sector ! i \<noteq> 0xFF)"
    using assms by metis
qed

text \<open>
  Property C9. \<open>sector_program\<close> leaves exactly the given 4096 bytes in its sector and every other
  cell of the flash as it was, whether or not the sector had to be erased, for every sector in
  which each page that is not blank has data at an even and at an odd offset.
\<close>

theorem sector_program_exact:
  assumes "nor_flash ops cell" "unat a mod 4096 = 0" "length sector = 4096" "sector_storable sector"
  shows "\<exists>d'. sector_program ops d a sector = Some d' \<and>
    (\<forall>x. cell d' x = (if unat a \<le> x \<and> x < unat a + 4096 then sector ! (x - unat a) else cell d x))"
  using assms by (rule sector_program_ok)

theorem sector_program_exact_witness:
  "\<exists>d'. sector_program plain_flash (\<lambda>x. 0) 4096 (replicate 4096 7) = Some d' \<and>
    (\<forall>x. d' x = (if unat (4096 :: u32) \<le> x \<and> x < unat (4096 :: u32) + 4096
       then replicate 4096 7 ! (x - unat (4096 :: u32)) else 0))"
  by (rule sector_program_exact) (simp_all add: sector_storable_full)

text \<open>
  Property C10. The default one-entry cache is a coherent store for data that the flush can see: assume
  that every page of 256 bytes in the sectors written, with the new data in place, that holds a byte other than \<open>0xff\<close>
  holds one at an even and one at an odd offset (\<open>storable\<close>; the invariant asks the same of a dirty entry).  Then a
  write succeeds, a read of the same range returns the written bytes, and after a flush the flash itself
  holds the written bytes and, everywhere else, what a reader saw before.  Without that assumption the claim is false,
  because \<open>check_erased_state\<close> looks at every other byte only.
\<close>

theorem sector_cache_coherent:
  assumes "nor_flash ops cell" "cache_inv cell s" "unat a + length data \<le> 2 ^ 32"
    and "storable (put (flash_view cell s) (unat a) data) (unat a) (length data)"
  shows "\<exists>s1 s2 s3. sector_cache_write ops systime s a data = Some s1 \<and>
    sector_cache_read ops systime s1 a (length data) = Some (data, s2) \<and>
    sector_cache_flush_all ops s1 = Some s3 \<and> cache_inv cell s3 \<and>
    cell (fl_dev s3) = put (flash_view cell s) (unat a) data"
proof -
  from assms have inv: "nor_flash ops cell \<and> cache_inv cell s" by simp
  from sc.write_law [OF this assms(3,4)] obtain s1 where
    s1: "sector_cache_write ops systime s a data = Some s1" "nor_flash ops cell \<and> cache_inv cell s1"
      "flash_view cell s1 = put (flash_view cell s) (unat a) data" by blast
  with sc.read_back [OF inv assms(3,4)] sc.flush_stream [OF s1(2,3)] show ?thesis by fastforce
qed

theorem sector_cache_coherent_witness:
  "\<exists>s1 s2 s3. sector_cache_write plain_flash (\<lambda>_. 0) \<lparr>fl_dev = (\<lambda>_. 0), fl_cache = [empty_entry], fl_ticks = 0\<rparr> 4094 [1, 2, 3, 4] = Some s1 \<and>
    sector_cache_read plain_flash (\<lambda>_. 0) s1 4094 (length [1, 2, 3, 4 :: byte]) = Some ([1, 2, 3, 4], s2) \<and>
    sector_cache_flush_all plain_flash s1 = Some s3 \<and> fl_dev s3 4096 = 3 \<and> fl_dev s3 4100 = 0"
proof -
  let ?s = "\<lparr>fl_dev = (\<lambda>_. 0), fl_cache = [empty_entry], fl_ticks = 0\<rparr> :: (nat \<Rightarrow> byte) flash_state"
  have v: "cache_inv (\<lambda>d. d) ?s" "flash_view (\<lambda>d. d) ?s = (\<lambda>_. 0)"
    using cache_init_inv [of "\<lambda>_. True" 1 "[empty_entry]" 1 "\<lambda>d. d" "\<lambda>_. 0" 0] by (simp_all add: sector_cache_init_def)
  have "put (\<lambda>_. 0) 4094 [1, 2, 3, 4] x \<noteq> (0xFF :: byte)" for x
    by (auto simp: put_def nth_Cons split: nat.split)
  then have "storable (put (flash_view (\<lambda>d. d) ?s) (unat (4094 :: u32)) [1, 2, 3, 4]) (unat (4094 :: u32)) (length [1, 2, 3, 4 :: byte])"
    by (simp add: storable_def sector_storable_full sector_at_def v)
  from sector_cache_coherent [OF nor_flash_plain v(1) _ this, of "\<lambda>_. 0"] show ?thesis
    by (auto simp: v put_def)
qed

text \<open>
  Property C11. The scan that follows an erase looks at every other byte only: when all bytes at even
  offsets are \<open>0xff\<close> it selects no page, so a sector that had to be erased is left blank and its data
  at the odd offsets is lost.
\<close>

theorem sector_program_loses_odd_bytes:
  assumes "nor_flash ops cell" "unat a mod 4096 = 0" "length sector = 4096"
    and "\<And>i. i < 4096 \<Longrightarrow> even i \<Longrightarrow> sector ! i = 0xFF"
    and "j < 4096" "sector ! j AND NOT (cell d (unat a + j)) \<noteq> 0"
  shows "check_erased_state sector = 0 \<and>
    (\<exists>d'. sector_program ops d a sector = Some d' \<and> (\<forall>i < 4096. cell d' (unat a + i) = 0xFF))"
proof -
  have z: "check_erased_state sector = 0"
    using erased_loop_misses [of 0 sector 0] assms(3,4) by (simp add: check_erased_state_def)
  have "\<not> only_clears sector (map (\<lambda>i. cell d (unat a + i)) [0..<4096])"
    using assms(3,5,6) by (auto simp: only_clears_def)
  with sector_program_cell [OF assms(1-3), of d] z show ?thesis by auto
qed

theorem sector_program_loses_odd_bytes_witness:
  "\<exists>d'. sector_program plain_flash (\<lambda>x. 0) 0 ((replicate 4096 0xFF)[1 := 0x5A]) = Some d' \<and>
    (\<forall>i < 4096. d' (unat (0 :: u32) + i) = 0xFF)"
proof -
  have "(replicate 4096 0xFF)[1 := 0x5A] ! i = (0xFF :: byte)" if "i < 4096" "even i" for i :: nat
    using that by (cases "i = 1") auto
  with sector_program_loses_odd_bytes [OF nor_flash_plain, of 0 "(replicate 4096 0xFF)[1 := 0x5A]" 1 "\<lambda>x. 0"]
  show ?thesis by simp
qed

text \<open>
  Property C12. \<open>sector_cache_find\<close> never compares addresses, so a cache of more than one entry is not
  coherent: with two empty entries, a read right after a write within one sector goes to the second
  entry and returns what the flash held before the write.
\<close>

theorem sector_cache_two_entries_stale:
  assumes "nor_flash ops cell" "fl_cache s = [e0, e1]" "sc_state e0 = EMPTY" "sc_state e1 = EMPTY"
    and "data \<noteq> []" "unat a mod 4096 + length data \<le> 4096"
  shows "\<exists>s1 s2. sector_cache_write ops systime s a data = Some s1 \<and>
    sector_cache_read ops systime s1 a (length data) =
      Some (map (\<lambda>i. cell (fl_dev s) (unat a + i)) [0..<length data], s2)"
proof -
  let ?mem = "spi_mem_read ops (fl_dev s) (sector_base a) 4096"
  define off where "off = unat a mod 4096"
  have off: "off + length data \<le> 4096" "min (length data) (4096 - off) = length data"
    using assms(6) by (simp_all add: off_def)
  define w0 where "w0 = e0\<lparr>sc_data := take off ?mem @ data @ drop (off + length data) ?mem,
    sc_address := sector_base a, sc_state := DIRTY, sc_lru := systime (fl_ticks s)\<rparr>"
  define s1 where "s1 = s\<lparr>fl_cache := [w0, e1], fl_ticks := fl_ticks s + 1\<rparr>"
  have "sector_cache_load ops s a = Some (s\<lparr>fl_cache := [e0\<lparr>sc_data := ?mem,
      sc_address := sector_base a, sc_state := VALID\<rparr>, e1]\<rparr>, 0)"
    using assms(2,3) by (simp add: sector_cache_load_def sector_cache_find_def sector_cache_flush_def Let_def)
  then have w: "sector_cache_write ops systime s a data = Some s1"
    using assms(5) off by (subst sector_cache_write.simps)
      (simp add: off_def [symmetric] touch_lru_def s1_def w0_def Let_def)
  define r1 where "r1 = e1\<lparr>sc_data := ?mem, sc_address := sector_base a, sc_state := VALID\<rparr>"
  have "sector_cache_load ops s1 a = Some (s1\<lparr>fl_cache := [w0, r1]\<rparr>, 1)"
    using assms(4) by (simp add: sector_cache_load_def sector_cache_find_def sector_cache_flush_def
      Let_def s1_def w0_def r1_def older_def)
  then have "sector_cache_read ops systime s1 a (length data) =
      Some (take (length data) (drop off ?mem), touch_lru systime (s1\<lparr>fl_cache := [w0, r1]\<rparr>) 1)"
    using assms(5) off by (subst sector_cache_read.simps)
      (simp add: off_def [symmetric] r1_def Let_def)
  moreover have "take (length data) (drop off ?mem) = map (\<lambda>i. cell (fl_dev s) (unat a + i)) [0..<length data]"
  proof -
    have "?mem = map (\<lambda>i. cell (fl_dev s) (unat (sector_base a) + i)) [0..<4096]"
      using nor_flash_read [OF assms(1) aligned_room] by simp
    moreover have "unat a = unat (sector_base a) + off" by (simp add: off_def unat_sector_base)
    ultimately show ?thesis using off(1) by (intro nth_equalityI) (simp_all add: add.assoc)
  qed
  ultimately show ?thesis using w by auto
qed

theorem sector_cache_two_entries_stale_witness:
  "\<exists>s1 s2. sector_cache_write plain_flash (\<lambda>_. 0) \<lparr>fl_dev = (\<lambda>_. 0xFF), fl_cache = [empty_entry, empty_entry], fl_ticks = 0\<rparr> 16 [1] = Some s1 \<and>
    sector_cache_read plain_flash (\<lambda>_. 0) s1 16 (length [1 :: byte]) = Some ([0xFF], s2)"
  using sector_cache_two_entries_stale [OF nor_flash_plain,
      of "\<lparr>fl_dev = (\<lambda>_. 0xFF), fl_cache = [empty_entry, empty_entry], fl_ticks = 0\<rparr>" empty_entry empty_entry "[1]" 16 "\<lambda>_. 0"]
  by (simp add: empty_entry_def)

lemma sectors_disjoint:
  assumes "a mod 4096 = (0 :: nat)" "b mod 4096 = 0" "a \<noteq> b" "b \<le> x" "x < b + 4096"
  shows "\<not> (a \<le> x \<and> x < a + 4096)"
proof -
  define q r where "q = a div 4096" "r = b div 4096"
  have q: "a = 4096 * q" "b = 4096 * r"
    using assms(1,2) mult_div_mod_eq [of 4096 a] mult_div_mod_eq [of 4096 b] by (simp_all add: q_r_def)
  have "x div 4096 = r" using assms(4,5) q by (intro div_nat_eqI) simp_all
  moreover have "x div 4096 = q" if "a \<le> x \<and> x < a + 4096" using that q by (intro div_nat_eqI) simp_all
  ultimately show ?thesis using assms(3) q by auto
qed

text \<open>
  Property C13. Start-up and erase keep the store coherent: initialisation with the default boot
  argument gives a cache of the size it records through which the flash is seen unchanged, and erasing a sector makes a
  reader see \<open>0xff\<close> in that sector, cached or not, and no other change.
\<close>

theorem sector_cache_erase_coherent:
  assumes "nor_flash ops cell" "cache_inv cell s" "unat a mod 4096 = 0"
  shows "cache_inv cell (sector_cache_erase_sector ops s a) \<and>
    (\<forall>x. flash_view cell (sector_cache_erase_sector ops s a) x =
      (if unat a \<le> x \<and> x < unat a + 4096 then 0xFF else flash_view cell s x)) \<and>
    (\<forall>alloc d cs n. sector_cache_init alloc 1 = (Some cs, n) \<longrightarrow>
       n = length cs \<and> cache_inv cell \<lparr>fl_dev = d, fl_cache = cs, fl_ticks = 0\<rparr> \<and>
       flash_view cell \<lparr>fl_dev = d, fl_cache = cs, fl_ticks = 0\<rparr> = cell d)"
proof -
  from assms(2) obtain c where c: "fl_cache s = [c]" "unat (sc_address c) mod 4096 = 0"
    "sc_state c = VALID \<Longrightarrow> \<forall>i < 4096. sc_data c ! i = cell (fl_dev s) (unat (sc_address c) + i)"
    by (auto simp: cache_inv_def)
  note er = nor_flash_erase [OF assms(1,3), of "fl_dev s"]
  have inv: "cache_inv cell (sector_cache_erase_sector ops s a)"
  proof (cases "sc_address c = a")
    case False
    have "unat (sc_address c) \<noteq> unat a" using False by (metis unsigned_word_eqI)
    then have "\<not> (unat a \<le> unat (sc_address c) + i \<and> unat (sc_address c) + i < unat a + 4096)" if "i < 4096" for i
      using that c(2) assms(3) sectors_disjoint [of "unat a" "unat (sc_address c)" "unat (sc_address c) + i"] by simp
    with False assms(2) c er show ?thesis
      by (auto simp: sector_cache_erase_sector_def cache_inv_def)
  next
    case True
    with assms(2) c show ?thesis
      by (cases "sc_state c") (auto simp: sector_cache_erase_sector_def cache_inv_def)
  qed
  have "flash_view cell (sector_cache_erase_sector ops s a) x =
      (if unat a \<le> x \<and> x < unat a + 4096 then 0xFF else flash_view cell s x)" for x
  proof (cases "sc_address c = a")
    case True
    with c(1) er [of x] show ?thesis
      by (cases "sc_state c") (auto simp: flash_view_def sector_cache_erase_sector_def)
  next
    case False
    have "unat (sc_address c) \<noteq> unat a" using False by (metis unsigned_word_eqI)
    then have "\<not> (unat a \<le> x \<and> x < unat a + 4096 \<and> unat (sc_address c) \<le> x \<and> x < unat (sc_address c) + 4096)"
      using c(2) assms(3) sectors_disjoint [of "unat a" "unat (sc_address c)" x] by auto
    with False c(1) er [of x] show ?thesis
      by (auto simp: flash_view_def sector_cache_erase_sector_def Let_def)
  qed
  with inv cache_init_inv show ?thesis by (metis order_refl)
qed

theorem sector_cache_erase_coherent_witness:
  "flash_view (\<lambda>d. d) (sector_cache_erase_sector plain_flash \<lparr>fl_dev = (\<lambda>_. 0), fl_cache = [empty_entry], fl_ticks = 0\<rparr> 8192) 8200 = 0xFF"
proof -
  have "cache_inv (\<lambda>d. d) (\<lparr>fl_dev = (\<lambda>_. 0), fl_cache = [empty_entry], fl_ticks = 0\<rparr> :: (nat \<Rightarrow> byte) flash_state)"
    using cache_init_inv [of "\<lambda>_. True" 1 "[empty_entry]" 1 "\<lambda>d. d" "\<lambda>_. 0" 0] by (simp add: sector_cache_init_def)
  from sector_cache_erase_coherent [OF nor_flash_plain this, of 8192] show ?thesis by simp
qed

end
