(* ===== verification/Ssbl_Sanity.thy ===== *)
theory Ssbl_Sanity
  imports Fs_Utils
begin

text \<open>
  The self-repair of the second stage boot loader, \<open>apps/ssbl/src/ssbl.c\<close>: every control file
  (\<open>fota_config.json\<close>, \<open>part.json\<close>, \<open>boot.json\<close>) has a checksum file and a backup pair, and a boot that
  finds the dirty mark checks each pair, repairs the broken copy from the intact one and resets when
  a master copy had to be replaced.

  \<open>os_park_thread(os_self())\<close> and \<open>reset_device()\<close> do not return: they end a run with the
  value \<open>Parked\<close> or \<open>Reset\<close>.  The stack variables the integrity check may read before they are
  written are the argument \<open>g\<close>, by file.
\<close>

section \<open>The checks\<close>

datatype ssbl_stop = Parked | Reset | Undefined

datatype ssb_sanity = SSB_SANITY_ERROR_NONE | SSB_SANITY_ERROR_MASTER_COPY | SSB_SANITY_ERROR_BACKUP_COPY

type_synonym garbage = "string \<Rightarrow> u32 \<times> string"

text \<open>The return value and the string left in \<open>chksum_out\<close>.\<close>

definition ssbl_file_integrity_ckeck :: "env \<Rightarrow> garbage \<Rightarrow> fs \<Rightarrow> string \<Rightarrow> string \<Rightarrow> (int \<times> string) option" where
  "ssbl_file_integrity_ckeck e g m file_path chksum_file_path =
     (case fletcher32_file_checksum_get e m file_path of
        None \<Rightarrow> None
      | Some (rc, out) \<Rightarrow>
          let f_chksum = (case out of None \<Rightarrow> fst (g file_path) | Some c \<Rightarrow> c);
              chksum_str = sprintf_08x f_chksum
          in case fopen_r e m chksum_file_path of
               None \<Rightarrow> Some (- 1, [])
             | Some content \<Rightarrow>
                 let r = fread e chksum_file_path content 8;
                     buff = take 8 (r @ drop (length r) (snd (g file_path)))
                 in Some (if cstr buff = chksum_str then 1 else 0, chksum_str))"

definition ssbl_file_restore :: "env \<Rightarrow> fs \<Rightarrow> string \<Rightarrow> string \<Rightarrow> string \<Rightarrow> string \<Rightarrow> fs" where
  "ssbl_file_restore e m file_path chksum_file_path bckup_file_path bckup_chksum_file_path =
     (let m = snd (utils_file_clone e m file_path bckup_file_path)
      in snd (utils_file_clone e m chksum_file_path bckup_chksum_file_path))"

definition ssbl_file_sanity_check ::
    "env \<Rightarrow> garbage \<Rightarrow> fs \<Rightarrow> string \<Rightarrow> string \<Rightarrow> string \<Rightarrow> string \<Rightarrow> (ssbl_stop + ssb_sanity) \<times> fs" where
  "ssbl_file_sanity_check e g m file_path chksum_file_path bckup_file_path bckup_chksum_file_path =
     (case (ssbl_file_integrity_ckeck e g m file_path chksum_file_path,
            ssbl_file_integrity_ckeck e g m bckup_file_path bckup_chksum_file_path) of
        (Some (rval, chksum), Some (rval_bkp, chksum_bkp)) \<Rightarrow>
          let take_backup = (rval \<noteq> 0 \<and> rval_bkp \<noteq> 0 \<and> chksum \<noteq> chksum_bkp) in
          if rval = 0 \<and> rval_bkp = 0 then (Inl Parked, m)
          else if rval = 0 then
            (let m = snd (utils_file_clone e m file_path bckup_file_path);
                 m = snd (utils_file_clone e m chksum_file_path bckup_chksum_file_path)
             in (Inr SSB_SANITY_ERROR_MASTER_COPY, m))
          else if rval_bkp = 0 \<or> take_backup then
            (let m = snd (utils_file_clone e m bckup_file_path file_path);
                 m = snd (utils_file_clone e m bckup_chksum_file_path chksum_file_path)
             in (Inr (if take_backup then SSB_SANITY_ERROR_NONE else SSB_SANITY_ERROR_BACKUP_COPY), m))
          else (Inr SSB_SANITY_ERROR_NONE, m)
      | _ \<Rightarrow> (Inl Undefined, m))"

definition ssbl_fota_cfg_file_restore :: "env \<Rightarrow> fs \<Rightarrow> fs" where
  "ssbl_fota_cfg_file_restore e m =
     ssbl_file_restore e m FOTA_CFG_FILE_PATH FOTA_CFG_CHKSUM_FILE_PATH
       FOTA_CFG_BACKUP_FILE_PATH FOTA_CFG_BACKUP_CHKSUM_FILE_PATH"

definition ssbl_part_file_restore :: "env \<Rightarrow> fs \<Rightarrow> fs" where
  "ssbl_part_file_restore e m =
     ssbl_file_restore e m PART_FILE_PATH PART_CHKSUM_FILE_PATH
       PART_BACKUP_FILE_PATH PART_BACKUP_CHKSUM_FILE_PATH"

text \<open>
  \<open>ssbl_sanity_check\<close>.  The second presence test of the source names the dirty file again, not
  the one that marks an update in progress.
\<close>

definition ssbl_sanity_check :: "env \<Rightarrow> garbage \<Rightarrow> fs \<Rightarrow> (ssbl_stop + unit) \<times> fs" where
  "ssbl_sanity_check e g m =
     (if \<not> utils_is_file_present e m DIRTY_BIT_FILE_PATH then (Inr (), m)
      else
        let fota_in_progress = utils_is_file_present e m DIRTY_BIT_FILE_PATH in
        case ssbl_file_sanity_check e g m FOTA_CFG_FILE_PATH FOTA_CFG_CHKSUM_FILE_PATH
               FOTA_CFG_BACKUP_FILE_PATH FOTA_CFG_BACKUP_CHKSUM_FILE_PATH of
          (Inl stop, m) \<Rightarrow> (Inl stop, m)
        | (Inr rval, m) \<Rightarrow>
            if fota_in_progress \<and> rval = SSB_SANITY_ERROR_MASTER_COPY
            then (Inl Reset, unlink m FOTA_IN_PROGRESS_FILE_PATH)
            else
              case ssbl_file_sanity_check e g m PART_FILE_PATH PART_CHKSUM_FILE_PATH
                     PART_BACKUP_FILE_PATH PART_BACKUP_CHKSUM_FILE_PATH of
                (Inl stop, m) \<Rightarrow> (Inl stop, m)
              | (Inr rval, m) \<Rightarrow>
                  if fota_in_progress \<and> rval = SSB_SANITY_ERROR_MASTER_COPY
                  then (let m = ssbl_fota_cfg_file_restore e m
                        in (Inl Reset, unlink m FOTA_IN_PROGRESS_FILE_PATH))
                  else
                    case ssbl_file_sanity_check e g m BOOT_FILE_PATH BOOT_CHKSUM_FILE_PATH
                           BOOT_BACKUP_FILE_PATH BOOT_BACKUP_CHKSUM_FILE_PATH of
                      (Inl stop, m) \<Rightarrow> (Inl stop, m)
                    | (Inr rval, m) \<Rightarrow>
                        if fota_in_progress \<and> rval = SSB_SANITY_ERROR_MASTER_COPY
                        then (let m = ssbl_fota_cfg_file_restore e m;
                                  m = ssbl_part_file_restore e m
                              in (Inl Reset, unlink m FOTA_IN_PROGRESS_FILE_PATH))
                        else (Inr (), unlink (unlink m DIRTY_BIT_FILE_PATH) FOTA_IN_PROGRESS_FILE_PATH))"

text \<open>Consecutive boots: a reset starts the loader again, at most \<open>n\<close> times.\<close>

fun ssbl_boots :: "env \<Rightarrow> (nat \<Rightarrow> garbage) \<Rightarrow> nat \<Rightarrow> fs \<Rightarrow> (ssbl_stop + unit) \<times> fs" where
  "ssbl_boots e g 0 m = ssbl_sanity_check e (g 0) m"
| "ssbl_boots e g (Suc n) m =
     (case ssbl_sanity_check e (g (Suc n)) m of
        (Inl Reset, m) \<Rightarrow> ssbl_boots e g n m
      | r \<Rightarrow> r)"

section \<open>The integrity check\<close>

lemma code_hex_char: "n < 16 \<Longrightarrow> code (hex_char n) = (if n < 10 then 48 + n else 87 + n)"
  by (simp add: hex_char_def)

lemma hex_char_inj: "m < 16 \<Longrightarrow> n < 16 \<Longrightarrow> hex_char m = hex_char n \<Longrightarrow> m = n"
proof -
  assume mn: "m < 16" "n < 16" and "hex_char m = hex_char n"
  then have "code (hex_char m) = code (hex_char n)" by (simp only:)
  then show "m = n"
    unfolding code_hex_char [OF mn(1)] code_hex_char [OF mn(2)] by (auto split: if_splits)
qed

lemma hex_char_not_NUL: "n < 16 \<Longrightarrow> NUL \<noteq> hex_char n"
proof
  assume n: "n < 16" and "NUL = hex_char n"
  then have "code (hex_char n) = code NUL" by (simp only:)
  then show False unfolding code_hex_char [OF n] by (simp split: if_splits)
qed

lemma nibble_less: "unat (drop_bit k w AND 15 :: u32) < 16"
proof -
  have "drop_bit k w AND 15 \<le> (15 :: u32)" by (simp add: word_and_le1)
  then show ?thesis by (simp add: word_le_nat_alt)
qed

lemma sprintf_08x_NUL: "NUL \<notin> set (sprintf_08x w)"
  using hex_char_not_NUL nibble_less by (auto simp: sprintf_08x_def)

lemma sprintf_08x_inj: "sprintf_08x v = sprintf_08x w \<longleftrightarrow> v = w"
proof
  assume eq: "sprintf_08x v = sprintf_08x w"
  have nib: "drop_bit (4 * (7 - i)) v AND 15 = drop_bit (4 * (7 - i)) w AND 15" if "i < 8" for i
  proof -
    have "sprintf_08x v ! i = sprintf_08x w ! i" using eq by simp
    then have "unat (drop_bit (4 * (7 - i)) v AND 15) = unat (drop_bit (4 * (7 - i)) w AND 15)"
      using that nibble_less by (auto simp: sprintf_08x_def intro: hex_char_inj)
    then show ?thesis by (rule unsigned_word_eqI)
  qed
  show "v = w"
  proof (rule bit_word_eqI)
    fix n assume n: "n < LENGTH(32)"
    have m: "bit (15 :: u32) (n mod 4)"
      using bit_mask_iff [where 'a = "32 word", of 4 "n mod 4"] by (simp add: mask_eq_exp_minus_1)
    have "4 * (7 - (7 - n div 4)) + n mod 4 = n" using n by simp
    moreover have "bit (drop_bit (4 * (7 - (7 - n div 4))) v AND 15) (n mod 4) =
        bit (drop_bit (4 * (7 - (7 - n div 4))) w AND 15) (n mod 4)"
      using nib [of "7 - n div 4"] by simp
    ultimately show "bit v n = bit w n"
      using m by (simp only: bit_and_iff bit_drop_bit_eq comp_apply simp_thms)
  qed
qed simp

lemma cstr_eq_full: "length b \<le> length t \<Longrightarrow> NUL \<notin> set t \<Longrightarrow> cstr b = t \<longleftrightarrow> b = t"
proof
  assume le: "length b \<le> length t" and "cstr b = t"
  then have "length (takeWhile (\<lambda>c. c \<noteq> NUL) b) = length b"
    using length_takeWhile_le [of "\<lambda>c. c \<noteq> NUL" b] by (simp add: cstr_def)
  then have "takeWhile (\<lambda>c. c \<noteq> NUL) b = b" by (metis takeWhile_eq_take take_all_iff order_refl)
  with \<open>cstr b = t\<close> show "b = t" by (simp add: cstr_def)
qed (simp add: cstr_id)

text \<open>A file with a checksum file of at least eight characters: nothing uninitialised is read.\<close>

definition checkable :: "fs \<Rightarrow> string \<Rightarrow> string \<Rightarrow> bool" where
  "checkable m f c \<longleftrightarrow> (\<exists>s t. m f = Some s \<and> m c = Some t \<and> small_file s \<and> 8 \<le> length t)"

definition sum_of :: "fs \<Rightarrow> string \<Rightarrow> u32" where
  "sum_of m f = file_sum (the (m f))"

lemma integrity_check_ok:
  assumes "reads_ok e" "checkable m f c"
  shows "ssbl_file_integrity_ckeck e g m f c =
    Some (if file_intact m f c then 1 else 0, sprintf_08x (sum_of m f))"
proof -
  from assms(2) obtain s t where st: "m f = Some s" "m c = Some t" "small_file s" "8 \<le> length t"
    by (auto simp: checkable_def)
  then have "cstr (take 8 t) = sprintf_08x (file_sum s) \<longleftrightarrow> take 8 t = sprintf_08x (file_sum s)"
    by (intro cstr_eq_full) (simp_all add: sprintf_08x_NUL)
  with st assms(1) show ?thesis
    by (simp add: ssbl_file_integrity_ckeck_def file_checksum_ok file_intact_def sum_of_def)
qed

lemma file_intact_checkable: "file_intact m f c \<Longrightarrow> checkable m f c"
  unfolding file_intact_def checkable_def by (metis length_sprintf_08x length_take min.cobounded1)

section \<open>One control file\<close>

definition checkable_pair :: "fs \<Rightarrow> string \<Rightarrow> string \<Rightarrow> string \<Rightarrow> string \<Rightarrow> bool" where
  "checkable_pair m f c bf bc \<longleftrightarrow> checkable m f c \<and> checkable m bf bc"

text \<open>A control file the loader can repair, and one whose two copies agree.\<close>

definition recoverable :: "fs \<Rightarrow> string \<Rightarrow> string \<Rightarrow> string \<Rightarrow> string \<Rightarrow> bool" where
  "recoverable m f c bf bc \<longleftrightarrow> checkable_pair m f c bf bc \<and> (file_intact m f c \<or> file_intact m bf bc)"

definition in_sync :: "fs \<Rightarrow> string \<Rightarrow> string \<Rightarrow> string \<Rightarrow> string \<Rightarrow> bool" where
  "in_sync m f c bf bc \<longleftrightarrow> file_intact m f c \<and> file_intact m bf bc \<and> sum_of m f = sum_of m bf"

definition restored :: "fs \<Rightarrow> string \<Rightarrow> string \<Rightarrow> string \<Rightarrow> string \<Rightarrow> fs" where
  "restored m f c bf bc = m(f := m bf, c := m bc)"

text \<open>
  What the loader relies on for a control file: four different paths, none of them a mark file.
\<close>

locale control_file =
  fixes f c bf bc :: string
  assumes paths: "distinct [f, c, bf, bc, DIRTY_BIT_FILE_PATH, FOTA_IN_PROGRESS_FILE_PATH]"
begin

lemma path_neqs [simp]:
  "f \<noteq> c" "f \<noteq> bf" "f \<noteq> bc" "c \<noteq> f" "c \<noteq> bf" "c \<noteq> bc"
  "bf \<noteq> f" "bf \<noteq> c" "bf \<noteq> bc" "bc \<noteq> f" "bc \<noteq> c" "bc \<noteq> bf"
  using paths by auto

lemma in_sync_recoverable: "in_sync m f c bf bc \<Longrightarrow> recoverable m f c bf bc"
  by (simp add: in_sync_def recoverable_def checkable_pair_def file_intact_checkable)

lemma clone_restored:
  assumes "io_ok e" "checkable m bf bc"
  shows "snd (utils_file_clone e (snd (utils_file_clone e m f bf)) c bc) = restored m f c bf bc"
  using assms by (auto simp: checkable_def restored_def)

lemma clone_backed_up:
  assumes "io_ok e" "checkable m f c"
  shows "snd (utils_file_clone e (snd (utils_file_clone e m bf f)) bc c) = restored m bf bc f c"
  using assms by (auto simp: checkable_def restored_def)

lemma restored_in_sync: "file_intact m bf bc \<Longrightarrow> in_sync (restored m f c bf bc) f c bf bc"
  by (auto simp: in_sync_def restored_def file_intact_def sum_of_def)

lemma backed_up_in_sync: "file_intact m f c \<Longrightarrow> in_sync (restored m bf bc f c) f c bf bc"
  by (auto simp: in_sync_def restored_def file_intact_def sum_of_def)

text \<open>The result of one check, by what was intact before.\<close>

lemma check_cases:
  assumes "reads_ok e" "checkable_pair m f c bf bc"
  shows "ssbl_file_sanity_check e g m f c bf bc =
    (if \<not> file_intact m f c \<and> \<not> file_intact m bf bc then (Inl Parked, m)
     else if \<not> file_intact m f c
     then (Inr SSB_SANITY_ERROR_MASTER_COPY, snd (utils_file_clone e (snd (utils_file_clone e m f bf)) c bc))
     else if \<not> file_intact m bf bc \<or> sum_of m f \<noteq> sum_of m bf
     then (Inr (if file_intact m bf bc then SSB_SANITY_ERROR_NONE else SSB_SANITY_ERROR_BACKUP_COPY),
           snd (utils_file_clone e (snd (utils_file_clone e m bf f)) bc c))
     else (Inr SSB_SANITY_ERROR_NONE, m))"
  using assms by (auto simp: ssbl_file_sanity_check_def integrity_check_ok checkable_pair_def sprintf_08x_inj Let_def)

lemma check_repairs:
  assumes "io_ok e" "checkable_pair m f c bf bc"
  shows "ssbl_file_sanity_check e g m f c bf bc =
    (if \<not> file_intact m f c \<and> \<not> file_intact m bf bc then (Inl Parked, m)
     else if \<not> file_intact m f c then (Inr SSB_SANITY_ERROR_MASTER_COPY, restored m f c bf bc)
     else if \<not> file_intact m bf bc \<or> sum_of m f \<noteq> sum_of m bf
     then (Inr (if file_intact m bf bc then SSB_SANITY_ERROR_NONE else SSB_SANITY_ERROR_BACKUP_COPY), restored m bf bc f c)
     else (Inr SSB_SANITY_ERROR_NONE, m))"
  using assms by (simp add: check_cases clone_restored clone_backed_up checkable_pair_def)

text \<open>Whatever write fails, the copy that was intact survives.\<close>

lemma check_keeps_intact_copy:
  assumes "reads_ok e" "recoverable m f c bf bc" "ssbl_file_sanity_check e g m f c bf bc = (r, m')"
  shows "file_intact m' f c \<or> file_intact m' bf bc"
proof -
  have keep_b: "file_intact (snd (utils_file_clone e (snd (utils_file_clone e m f bf)) c bc)) bf bc = file_intact m bf bc"
    by (rule file_intact_cong) (simp_all add: utils_file_clone_frame)
  have keep_m: "file_intact (snd (utils_file_clone e (snd (utils_file_clone e m bf f)) bc c)) f c = file_intact m f c"
    by (rule file_intact_cong) (simp_all add: utils_file_clone_frame)
  from assms check_cases [OF assms(1), of m g] keep_b keep_m show ?thesis
    by (auto simp: recoverable_def split: if_splits)
qed

text \<open>The same for callers: what is known after a check and after a restore.\<close>

lemma check_step:
  assumes "io_ok e" "recoverable m f c bf bc"
  shows "\<exists>r m'. ssbl_file_sanity_check e g m f c bf bc = (Inr r, m') \<and> in_sync m' f c bf bc \<and>
    (r = SSB_SANITY_ERROR_MASTER_COPY \<longleftrightarrow> \<not> file_intact m f c) \<and>
    m' f = (if file_intact m f c then m f else m bf) \<and> (\<forall>q. q \<notin> {f, c, bf, bc} \<longrightarrow> m' q = m q)"
proof -
  have rec: "checkable_pair m f c bf bc" "file_intact m f c \<or> file_intact m bf bc"
    using assms(2) by (simp_all add: recoverable_def)
  have frame: "f' \<noteq> q \<Longrightarrow> c' \<noteq> q \<Longrightarrow> restored m f' c' bf' bc' q = m q" for f' c' bf' bc' q
    by (simp add: restored_def)
  show ?thesis
    using check_repairs [OF assms(1) rec(1), of g] rec(2) restored_in_sync [of m] backed_up_in_sync [of m]
    by (cases "file_intact m f c"; cases "file_intact m bf bc"; cases "sum_of m f = sum_of m bf")
      (simp_all add: frame, simp_all add: in_sync_def restored_def)
qed

lemma restore_step:
  assumes "io_ok e" "in_sync m f c bf bc"
  shows "in_sync (ssbl_file_restore e m f c bf bc) f c bf bc \<and>
    ssbl_file_restore e m f c bf bc f = m bf \<and>
    (\<forall>q. q \<notin> {f, c, bf, bc} \<longrightarrow> ssbl_file_restore e m f c bf bc q = m q)"
proof -
  have "ssbl_file_restore e m f c bf bc = restored m f c bf bc"
    using assms clone_restored [of e m] by (simp add: ssbl_file_restore_def in_sync_def file_intact_checkable Let_def)
  with assms(2) restored_in_sync [of m] show ?thesis by (simp add: in_sync_def restored_def)
qed

end

interpretation cfg: control_file FOTA_CFG_FILE_PATH FOTA_CFG_CHKSUM_FILE_PATH
    FOTA_CFG_BACKUP_FILE_PATH FOTA_CFG_BACKUP_CHKSUM_FILE_PATH
  by unfold_locales (simp add: path_defs)

interpretation part: control_file PART_FILE_PATH PART_CHKSUM_FILE_PATH
    PART_BACKUP_FILE_PATH PART_BACKUP_CHKSUM_FILE_PATH
  by unfold_locales (simp add: path_defs)

interpretation boot: control_file BOOT_FILE_PATH BOOT_CHKSUM_FILE_PATH
    BOOT_BACKUP_FILE_PATH BOOT_BACKUP_CHKSUM_FILE_PATH
  by unfold_locales (simp add: path_defs)

section \<open>All control files\<close>

definition cfg_paths :: "string set" where
  "cfg_paths = {FOTA_CFG_FILE_PATH, FOTA_CFG_CHKSUM_FILE_PATH, FOTA_CFG_BACKUP_FILE_PATH, FOTA_CFG_BACKUP_CHKSUM_FILE_PATH}"

definition part_paths :: "string set" where
  "part_paths = {PART_FILE_PATH, PART_CHKSUM_FILE_PATH, PART_BACKUP_FILE_PATH, PART_BACKUP_CHKSUM_FILE_PATH}"

definition boot_paths :: "string set" where
  "boot_paths = {BOOT_FILE_PATH, BOOT_CHKSUM_FILE_PATH, BOOT_BACKUP_FILE_PATH, BOOT_BACKUP_CHKSUM_FILE_PATH}"

definition mark_paths :: "string set" where
  "mark_paths = {DIRTY_BIT_FILE_PATH, FOTA_IN_PROGRESS_FILE_PATH}"

lemmas group_defs = cfg_paths_def part_paths_def boot_paths_def mark_paths_def

lemma groups_disjoint:
  "cfg_paths \<inter> part_paths = {}" "cfg_paths \<inter> boot_paths = {}" "cfg_paths \<inter> mark_paths = {}"
  "part_paths \<inter> boot_paths = {}" "part_paths \<inter> mark_paths = {}" "boot_paths \<inter> mark_paths = {}"
  by (simp_all add: group_defs path_defs)

abbreviation cfg_rec :: "fs \<Rightarrow> bool" where
  "cfg_rec m \<equiv> recoverable m FOTA_CFG_FILE_PATH FOTA_CFG_CHKSUM_FILE_PATH FOTA_CFG_BACKUP_FILE_PATH FOTA_CFG_BACKUP_CHKSUM_FILE_PATH"

abbreviation part_rec :: "fs \<Rightarrow> bool" where
  "part_rec m \<equiv> recoverable m PART_FILE_PATH PART_CHKSUM_FILE_PATH PART_BACKUP_FILE_PATH PART_BACKUP_CHKSUM_FILE_PATH"

abbreviation boot_rec :: "fs \<Rightarrow> bool" where
  "boot_rec m \<equiv> recoverable m BOOT_FILE_PATH BOOT_CHKSUM_FILE_PATH BOOT_BACKUP_FILE_PATH BOOT_BACKUP_CHKSUM_FILE_PATH"

abbreviation cfg_sync :: "fs \<Rightarrow> bool" where
  "cfg_sync m \<equiv> in_sync m FOTA_CFG_FILE_PATH FOTA_CFG_CHKSUM_FILE_PATH FOTA_CFG_BACKUP_FILE_PATH FOTA_CFG_BACKUP_CHKSUM_FILE_PATH"

abbreviation part_sync :: "fs \<Rightarrow> bool" where
  "part_sync m \<equiv> in_sync m PART_FILE_PATH PART_CHKSUM_FILE_PATH PART_BACKUP_FILE_PATH PART_BACKUP_CHKSUM_FILE_PATH"

abbreviation boot_sync :: "fs \<Rightarrow> bool" where
  "boot_sync m \<equiv> in_sync m BOOT_FILE_PATH BOOT_CHKSUM_FILE_PATH BOOT_BACKUP_FILE_PATH BOOT_BACKUP_CHKSUM_FILE_PATH"

abbreviation cfg_good :: "fs \<Rightarrow> bool" where
  "cfg_good m \<equiv> file_intact m FOTA_CFG_FILE_PATH FOTA_CFG_CHKSUM_FILE_PATH"

abbreviation part_good :: "fs \<Rightarrow> bool" where
  "part_good m \<equiv> file_intact m PART_FILE_PATH PART_CHKSUM_FILE_PATH"

abbreviation boot_good :: "fs \<Rightarrow> bool" where
  "boot_good m \<equiv> file_intact m BOOT_FILE_PATH BOOT_CHKSUM_FILE_PATH"

definition agree :: "string set \<Rightarrow> fs \<Rightarrow> fs \<Rightarrow> bool" where
  "agree P m m' \<longleftrightarrow> (\<forall>q \<in> P. m' q = m q)"

lemma agree_cfg: "agree cfg_paths m m' \<Longrightarrow> cfg_rec m' = cfg_rec m \<and> cfg_sync m' = cfg_sync m \<and> cfg_good m' = cfg_good m"
  by (simp add: agree_def cfg_paths_def recoverable_def in_sync_def checkable_pair_def checkable_def file_intact_def sum_of_def)

lemma agree_part: "agree part_paths m m' \<Longrightarrow> part_rec m' = part_rec m \<and> part_sync m' = part_sync m \<and> part_good m' = part_good m"
  by (simp add: agree_def part_paths_def recoverable_def in_sync_def checkable_pair_def checkable_def file_intact_def sum_of_def)

lemma agree_boot: "agree boot_paths m m' \<Longrightarrow> boot_rec m' = boot_rec m \<and> boot_sync m' = boot_sync m \<and> boot_good m' = boot_good m"
  by (simp add: agree_def boot_paths_def recoverable_def in_sync_def checkable_pair_def checkable_def file_intact_def sum_of_def)

lemma agree_frame: "(\<And>q. q \<notin> P \<Longrightarrow> m' q = m q) \<Longrightarrow> P \<inter> Q = {} \<Longrightarrow> agree Q m m'"
  by (auto simp: agree_def)

lemma agree_trans: "agree P m m' \<Longrightarrow> agree P m' m'' \<Longrightarrow> agree P m m''"
  by (simp add: agree_def)

lemma agree_unlink: "agree cfg_paths m (unlink m FOTA_IN_PROGRESS_FILE_PATH)"
  "agree part_paths m (unlink m FOTA_IN_PROGRESS_FILE_PATH)" "agree boot_paths m (unlink m FOTA_IN_PROGRESS_FILE_PATH)"
  "unlink m FOTA_IN_PROGRESS_FILE_PATH DIRTY_BIT_FILE_PATH = m DIRTY_BIT_FILE_PATH"
  "agree cfg_paths m (unlink m DIRTY_BIT_FILE_PATH)" "agree part_paths m (unlink m DIRTY_BIT_FILE_PATH)"
  "agree boot_paths m (unlink m DIRTY_BIT_FILE_PATH)"
  by (simp_all add: agree_def unlink_def group_defs path_defs)

lemma in_sync_good: "in_sync m f c bf bc \<Longrightarrow> file_intact m f c \<and> recoverable m f c bf bc"
  by (simp add: in_sync_def recoverable_def checkable_pair_def file_intact_checkable)

text \<open>The three checks with the frame of each, ready to be chained.\<close>

lemma cfg_check:
  assumes "io_ok e" "cfg_rec m"
  obtains r m' where "ssbl_file_sanity_check e g m FOTA_CFG_FILE_PATH FOTA_CFG_CHKSUM_FILE_PATH
      FOTA_CFG_BACKUP_FILE_PATH FOTA_CFG_BACKUP_CHKSUM_FILE_PATH = (Inr r, m')"
    "cfg_sync m'" "r = SSB_SANITY_ERROR_MASTER_COPY \<longleftrightarrow> \<not> cfg_good m"
    "agree part_paths m m'" "agree boot_paths m m'" "agree mark_paths m m'"
    "m' FOTA_CFG_FILE_PATH = (if cfg_good m then m FOTA_CFG_FILE_PATH else m FOTA_CFG_BACKUP_FILE_PATH)"
  using cfg.check_step [OF assms, of g, folded cfg_paths_def] groups_disjoint agree_frame [of cfg_paths] by metis

lemma part_check:
  assumes "io_ok e" "part_rec m"
  obtains r m' where "ssbl_file_sanity_check e g m PART_FILE_PATH PART_CHKSUM_FILE_PATH
      PART_BACKUP_FILE_PATH PART_BACKUP_CHKSUM_FILE_PATH = (Inr r, m')"
    "part_sync m'" "r = SSB_SANITY_ERROR_MASTER_COPY \<longleftrightarrow> \<not> part_good m"
    "agree cfg_paths m m'" "agree boot_paths m m'" "agree mark_paths m m'"
  using part.check_step [OF assms, of g, folded part_paths_def] groups_disjoint agree_frame [of part_paths]
  by (metis Int_commute)

lemma boot_check:
  assumes "io_ok e" "boot_rec m"
  obtains r m' where "ssbl_file_sanity_check e g m BOOT_FILE_PATH BOOT_CHKSUM_FILE_PATH
      BOOT_BACKUP_FILE_PATH BOOT_BACKUP_CHKSUM_FILE_PATH = (Inr r, m')"
    "boot_sync m'" "r = SSB_SANITY_ERROR_MASTER_COPY \<longleftrightarrow> \<not> boot_good m"
    "agree cfg_paths m m'" "agree part_paths m m'" "agree mark_paths m m'"
  using boot.check_step [OF assms, of g, folded boot_paths_def] groups_disjoint agree_frame [of boot_paths]
  by (metis Int_commute)

lemma cfg_restore:
  assumes "io_ok e" "cfg_sync m"
  shows "cfg_sync (ssbl_fota_cfg_file_restore e m) \<and> agree part_paths m (ssbl_fota_cfg_file_restore e m) \<and>
    agree boot_paths m (ssbl_fota_cfg_file_restore e m) \<and> agree mark_paths m (ssbl_fota_cfg_file_restore e m) \<and>
    ssbl_fota_cfg_file_restore e m FOTA_CFG_FILE_PATH = m FOTA_CFG_BACKUP_FILE_PATH"
  using cfg.restore_step [OF assms, folded cfg_paths_def ssbl_fota_cfg_file_restore_def]
    groups_disjoint agree_frame [of cfg_paths] by metis

lemma part_restore:
  assumes "io_ok e" "part_sync m"
  shows "part_sync (ssbl_part_file_restore e m) \<and> agree cfg_paths m (ssbl_part_file_restore e m) \<and>
    agree boot_paths m (ssbl_part_file_restore e m) \<and> agree mark_paths m (ssbl_part_file_restore e m)"
  using part.restore_step [OF assms, folded part_paths_def ssbl_part_file_restore_def]
    groups_disjoint agree_frame [of part_paths] by (metis Int_commute)

lemma agree_marks: "agree mark_paths m m' \<Longrightarrow> m' DIRTY_BIT_FILE_PATH = m DIRTY_BIT_FILE_PATH"
  by (simp add: agree_def mark_paths_def)

text \<open>How many master copies are broken; every reset leaves fewer.\<close>

definition broken_masters :: "fs \<Rightarrow> nat" where
  "broken_masters m = (if cfg_good m then 0 else 1) + (if part_good m then 0 else 1) + (if boot_good m then 0 else 1)"

definition ssbl_clean :: "fs \<Rightarrow> bool" where
  "ssbl_clean m \<longleftrightarrow> cfg_sync m \<and> part_sync m \<and> boot_sync m \<and> m DIRTY_BIT_FILE_PATH = None"

definition ssbl_recoverable :: "fs \<Rightarrow> bool" where
  "ssbl_recoverable m \<longleftrightarrow> cfg_rec m \<and> part_rec m \<and> boot_rec m \<and> m DIRTY_BIT_FILE_PATH \<noteq> None"

lemma sanity_step:
  assumes io: "io_ok e" and rec: "ssbl_recoverable m"
  shows "(\<exists>m'. ssbl_sanity_check e g m = (Inr (), m') \<and> ssbl_clean m') \<or>
    (\<exists>m'. ssbl_sanity_check e g m = (Inl Reset, m') \<and> ssbl_recoverable m' \<and> broken_masters m' < broken_masters m)"
proof -
  note rec' = rec [unfolded ssbl_recoverable_def]
  from rec' have dirty: "utils_is_file_present e m DIRTY_BIT_FILE_PATH" using io by simp
  obtain r1 m1 where 1: "ssbl_file_sanity_check e g m FOTA_CFG_FILE_PATH FOTA_CFG_CHKSUM_FILE_PATH
      FOTA_CFG_BACKUP_FILE_PATH FOTA_CFG_BACKUP_CHKSUM_FILE_PATH = (Inr r1, m1)"
    "cfg_sync m1" "r1 = SSB_SANITY_ERROR_MASTER_COPY \<longleftrightarrow> \<not> cfg_good m"
    "agree part_paths m m1" "agree boot_paths m m1" "agree mark_paths m m1"
    using cfg_check [OF io, of m g] rec' by blast
  have p1: "part_rec m1" using rec' agree_part [OF 1(4)] by simp
  obtain r2 m2 where 2: "ssbl_file_sanity_check e g m1 PART_FILE_PATH PART_CHKSUM_FILE_PATH
      PART_BACKUP_FILE_PATH PART_BACKUP_CHKSUM_FILE_PATH = (Inr r2, m2)"
    "part_sync m2" "r2 = SSB_SANITY_ERROR_MASTER_COPY \<longleftrightarrow> \<not> part_good m1"
    "agree cfg_paths m1 m2" "agree boot_paths m1 m2" "agree mark_paths m1 m2"
    using part_check [OF io p1, of g] by blast
  have b2: "boot_rec m2" using rec' agree_boot [OF 1(5)] agree_boot [OF 2(5)] by simp
  obtain r3 m3 where 3: "ssbl_file_sanity_check e g m2 BOOT_FILE_PATH BOOT_CHKSUM_FILE_PATH
      BOOT_BACKUP_FILE_PATH BOOT_BACKUP_CHKSUM_FILE_PATH = (Inr r3, m3)"
    "boot_sync m3" "r3 = SSB_SANITY_ERROR_MASTER_COPY \<longleftrightarrow> \<not> boot_good m2"
    "agree cfg_paths m2 m3" "agree part_paths m2 m3" "agree mark_paths m2 m3"
    using boot_check [OF io b2, of g] by blast
  have eq: "ssbl_sanity_check e g m =
     (if \<not> cfg_good m then (Inl Reset, unlink m1 FOTA_IN_PROGRESS_FILE_PATH)
      else if \<not> part_good m1 then (Inl Reset, unlink (ssbl_fota_cfg_file_restore e m2) FOTA_IN_PROGRESS_FILE_PATH)
      else if \<not> boot_good m2
      then (Inl Reset, unlink (ssbl_part_file_restore e (ssbl_fota_cfg_file_restore e m3)) FOTA_IN_PROGRESS_FILE_PATH)
      else (Inr (), unlink (unlink m3 DIRTY_BIT_FILE_PATH) FOTA_IN_PROGRESS_FILE_PATH))"
    using 1(3) 2(3) 3(3) by (simp add: ssbl_sanity_check_def dirty 1(1) 2(1) 3(1) Let_def)
  have marks: "m1 DIRTY_BIT_FILE_PATH = m DIRTY_BIT_FILE_PATH" "m2 DIRTY_BIT_FILE_PATH = m DIRTY_BIT_FILE_PATH"
    "m3 DIRTY_BIT_FILE_PATH = m DIRTY_BIT_FILE_PATH"
    using agree_marks [OF 1(6)] agree_marks [OF 2(6)] agree_marks [OF 3(6)] by simp_all
  have s2: "cfg_sync m2" using 1(2) agree_cfg [OF 2(4)] by simp
  have s3: "cfg_sync m3" "part_sync m3" using s2 2(2) agree_cfg [OF 3(4)] agree_part [OF 3(5)] by simp_all
  have bm: "boot_good m2 = boot_good m" "boot_good m1 = boot_good m" "part_good m1 = part_good m"
    using agree_boot [OF 1(5)] agree_boot [OF 2(5)] agree_part [OF 1(4)] by simp_all
  define u where "u = (\<lambda>m. unlink m FOTA_IN_PROGRESS_FILE_PATH)"
  have u: "agree cfg_paths m' (u m')" "agree part_paths m' (u m')" "agree boot_paths m' (u m')"
    "u m' DIRTY_BIT_FILE_PATH = m' DIRTY_BIT_FILE_PATH" for m'
    using agree_unlink by (simp_all add: u_def)
  consider (cfg) "\<not> cfg_good m" | (part) "cfg_good m" "\<not> part_good m" | (boot) "cfg_good m" "part_good m" "\<not> boot_good m"
    | (none) "cfg_good m" "part_good m" "boot_good m" by blast
  then show ?thesis
  proof cases
    case cfg
    then have "ssbl_sanity_check e g m = (Inl Reset, u m1)" by (simp add: eq u_def)
    moreover have "ssbl_recoverable (u m1)"
      using in_sync_good [OF 1(2)] p1 rec' agree_boot [OF 1(5)] agree_cfg [OF u(1)] agree_part [OF u(2)] agree_boot [OF u(3)] u(4) marks
      by (simp add: ssbl_recoverable_def)
    moreover have "broken_masters (u m1) < broken_masters m"
      using cfg in_sync_good [OF 1(2)] bm agree_cfg [OF u(1)] agree_part [OF u(2)] agree_boot [OF u(3)]
      by (simp add: broken_masters_def)
    ultimately show ?thesis by blast
  next
    case part
    let ?m = "ssbl_fota_cfg_file_restore e m2"
    note R = cfg_restore [OF io s2]
    from part bm have "ssbl_sanity_check e g m = (Inl Reset, u ?m)" by (simp add: eq u_def)
    moreover have "ssbl_recoverable (u ?m)"
      using R R [THEN conjunct1, THEN in_sync_good] in_sync_good [OF 2(2)] b2 agree_part [of m2 ?m] agree_boot [of m2 ?m]
        agree_cfg [OF u(1)] agree_part [OF u(2)] agree_boot [OF u(3)] u(4) marks agree_marks [of m2 ?m] rec'
      by (simp add: ssbl_recoverable_def)
    moreover have "broken_masters (u ?m) < broken_masters m"
      using part R R [THEN conjunct1, THEN in_sync_good] in_sync_good [OF 2(2)] bm agree_part [of m2 ?m] agree_boot [of m2 ?m]
        agree_cfg [OF u(1)] agree_part [OF u(2)] agree_boot [OF u(3)]
      by (simp add: broken_masters_def)
    ultimately show ?thesis by blast
  next
    case boot
    let ?m = "ssbl_fota_cfg_file_restore e m3"
    note R = cfg_restore [OF io s3(1)]
    have ps: "part_sync ?m" using R s3(2) agree_part [of m3 ?m] by simp
    let ?n = "ssbl_part_file_restore e ?m"
    note Q = part_restore [OF io ps]
    have sync: "cfg_sync ?n" "part_sync ?n" "boot_sync ?n"
      using R Q 3(2) agree_cfg [of ?m ?n] agree_boot [of ?m ?n] agree_boot [of m3 ?m] by simp_all
    have "?n DIRTY_BIT_FILE_PATH = m DIRTY_BIT_FILE_PATH"
      using R Q marks agree_marks [of m3 ?m] agree_marks [of ?m ?n] by simp
    then have "ssbl_recoverable (u ?n)"
      using sync [THEN in_sync_good] agree_cfg [OF u(1)] agree_part [OF u(2)] agree_boot [OF u(3)] u(4) rec'
      by (simp add: ssbl_recoverable_def)
    moreover have "broken_masters (u ?n) < broken_masters m"
      using boot sync [THEN in_sync_good] agree_cfg [OF u(1)] agree_part [OF u(2)] agree_boot [OF u(3)]
      by (simp add: broken_masters_def)
    moreover from boot bm have "ssbl_sanity_check e g m = (Inl Reset, u ?n)" by (simp add: eq u_def)
    ultimately show ?thesis by blast
  next
    case none
    let ?m = "unlink m3 DIRTY_BIT_FILE_PATH"
    from none bm have "ssbl_sanity_check e g m = (Inr (), u ?m)" by (simp add: eq u_def)
    moreover have "ssbl_clean (u ?m)"
      using s3 3(2) agree_cfg [OF agree_unlink(5) [of m3]] agree_part [OF agree_unlink(6) [of m3]] agree_boot [OF agree_unlink(7) [of m3]]
        agree_cfg [OF u(1) [of ?m]] agree_part [OF u(2) [of ?m]] agree_boot [OF u(3) [of ?m]] u(4) [of ?m]
      by (simp add: ssbl_clean_def) (simp add: unlink_def)
    ultimately show ?thesis by blast
  qed
qed

lemma boots_clean:
  assumes "io_ok e"
  shows "ssbl_recoverable m \<Longrightarrow> broken_masters m \<le> n \<Longrightarrow> \<exists>m'. ssbl_boots e g n m = (Inr (), m') \<and> ssbl_clean m'"
proof (induction n arbitrary: m)
  case 0
  with sanity_step [OF assms, of m "g 0"] show ?case by auto
next
  case (Suc n)
  consider (ok) m' where "ssbl_sanity_check e (g (Suc n)) m = (Inr (), m')" "ssbl_clean m'"
    | (again) m' where "ssbl_sanity_check e (g (Suc n)) m = (Inl Reset, m')" "ssbl_recoverable m'" "broken_masters m' < broken_masters m"
    using sanity_step [OF assms Suc.prems(1), of "g (Suc n)"] by blast
  then show ?case
  proof cases
    case again
    with Suc.IH [of m'] Suc.prems show ?thesis by auto
  qed auto
qed

section \<open>Properties\<close>

text \<open>
  Property C15. The repair of one control file, when master, backup and the checksum files of both are
  present, each checksum file with at least eight characters (\<open>checkable_pair\<close>): on a healthy file system with at least
  one of the two copies intact the check returns, the two copies then agree and are intact, the master holds its
  own contents if those were intact and the backup's otherwise, and no other file changes. With no
  intact copy the loader parks without touching a file.
\<close>

theorem ssbl_file_sanity_check_repairs:
  assumes "io_ok e" "checkable_pair m f c bf bc"
    and "distinct [f, c, bf, bc, DIRTY_BIT_FILE_PATH, FOTA_IN_PROGRESS_FILE_PATH]"
  shows "if file_intact m f c \<or> file_intact m bf bc
    then \<exists>r m'. ssbl_file_sanity_check e g m f c bf bc = (Inr r, m') \<and> in_sync m' f c bf bc \<and>
      m' f = (if file_intact m f c then m f else m bf) \<and> (\<forall>q. q \<notin> {f, c, bf, bc} \<longrightarrow> m' q = m q)
    else ssbl_file_sanity_check e g m f c bf bc = (Inl Parked, m)"
proof -
  from assms(3) have cf: "control_file f c bf bc" by (rule control_file.intro)
  show ?thesis
    using control_file.check_step [OF cf assms(1), of m g] control_file.check_repairs [OF cf assms(1,2), of g] assms(2)
    by (auto simp: recoverable_def)
qed

definition sample_fs :: fs where
  "sample_fs = [PART_FILE_PATH \<mapsto> ''{'', PART_CHKSUM_FILE_PATH \<mapsto> ''00000000'',
     PART_BACKUP_FILE_PATH \<mapsto> ''{}'', PART_BACKUP_CHKSUM_FILE_PATH \<mapsto> sprintf_08x (file_sum ''{}'')]"

theorem ssbl_file_sanity_check_repairs_witness:
  "\<exists>r m'. ssbl_file_sanity_check healthy_env (\<lambda>_. (0, [])) sample_fs PART_FILE_PATH PART_CHKSUM_FILE_PATH
      PART_BACKUP_FILE_PATH PART_BACKUP_CHKSUM_FILE_PATH = (Inr r, m') \<and>
    in_sync m' PART_FILE_PATH PART_CHKSUM_FILE_PATH PART_BACKUP_FILE_PATH PART_BACKUP_CHKSUM_FILE_PATH"
proof -
  have "checkable_pair sample_fs PART_FILE_PATH PART_CHKSUM_FILE_PATH PART_BACKUP_FILE_PATH PART_BACKUP_CHKSUM_FILE_PATH"
    by (simp add: checkable_pair_def checkable_def sample_fs_def small_file_def path_defs)
  moreover have "file_intact sample_fs PART_BACKUP_FILE_PATH PART_BACKUP_CHKSUM_FILE_PATH"
    by (simp add: file_intact_def sample_fs_def small_file_def path_defs)
  ultimately show ?thesis
    using ssbl_file_sanity_check_repairs [of healthy_env sample_fs PART_FILE_PATH PART_CHKSUM_FILE_PATH
        PART_BACKUP_FILE_PATH PART_BACKUP_CHKSUM_FILE_PATH "\<lambda>_. (0, [])"]
    by (auto simp: path_defs)
qed

text \<open>
  Property C16. Write faults cannot lose both copies of a control file that is recoverable, i.e. whose master,
  backup and two checksum files are present, the checksum files with at least eight characters, and at least one of whose
  copies is intact: whatever opens for writing or writes fail or stop half way during the check (reading and allocation are
  assumed to work), at least one intact copy is left behind.
\<close>

theorem ssbl_file_sanity_check_fault_safe:
  assumes "reads_ok e" "recoverable m f c bf bc"
    and "distinct [f, c, bf, bc, DIRTY_BIT_FILE_PATH, FOTA_IN_PROGRESS_FILE_PATH]"
    and "ssbl_file_sanity_check e g m f c bf bc = (r, m')"
  shows "file_intact m' f c \<or> file_intact m' bf bc"
proof -
  from assms(3) have "control_file f c bf bc" by (rule control_file.intro)
  from control_file.check_keeps_intact_copy [OF this assms(1,2,4)] show ?thesis .
qed

theorem ssbl_file_sanity_check_fault_safe_witness:
  "let e = healthy_env\<lparr>fwrite_max := (\<lambda>_ n. n div 2)\<rparr>;
       m' = snd (ssbl_file_sanity_check e (\<lambda>_. (0, [])) sample_fs PART_FILE_PATH PART_CHKSUM_FILE_PATH
              PART_BACKUP_FILE_PATH PART_BACKUP_CHKSUM_FILE_PATH)
   in file_intact m' PART_FILE_PATH PART_CHKSUM_FILE_PATH \<or>
      file_intact m' PART_BACKUP_FILE_PATH PART_BACKUP_CHKSUM_FILE_PATH"
proof -
  have "recoverable sample_fs PART_FILE_PATH PART_CHKSUM_FILE_PATH PART_BACKUP_FILE_PATH PART_BACKUP_CHKSUM_FILE_PATH"
    by (simp add: recoverable_def checkable_pair_def checkable_def file_intact_def sample_fs_def small_file_def path_defs)
  moreover have "reads_ok (healthy_env\<lparr>fwrite_max := (\<lambda>_ n. n div 2)\<rparr>)"
    by (simp add: reads_ok_def healthy_env_def)
  ultimately show ?thesis
    using ssbl_file_sanity_check_fault_safe [of "healthy_env\<lparr>fwrite_max := (\<lambda>_ n. n div 2)\<rparr>" sample_fs
        PART_FILE_PATH PART_CHKSUM_FILE_PATH PART_BACKUP_FILE_PATH PART_BACKUP_CHKSUM_FILE_PATH "\<lambda>_. (0, [])"]
    unfolding Let_def by (metis part.paths prod.collapse)
qed

text \<open>
  Property C14. The loader always gets out of the reset loop: from every state with the dirty mark in
  which each control file has an intact copy, at most three resets are followed by a boot that
  passes the check, with all copies intact and in agreement and the dirty mark removed.
\<close>

theorem ssbl_boots_recover:
  assumes "io_ok e" "ssbl_recoverable m"
  shows "\<exists>m'. ssbl_boots e g 3 m = (Inr (), m') \<and> ssbl_clean m'"
  using boots_clean [OF assms(1,2), of 3] by (simp add: broken_masters_def)

definition intact_fs :: "string \<Rightarrow> string \<Rightarrow> fs" where
  "intact_fs master_part cfg =
     [FOTA_CFG_FILE_PATH \<mapsto> cfg, FOTA_CFG_CHKSUM_FILE_PATH \<mapsto> sprintf_08x (file_sum cfg),
      FOTA_CFG_BACKUP_FILE_PATH \<mapsto> ''{}'', FOTA_CFG_BACKUP_CHKSUM_FILE_PATH \<mapsto> sprintf_08x (file_sum ''{}''),
      PART_FILE_PATH \<mapsto> master_part, PART_CHKSUM_FILE_PATH \<mapsto> ''00000000'',
      PART_BACKUP_FILE_PATH \<mapsto> ''{}'', PART_BACKUP_CHKSUM_FILE_PATH \<mapsto> sprintf_08x (file_sum ''{}''),
      BOOT_FILE_PATH \<mapsto> ''{}'', BOOT_CHKSUM_FILE_PATH \<mapsto> sprintf_08x (file_sum ''{}''),
      BOOT_BACKUP_FILE_PATH \<mapsto> ''{}'', BOOT_BACKUP_CHKSUM_FILE_PATH \<mapsto> sprintf_08x (file_sum ''{}''),
      DIRTY_BIT_FILE_PATH \<mapsto> []]"

lemma intact_fs_recoverable: "small_file a \<Longrightarrow> small_file b \<Longrightarrow> ssbl_recoverable (intact_fs a b)"
  by (simp add: ssbl_recoverable_def recoverable_def checkable_pair_def checkable_def file_intact_def
      intact_fs_def path_defs) (simp add: small_file_def)

theorem ssbl_boots_recover_witness:
  "\<exists>m'. ssbl_boots healthy_env (\<lambda>_ _. (0, [])) 3 (intact_fs ''{'' ''{}'') = (Inr (), m') \<and> ssbl_clean m'"
  by (rule ssbl_boots_recover) (simp_all add: intact_fs_recoverable small_file_def)

text \<open>
  Property C17. The roll-back of \<open>fota_config.json\<close> does not roll back. When an interrupted update left a
  new configuration (intact, different from its intact backup) and a broken \<open>part.json\<close>, the check of
  the configuration has already overwritten the backup with the new file before \<open>part.json\<close> is
  looked at; the restore that follows copies the new configuration onto itself and the old one is gone.
\<close>

theorem ssbl_rollback_ineffective:
  assumes "io_ok e" "ssbl_recoverable m"
    and "file_intact m FOTA_CFG_FILE_PATH FOTA_CFG_CHKSUM_FILE_PATH"
    and "sum_of m FOTA_CFG_FILE_PATH \<noteq> sum_of m FOTA_CFG_BACKUP_FILE_PATH"
    and "\<not> file_intact m PART_FILE_PATH PART_CHKSUM_FILE_PATH"
  shows "\<exists>m'. ssbl_sanity_check e g m = (Inl Reset, m') \<and>
    m' FOTA_CFG_FILE_PATH = m FOTA_CFG_FILE_PATH \<and> m' FOTA_CFG_BACKUP_FILE_PATH = m FOTA_CFG_FILE_PATH"
proof -
  note rec = assms(2) [unfolded ssbl_recoverable_def]
  define m1 where "m1 = restored m FOTA_CFG_BACKUP_FILE_PATH FOTA_CFG_BACKUP_CHKSUM_FILE_PATH FOTA_CFG_FILE_PATH FOTA_CFG_CHKSUM_FILE_PATH"
  have 1: "ssbl_file_sanity_check e g m FOTA_CFG_FILE_PATH FOTA_CFG_CHKSUM_FILE_PATH FOTA_CFG_BACKUP_FILE_PATH
      FOTA_CFG_BACKUP_CHKSUM_FILE_PATH =
    (Inr (if file_intact m FOTA_CFG_BACKUP_FILE_PATH FOTA_CFG_BACKUP_CHKSUM_FILE_PATH then SSB_SANITY_ERROR_NONE
      else SSB_SANITY_ERROR_BACKUP_COPY), m1)"
    using cfg.check_repairs [OF assms(1), of m g] rec assms(3,4) by (simp add: recoverable_def m1_def)
  have m1: "cfg_sync m1" "m1 FOTA_CFG_FILE_PATH = m FOTA_CFG_FILE_PATH" "m1 FOTA_CFG_BACKUP_FILE_PATH = m FOTA_CFG_FILE_PATH"
    using cfg.backed_up_in_sync [OF assms(3)] by (simp_all add: m1_def restored_def)
  have "agree part_paths m m1" by (simp add: agree_def m1_def restored_def part_paths_def path_defs)
  with rec assms(5) have p1: "part_rec m1" "\<not> part_good m1" using agree_part [of m m1] by simp_all
  obtain r2 m2 where 2: "ssbl_file_sanity_check e g m1 PART_FILE_PATH PART_CHKSUM_FILE_PATH
      PART_BACKUP_FILE_PATH PART_BACKUP_CHKSUM_FILE_PATH = (Inr r2, m2)"
    "r2 = SSB_SANITY_ERROR_MASTER_COPY \<longleftrightarrow> \<not> part_good m1" "agree cfg_paths m1 m2"
    using part_check [OF assms(1) p1(1), of g] by blast
  let ?m = "ssbl_fota_cfg_file_restore e m2"
  have "ssbl_sanity_check e g m = (Inl Reset, unlink ?m FOTA_IN_PROGRESS_FILE_PATH)"
    using rec assms(1) 2(2) p1(2) by (simp add: ssbl_sanity_check_def 1 2(1) Let_def)
  moreover have c2: "cfg_sync m2" using m1(1) agree_cfg [OF 2(3)] by simp
  moreover have "?m FOTA_CFG_FILE_PATH = m FOTA_CFG_FILE_PATH"
    using cfg_restore [OF assms(1) c2] 2(3) m1(3) by (simp add: agree_def cfg_paths_def)
  moreover have "?m FOTA_CFG_BACKUP_FILE_PATH = m2 FOTA_CFG_BACKUP_FILE_PATH"
    by (simp add: ssbl_fota_cfg_file_restore_def ssbl_file_restore_def Let_def utils_file_clone_frame)
  moreover have "unlink ?m FOTA_IN_PROGRESS_FILE_PATH FOTA_CFG_FILE_PATH = ?m FOTA_CFG_FILE_PATH"
    "unlink ?m FOTA_IN_PROGRESS_FILE_PATH FOTA_CFG_BACKUP_FILE_PATH = ?m FOTA_CFG_BACKUP_FILE_PATH"
    by (simp_all add: unlink_def path_defs)
  ultimately show ?thesis using 2(3) m1(3) by (simp add: agree_def cfg_paths_def)
qed

theorem ssbl_rollback_ineffective_witness:
  "\<exists>m'. ssbl_sanity_check healthy_env (\<lambda>_. (0, [])) (intact_fs ''{'' ''[]'') = (Inl Reset, m') \<and>
    m' FOTA_CFG_FILE_PATH = Some ''[]'' \<and> m' FOTA_CFG_BACKUP_FILE_PATH = Some ''[]''"
proof -
  have s: "file_sum ''{'' = 0x7B007B" "file_sum ''[]'' = 0x5D5B5D5B" "file_sum ''{}'' = 0x7D7B7D7B"
    by (simp_all add: file_sum_def fl_ref_def)
  have "sprintf_08x 0x7B007B \<noteq> ''00000000''"
    by code_simp
  then have "\<not> file_intact (intact_fs ''{'' ''[]'') PART_FILE_PATH PART_CHKSUM_FILE_PATH"
    by (simp add: file_intact_def intact_fs_def path_defs s)
  moreover have "sum_of (intact_fs ''{'' ''[]'') FOTA_CFG_FILE_PATH = 0x5D5B5D5B"
    "sum_of (intact_fs ''{'' ''[]'') FOTA_CFG_BACKUP_FILE_PATH = 0x7D7B7D7B"
    by (simp_all add: sum_of_def intact_fs_def path_defs s)
  moreover have "file_intact (intact_fs ''{'' ''[]'') FOTA_CFG_FILE_PATH FOTA_CFG_CHKSUM_FILE_PATH"
    by (simp add: file_intact_def intact_fs_def path_defs small_file_def)
  moreover have "intact_fs ''{'' ''[]'' FOTA_CFG_FILE_PATH = Some ''[]''"
    by (simp add: intact_fs_def path_defs)
  ultimately show ?thesis
    using ssbl_rollback_ineffective [of healthy_env "intact_fs ''{'' ''[]''" "\<lambda>_. (0, [])"]
      intact_fs_recoverable [of "''{''" "''[]''"] by (simp add: small_file_def)
qed

text \<open>
  Property C18. A missing checksum file counts as intact: the integrity check then returns \<open>-1\<close>, which its
  caller reads as true, so a master whose checksum file is gone is copied over the intact backup.
  The backup contents are lost, and the checksum beside them no longer belongs to the file.
\<close>

theorem ssbl_missing_checksum_overwrites_backup:
  assumes "io_ok e" "distinct [f, c, bf, bc]" "m f = Some s" "small_file s" "m c = None"
    and "file_intact m bf bc"
  shows "\<exists>m'. ssbl_file_sanity_check e g m f c bf bc = (Inr SSB_SANITY_ERROR_NONE, m') \<and>
    m' bf = m f \<and> m' bc = m bc \<and> (sum_of m f \<noteq> sum_of m bf \<longrightarrow> \<not> file_intact m' bf bc)"
proof -
  have i1: "ssbl_file_integrity_ckeck e g m f c = Some (- 1, [])"
    using assms by (simp add: ssbl_file_integrity_ckeck_def file_checksum_ok)
  have i2: "ssbl_file_integrity_ckeck e g m bf bc = Some (1, sprintf_08x (sum_of m bf))"
    using assms integrity_check_ok [of e m bf bc g] file_intact_checkable by simp
  have "[] \<noteq> sprintf_08x w" for w using length_sprintf_08x [of w] by (metis list.size(3) zero_neq_numeral)
  moreover have "snd (utils_file_clone e (m(bf \<mapsto> s)) bc c) = m(bf \<mapsto> s)"
    using assms by (auto simp: utils_file_clone_def)
  ultimately have "ssbl_file_sanity_check e g m f c bf bc = (Inr SSB_SANITY_ERROR_NONE, m(bf \<mapsto> s))"
    using assms by (simp add: ssbl_file_sanity_check_def i1 i2)
  moreover have "\<not> file_intact (m(bf \<mapsto> s)) bf bc" if "sum_of m f \<noteq> sum_of m bf"
    using that assms by (auto simp: file_intact_def sum_of_def sprintf_08x_inj)
  ultimately show ?thesis using assms by auto
qed

theorem ssbl_missing_checksum_overwrites_backup_witness:
  "\<exists>m'. ssbl_file_sanity_check healthy_env (\<lambda>_. (0, [])) (sample_fs(PART_CHKSUM_FILE_PATH := None))
      PART_FILE_PATH PART_CHKSUM_FILE_PATH PART_BACKUP_FILE_PATH PART_BACKUP_CHKSUM_FILE_PATH = (Inr SSB_SANITY_ERROR_NONE, m') \<and>
    m' PART_BACKUP_FILE_PATH = Some ''{''"
proof -
  have "file_intact (sample_fs(PART_CHKSUM_FILE_PATH := None)) PART_BACKUP_FILE_PATH PART_BACKUP_CHKSUM_FILE_PATH"
    by (simp add: file_intact_def sample_fs_def small_file_def path_defs)
  moreover have "(sample_fs(PART_CHKSUM_FILE_PATH := None)) PART_FILE_PATH = Some ''{''"
    by (simp add: sample_fs_def path_defs)
  ultimately show ?thesis
    using ssbl_missing_checksum_overwrites_backup [of healthy_env PART_FILE_PATH PART_CHKSUM_FILE_PATH
        PART_BACKUP_FILE_PATH PART_BACKUP_CHKSUM_FILE_PATH "sample_fs(PART_CHKSUM_FILE_PATH := None)" "''{''" "\<lambda>_. (0, [])"]
    by (auto simp: small_file_def)
qed

end
