(* ===== verification/Ssbl.thy ===== *)
theory Ssbl
  imports Ssbl_Sanity Sector_Cache
begin

text \<open>
  The second stage boot loader, \<open>apps/ssbl/src/ssbl.c\<close>: the reader of \<open>part.json\<close>, the boot arguments it
  lays out below \<open>0xbfffc\<close>, the ELF loader that copies the sections of an image from flash to RAM,
  and \<open>main\<close>.  RAM is a function from addresses to bytes; a buffer of a C struct is the list of its
  bytes, so that an overrun of a fixed-size buffer is visible and ends a run with \<^const>\<open>None\<close>.
\<close>

section \<open>The reader of part.json\<close>

definition le32 :: "int \<Rightarrow> string" where
  "le32 i = map (\<lambda>k. char_of_byte (ucast (drop_bit (8 * k) (word_of_int i :: u32)))) [0..<4]"

definition int_of_le32 :: "string \<Rightarrow> int" where
  "int_of_le32 b = s32 (int (code (b ! 0) + 256 * code (b ! 1) + 65536 * code (b ! 2) + 16777216 * code (b ! 3)))"

record part_image_info =
  pi_index :: int
  pi_name :: string
  pi_version :: string
  pi_sector :: string
  pi_boot_args :: "string list"

datatype part_dest = Dest_name | Dest_version | Dest_sector

text \<open>\<open>strcpy(dest, token)\<close> and \<open>*(int*)dest = i\<close> into the field \<open>dest\<close> points at.\<close>

definition overlay :: "string \<Rightarrow> string \<Rightarrow> string option" where
  "overlay bytes buf = (if length bytes \<le> length buf then Some (bytes @ drop (length bytes) buf) else None)"

definition dest_store :: "part_dest \<Rightarrow> string \<Rightarrow> part_image_info \<Rightarrow> part_image_info option" where
  "dest_store d bytes p =
     (case d of
        Dest_name \<Rightarrow> map_option (\<lambda>b. p\<lparr>pi_name := b\<rparr>) (overlay bytes (pi_name p))
      | Dest_version \<Rightarrow> map_option (\<lambda>b. p\<lparr>pi_version := b\<rparr>) (overlay bytes (pi_version p))
      | Dest_sector \<Rightarrow> map_option (\<lambda>b. p\<lparr>pi_sector := b\<rparr>) (overlay bytes (pi_sector p)))"

record part_parse =
  pp_state :: parse_state
  pp_dest :: "part_dest option"
  pp_boot_arg :: bool
  pp_images :: "part_image_info list"
  pp_index :: int
  pp_key :: string

text \<open>One turn of the loop ends with \<open>continue\<close> or falls through, leaves it, or returns an error; the
  list of images is global and keeps the nodes added before the error.\<close>

datatype part_next = Continue part_parse | Break part_parse | Return_error part_parse | Overrun

definition store_dest :: "part_parse \<Rightarrow> string \<Rightarrow> part_parse option" where
  "store_dest pp bytes =
     (case (pp_dest pp, pp_images pp) of
        (Some d, im # ims) \<Rightarrow> map_option (\<lambda>im. pp\<lparr>pp_images := im # ims\<rparr>) (dest_store d bytes im)
      | _ \<Rightarrow> Some pp)"

definition add_image_boot_arg :: "env \<Rightarrow> part_parse \<Rightarrow> string \<Rightarrow> part_parse option" where
  "add_image_boot_arg e pp token =
     (case pp_images pp of
        [] \<Rightarrow> Some pp
      | im # ims \<Rightarrow>
          let arg = pp_key pp @ ''='' @ token in
          if \<not> os_alloc e (length arg + 1) then None
          else if length (pi_boot_args im) \<ge> 32 then None
          else Some (pp\<lparr>pp_images := im\<lparr>pi_boot_args := pi_boot_args im @ [arg]\<rparr> # ims\<rparr>))"

definition part_key :: "env \<Rightarrow> part_image_info \<Rightarrow> part_parse \<Rightarrow> string \<Rightarrow> part_next" where
  "part_key e fresh pp token =
     (let pp = pp\<lparr>pp_state := JSON_PARSE_STATE_SEPRATOR, pp_dest := None\<rparr> in
      if token = ''name'' \<and> \<not> os_alloc e 272 then Return_error pp
      else
        let pp = (if token = ''name''
              then pp\<lparr>pp_images := fresh\<lparr>pi_index := pp_index pp, pi_boot_args := []\<rparr> # pp_images pp,
                      pp_index := pp_index pp + 1, pp_boot_arg := False, pp_dest := Some Dest_name\<rparr>
              else pp)
        in if pp_images pp = [] then Continue pp
           else if token = ''version'' then Continue (pp\<lparr>pp_dest := Some Dest_version\<rparr>)
           else if token = ''start_sector'' then Continue (pp\<lparr>pp_dest := Some Dest_sector\<rparr>)
           else if token = ''bootargs_start'' then Continue (pp\<lparr>pp_boot_arg := True\<rparr>)
           else if token = ''bootargs_end'' then Continue (pp\<lparr>pp_boot_arg := False\<rparr>)
           else if pp_boot_arg pp then Continue (pp\<lparr>pp_key := token\<rparr>)
           else Continue pp)"

definition part_value :: "env \<Rightarrow> part_parse \<Rightarrow> json_token \<Rightarrow> string \<Rightarrow> part_next" where
  "part_value e pp t token =
     (case (if t = JSON_STRING then
              if pp_boot_arg pp \<and> pp_images pp \<noteq> [] then add_image_boot_arg e pp token
              else store_dest pp (token @ [NUL])
            else if t = JSON_NUMBER then store_dest pp (le32 (atoi token))
            else Some pp) of
        None \<Rightarrow> Overrun
      | Some pp \<Rightarrow>
          if t = JSON_STRING \<or> t = JSON_NUMBER
          then Continue (pp\<lparr>pp_state := JSON_PARSE_STATE_KEY, pp_dest := None\<rparr>)
          else Continue pp)"

definition part_step :: "env \<Rightarrow> part_image_info \<Rightarrow> part_parse \<Rightarrow> json_token \<Rightarrow> string \<Rightarrow> part_next" where
  "part_step e fresh pp t token =
     (if t = JSON_END then Break pp
      else if t = JSON_BEGIN_ARRAY then Continue (pp\<lparr>pp_state := JSON_PARSE_STATE_KEY\<rparr>)
      else if pp_state pp = JSON_PARSE_STATE_KEY \<and> t = JSON_STRING then part_key e fresh pp token
      else if pp_state pp = JSON_PARSE_STATE_SEPRATOR \<and> t = JSON_MEMBER_SEPARATOR
      then Continue (pp\<lparr>pp_state := JSON_PARSE_STATE_VAL\<rparr>)
      else if pp_state pp = JSON_PARSE_STATE_VAL then part_value e pp t token
      else Continue pp)"

fun part_loop :: "env \<Rightarrow> part_image_info \<Rightarrow> json_parser \<Rightarrow> part_parse \<Rightarrow> char option list \<Rightarrow> part_next" where
  "part_loop e fresh json pp [] = Break pp"
| "part_loop e fresh json pp (ch # chs) =
     (case json_tokenizer json ch of
        None \<Rightarrow> Overrun
      | Some (t, json) \<Rightarrow>
          (case part_step e fresh pp t (cstr (jtoken json)) of
             Continue pp \<Rightarrow> part_loop e fresh json pp chs
           | r \<Rightarrow> r))"

definition part_start :: part_parse where
  "part_start = \<lparr>pp_state = JSON_PARSE_STATE_KEY, pp_dest = None, pp_boot_arg = False,
     pp_images = [], pp_index = 0, pp_key = []\<rparr>"

text \<open>
  The return code and \<open>part_file.image_info_list\<close>; the loop feeds \<open>EOF\<close> to the tokenizer once before
  it ends.  \<open>fresh\<close> is the uninitialised memory of a new list node.
\<close>

definition ssbl_parse_part_file :: "env \<Rightarrow> part_image_info \<Rightarrow> fs \<Rightarrow> (int \<times> part_image_info list) option" where
  "ssbl_parse_part_file e fresh m =
     (if \<not> os_alloc e 256 then Some (- 1, [])
      else
        case fopen_r e m PART_FILE_PATH of
          None \<Rightarrow> Some (- 1, [])
        | Some content \<Rightarrow>
            (case part_loop e fresh json_init part_start (map Some content @ [None]) of
               Break pp \<Rightarrow> Some (0, pp_images pp)
             | Return_error pp \<Rightarrow> Some (- 1, pp_images pp)
             | _ \<Rightarrow> None))"

definition ssbl_boot_index_get :: "env \<Rightarrow> fs \<Rightarrow> int option" where
  "ssbl_boot_index_get e m =
     (case fopen_r e m BOOT_FILE_PATH of
        None \<Rightarrow> Some (- 1)
      | Some content \<Rightarrow> boot_index_scan json_init JSON_PARSE_STATE_KEY content)"

section \<open>Boot arguments\<close>

record ssbl =
  s_boot_arg_p :: nat
  s_argc :: nat
  s_ram :: "nat \<Rightarrow> byte"
  s_vm :: u32
  s_entry :: u32

definition ssbl_init :: "(nat \<Rightarrow> byte) \<Rightarrow> ssbl" where
  "ssbl_init ram = \<lparr>s_boot_arg_p = 0xbfffc, s_argc = 0, s_ram = ram, s_vm = 0, s_entry = 0\<rparr>"

definition bytes :: "string \<Rightarrow> byte list" where
  "bytes s = map byte_of s"

definition ssbl_add_boot_arg :: "ssbl \<Rightarrow> string \<Rightarrow> ssbl" where
  "ssbl_add_boot_arg s arg =
     (let p = s_boot_arg_p s - 1;
          ram = (s_ram s)(p := 0);
          p = p - length arg
      in s\<lparr>s_boot_arg_p := p, s_argc := s_argc s + 1, s_ram := put ram p (bytes arg)\<rparr>)"

definition ssbl_image_info_get :: "ssbl \<Rightarrow> part_image_info list \<Rightarrow> int \<Rightarrow> ssbl \<times> part_image_info option" where
  "ssbl_image_info_get s images boot_index =
     (case find (\<lambda>p. boot_index = pi_index p) images of
        None \<Rightarrow> (s, None)
      | Some p \<Rightarrow> (foldl ssbl_add_boot_arg s (pi_boot_args p), Some p))"

text \<open>\<open>while(*ptr++);\<close> ends behind the next NUL, if there is one.\<close>

partial_function (option) skip_str :: "(nat \<Rightarrow> byte) \<Rightarrow> nat \<Rightarrow> nat option" where
  "skip_str ram ptr = (if ram ptr = 0 then Some (ptr + 1) else skip_str ram (ptr + 1))"

definition le_bytes :: "nat \<Rightarrow> byte list" where
  "le_bytes p = bytes (le32 (int p))"

fun ssbl_build_argv :: "nat \<Rightarrow> nat \<Rightarrow> nat \<Rightarrow> (nat \<Rightarrow> byte) \<Rightarrow> (nat \<Rightarrow> byte) option" where
  "ssbl_build_argv 0 av ptr ram = Some ram"
| "ssbl_build_argv (Suc ac) av ptr ram =
     (let ram = put ram av (le_bytes ptr)
      in case skip_str ram ptr of
           None \<Rightarrow> None
         | Some ptr \<Rightarrow> ssbl_build_argv ac (av + 4) ptr ram)"

text \<open>\<open>ssbl_start_image\<close> up to the reset that enters the image: the place of \<open>argv\<close> and the RAM.\<close>

definition ssbl_start_image :: "ssbl \<Rightarrow> (nat \<times> (nat \<Rightarrow> byte)) option" where
  "ssbl_start_image s =
     (let addr = s_boot_arg_p s - 4 * s_argc s;
          argv = addr div 4 * 4
      in map_option (\<lambda>ram. (argv, ram)) (ssbl_build_argv (s_argc s) argv (s_boot_arg_p s) (s_ram s)))"

section \<open>The ELF loader\<close>

definition u16_at :: "byte list \<Rightarrow> nat \<Rightarrow> u16" where
  "u16_at bs k = ucast (bs ! k) + push_bit 8 (ucast (bs ! (k + 1)))"

definition u32_at :: "byte list \<Rightarrow> nat \<Rightarrow> u32" where
  "u32_at bs k = ucast (bs ! k) + push_bit 8 (ucast (bs ! (k + 1))) + push_bit 16 (ucast (bs ! (k + 2))) +
     push_bit 24 (ucast (bs ! (k + 3)))"

record elf32_ehdr =
  e_ident :: "byte list"
  e_type :: u16
  e_machine :: u16
  e_version :: u32
  e_entry :: u32
  e_shoff :: u32
  e_ehsize :: u16
  e_phentsize :: u16
  e_shnum :: u16
  e_shstrndx :: u16

definition ehdr_of :: "byte list \<Rightarrow> elf32_ehdr" where
  "ehdr_of bs = \<lparr>e_ident = take 16 bs, e_type = u16_at bs 16, e_machine = u16_at bs 18,
     e_version = u32_at bs 20, e_entry = u32_at bs 24, e_shoff = u32_at bs 32, e_ehsize = u16_at bs 40,
     e_phentsize = u16_at bs 42, e_shnum = u16_at bs 48, e_shstrndx = u16_at bs 50\<rparr>"

record elf32_shdr =
  sh_name :: u32
  sh_addr :: u32
  sh_offset :: u32
  sh_size :: u32

definition shdr_of :: "byte list \<Rightarrow> elf32_shdr" where
  "shdr_of bs = \<lparr>sh_name = u32_at bs 0, sh_addr = u32_at bs 12, sh_offset = u32_at bs 16, sh_size = u32_at bs 20\<rparr>"

text \<open>The six checks of the header.\<close>

definition ehdr_ok :: "elf32_ehdr \<Rightarrow> bool" where
  "ehdr_ok ehdr \<longleftrightarrow> take 6 (e_ident ehdr) = [0x7f, 0x45, 0x4c, 0x46, 1, 1] \<and> e_version ehdr = 1 \<and>
     e_ehsize ehdr = 52 \<and> e_type ehdr = 2 \<and> e_machine ehdr = 40 \<and> e_phentsize ehdr = 32"

function read_section_loop ::
    "'d spi_ops \<Rightarrow> 'd \<Rightarrow> u32 \<Rightarrow> nat \<Rightarrow> nat \<Rightarrow> (nat \<Rightarrow> byte) \<Rightarrow> (nat \<Rightarrow> byte)" where
  "read_section_loop ops dev flash_addr data_ptr len ram =
     (if len \<noteq> 0 then
        (let chunk = (if len > 4096 then 4096 else len);
             ram = put ram data_ptr (spi_mem_read ops dev flash_addr chunk)
         in read_section_loop ops dev (flash_addr + word_of_nat chunk) (data_ptr + chunk) (len - chunk) ram)
      else ram)"
  by pat_completeness auto
termination
  by (relation "measure (\<lambda>(ops, dev, flash_addr, data_ptr, len, ram). len)") auto

declare read_section_loop.simps [simp del]

definition ssbl_read_section ::
    "'d spi_ops \<Rightarrow> 'd \<Rightarrow> u32 \<Rightarrow> u32 \<Rightarrow> u32 \<Rightarrow> (nat \<Rightarrow> byte) \<Rightarrow> (nat \<Rightarrow> byte)" where
  "ssbl_read_section ops dev flash_addr data_addr len ram =
     (if data_addr = 0 then ram
      else read_section_loop ops dev flash_addr (unat data_addr) (unat len) ram)"

text \<open>
  \<open>strcmp\<close> of a place in the name buffer with a literal; \<^const>\<open>None\<close> is a read past the buffer.
\<close>

fun strcmp_at :: "byte list \<Rightarrow> string \<Rightarrow> bool option" where
  "strcmp_at [] lit = None"
| "strcmp_at (b # bs) [] = Some (b = 0)"
| "strcmp_at (b # bs) (c # cs) = (if b = byte_of c then strcmp_at bs cs else Some False)"

definition ram_sections :: "string list" where
  "ram_sections = [''.text'', ''.data'', ''.text.bvars'', ''.text.base'', ''.atext'', ''.data.base'',
     ''.ARM.attributes'', ''.bss'', ''.bss.base'']"

fun match_any :: "byte list \<Rightarrow> string list \<Rightarrow> bool option" where
  "match_any bs [] = Some False"
| "match_any bs (l # ls) =
     (case strcmp_at bs l of None \<Rightarrow> None | Some True \<Rightarrow> Some True | Some False \<Rightarrow> match_any bs ls)"

text \<open>What the loop over the sections returns.\<close>

datatype elf_result = Loaded ssbl | Too_big ssbl | Bad_read

fun section_loop ::
    "'d spi_ops \<Rightarrow> 'd \<Rightarrow> u32 \<Rightarrow> byte list \<Rightarrow> nat \<Rightarrow> u32 \<Rightarrow> u32 \<Rightarrow> ssbl \<Rightarrow> elf_result" where
  "section_loop ops dev flash_addr names 0 offset app_size s = Loaded s"
| "section_loop ops dev flash_addr names (Suc n) offset app_size s =
     (let shdr = shdr_of (spi_mem_read ops dev (flash_addr + offset) 40);
          name = drop (unat (sh_name shdr)) names
      in case (match_any name ram_sections, strcmp_at name ''.virt'', strcmp_at name ''.signature'') of
           (Some in_ram, Some virt, Some sig) \<Rightarrow>
             let app_size = (if in_ram then app_size + sh_size shdr else app_size) in
             if in_ram \<and> app_size \<ge> 0x3e000 then Too_big s
             else
               let s = (if in_ram
                     then s\<lparr>s_ram := ssbl_read_section ops dev (flash_addr + sh_offset shdr) (sh_addr shdr) (sh_size shdr) (s_ram s)\<rparr>
                     else s);
                   s = (if virt then s\<lparr>s_vm := flash_addr + sh_offset shdr\<rparr> else s)
               in section_loop ops dev flash_addr names n (offset + 40) app_size s
         | _ \<Rightarrow> Bad_read)"

text \<open>
  \<open>ssbl_load_elf\<close>: the return code and the loader state.  The names are read into a buffer of 1024
  bytes whatever their size is; \<open>junk\<close> is what the buffer holds before.
\<close>

definition ssbl_load_elf ::
    "env \<Rightarrow> 'd spi_ops \<Rightarrow> 'd \<Rightarrow> byte list \<Rightarrow> ssbl \<Rightarrow> u32 \<Rightarrow> (int \<times> ssbl) option" where
  "ssbl_load_elf e ops dev junk s flash_addr =
     (if \<not> os_alloc e 1024 then Some (- 1, s)
      else
        let ehdr = ehdr_of (spi_mem_read ops dev flash_addr 52) in
        if \<not> ehdr_ok ehdr then Some (- 1, s)
        else
          let offset = e_shoff ehdr + ucast (e_shstrndx ehdr) * 40;
              shdr = shdr_of (spi_mem_read ops dev (flash_addr + offset) 40)
          in if unat (sh_size shdr) > 1024 then None
             else
               let names = spi_mem_read ops dev (flash_addr + sh_offset shdr) (unat (sh_size shdr));
                   names = names @ drop (length names) junk
               in case section_loop ops dev flash_addr names (unat (e_shnum ehdr)) (e_shoff ehdr) 0 s of
                    Loaded s \<Rightarrow> Some (0, s\<lparr>s_entry := e_entry ehdr\<rparr>)
                  | Too_big s \<Rightarrow> Some (- 1, s)
                  | Bad_read \<Rightarrow> None)"

section \<open>main\<close>

definition vm_flash_arg :: "u32 \<Rightarrow> string" where
  "vm_flash_arg vm = ''vm.flash_location=0x'' @ sprintf_08x vm"

text \<open>The 29 bytes hold the 28 characters and the terminator.\<close>

definition add_vm_arg :: "ssbl \<Rightarrow> ssbl" where
  "add_vm_arg s =
     (if s_vm s \<noteq> 0 then
        (let p = s_boot_arg_p s - 29
         in s\<lparr>s_boot_arg_p := p, s_argc := s_argc s + 1,
              s_ram := put (s_ram s) p (take 28 (bytes (vm_flash_arg (s_vm s))) @ [0])\<rparr>)
      else s)"

datatype ssbl_end = Stopped ssbl_stop | Started u32 nat "nat \<Rightarrow> byte"

definition ssbl_main ::
    "env \<Rightarrow> garbage \<Rightarrow> part_image_info \<Rightarrow> byte list \<Rightarrow> int \<Rightarrow> 'd spi_ops \<Rightarrow> 'd \<Rightarrow> fs \<Rightarrow> (nat \<Rightarrow> byte) \<Rightarrow> ssbl_end \<times> fs" where
  "ssbl_main e g fresh junk mount_rc ops dev m ram =
     (if mount_rc \<noteq> 0 then (Stopped Parked, m)
      else
        case ssbl_sanity_check e g m of
          (Inl stop, m) \<Rightarrow> (Stopped stop, m)
        | (Inr _, m) \<Rightarrow>
            (case ssbl_parse_part_file e fresh m of
               None \<Rightarrow> (Stopped Undefined, m)
             | Some (rval, images) \<Rightarrow>
                 if rval \<noteq> 0 then (Stopped Parked, m)
                 else
                   case ssbl_boot_index_get e m of
                     None \<Rightarrow> (Stopped Undefined, m)
                   | Some boot_index \<Rightarrow>
                       if boot_index < 0 then (Stopped Parked, m)
                       else
                         case ssbl_image_info_get (ssbl_init ram) images boot_index of
                           (s, None) \<Rightarrow> (Stopped Parked, m)
                         | (s, Some image_info) \<Rightarrow>
                             (case ssbl_load_elf e ops dev junk s (word_of_int (int_of_le32 (pi_sector image_info) * 4096)) of
                                None \<Rightarrow> (Stopped Undefined, m)
                              | Some (rc, s) \<Rightarrow>
                                  if rc < 0 then (Stopped Parked, m)
                                  else
                                    let s = add_vm_arg s in
                                    case ssbl_start_image s of
                                      None \<Rightarrow> (Stopped Undefined, m)
                                    | Some (argv, ram) \<Rightarrow> (Started (s_entry s) argv ram, m))))"

section \<open>The image list\<close>

text \<open>Every node keeps its buffer sizes, and the nodes are numbered in the order of the file.\<close>

definition image_wf :: "part_image_info \<Rightarrow> bool" where
  "image_wf p \<longleftrightarrow> length (pi_name p) = 64 \<and> length (pi_version p) = 64 \<and> length (pi_sector p) = 4 \<and>
     length (pi_boot_args p) \<le> 32"

definition images_wf :: "part_image_info list \<Rightarrow> bool" where
  "images_wf ims \<longleftrightarrow> (\<forall>p \<in> set ims. image_wf p) \<and> map pi_index (rev ims) = map int [0..<length ims]"

definition part_wf :: "part_parse \<Rightarrow> bool" where
  "part_wf pp \<longleftrightarrow> images_wf (pp_images pp) \<and> pp_index pp = int (length (pp_images pp))"

lemma part_wf_update [simp]:
  "part_wf (pp\<lparr>pp_state := st\<rparr>) = part_wf pp" "part_wf (pp\<lparr>pp_dest := d\<rparr>) = part_wf pp"
  by (simp_all add: part_wf_def)

lemma overlay_length: "overlay b buf = Some buf' \<Longrightarrow> length buf' = length buf"
  by (auto simp: overlay_def split: if_splits)

lemma dest_store_wf: "dest_store d b p = Some p' \<Longrightarrow> image_wf p \<Longrightarrow> image_wf p' \<and> pi_index p' = pi_index p"
  by (auto simp: dest_store_def image_wf_def overlay_length split: part_dest.splits)

lemma images_wf_head:
  "images_wf (im # ims) \<Longrightarrow> image_wf im' \<Longrightarrow> pi_index im' = pi_index im \<Longrightarrow> images_wf (im' # ims)"
  by (auto simp: images_wf_def)

lemma images_wf_Cons: "images_wf (im # ims) \<Longrightarrow> image_wf im"
  by (simp add: images_wf_def)

lemma store_dest_wf: "store_dest pp b = Some pp' \<Longrightarrow> part_wf pp \<Longrightarrow> part_wf pp'"
proof -
  assume eq: "store_dest pp b = Some pp'" and wf: "part_wf pp"
  show ?thesis
  proof (cases "pp' = pp")
    case False
    with eq obtain d im ims im' where d: "pp_images pp = im # ims" "dest_store d b im = Some im'"
      "pp' = pp\<lparr>pp_images := im' # ims\<rparr>"
      by (auto simp: store_dest_def split: option.splits list.splits)
    have "images_wf (im # ims)" using wf d(1) by (simp add: part_wf_def)
    moreover from this dest_store_wf [OF d(2)] have "image_wf im'" "pi_index im' = pi_index im"
      by (auto dest: images_wf_Cons)
    ultimately have "images_wf (im' # ims)" by (rule images_wf_head)
    with wf d show ?thesis by (simp add: part_wf_def)
  qed (use wf in simp)
qed

lemma add_image_boot_arg_wf: "add_image_boot_arg e pp token = Some pp' \<Longrightarrow> part_wf pp \<Longrightarrow> part_wf pp'"
proof (cases "pp_images pp")
  case (Cons im ims)
  assume eq: "add_image_boot_arg e pp token = Some pp'" and wf: "part_wf pp"
  define im' where "im' = im\<lparr>pi_boot_args := pi_boot_args im @ [pp_key pp @ ''='' @ token]\<rparr>"
  have im: "images_wf (im # ims)" using wf Cons by (simp add: part_wf_def)
  from eq Cons have pp': "pp' = pp\<lparr>pp_images := im' # ims\<rparr>" "length (pi_boot_args im) < 32"
    by (auto simp: add_image_boot_arg_def im'_def Let_def split: if_splits)
  have "image_wf im'" using images_wf_Cons [OF im] pp'(2) by (simp add: image_wf_def im'_def)
  with im have "images_wf (im' # ims)" by (rule images_wf_head) (simp add: im'_def)
  with pp'(1) wf Cons show ?thesis by (simp add: part_wf_def)
qed (simp add: add_image_boot_arg_def)

lemma part_key_wf:
  assumes "image_wf fresh" "part_wf pp" "part_key e fresh pp token = Continue pp'"
  shows "part_wf pp'"
proof -
  have new: "images_wf (fresh\<lparr>pi_index := pp_index pp, pi_boot_args := []\<rparr> # pp_images pp)"
    using assms(1,2) by (auto simp: part_wf_def images_wf_def image_wf_def)
  show ?thesis
    using assms(2,3) new by (auto simp: part_key_def part_wf_def Let_def split: if_splits)
qed

lemma part_value_wf: "part_wf pp \<Longrightarrow> part_value e pp t token = Continue pp' \<Longrightarrow> part_wf pp'"
  unfolding part_value_def
  by (auto split: option.splits if_splits intro: store_dest_wf add_image_boot_arg_wf)

lemma part_step_wf:
  "image_wf fresh \<Longrightarrow> part_wf pp \<Longrightarrow> part_step e fresh pp t token = Continue pp' \<Longrightarrow> part_wf pp'"
  unfolding part_step_def by (auto split: if_splits intro: part_key_wf part_value_wf)

lemma part_step_break:
  "part_step e fresh pp t token = Break pp' \<or> part_step e fresh pp t token = Return_error pp' \<Longrightarrow>
   pp_images pp' = pp_images pp \<and> pp_index pp' = pp_index pp"
  by (auto simp: part_step_def part_key_def part_value_def Let_def split: if_splits option.splits)

lemma part_loop_wf:
  "image_wf fresh \<Longrightarrow> part_wf pp \<Longrightarrow>
   part_loop e fresh json pp chs = Break pp' \<or> part_loop e fresh json pp chs = Return_error pp' \<Longrightarrow> part_wf pp'"
proof (induction chs arbitrary: json pp)
  case (Cons ch chs)
  then obtain t j where j: "json_tokenizer json ch = Some (t, j)" by (auto split: option.splits)
  show ?case
  proof (cases "part_step e fresh pp t (cstr (jtoken j))")
    case (Continue q)
    with part_step_wf [OF Cons.prems(1,2) Continue] Cons.IH [of q j] Cons.prems j show ?thesis by simp
  next
    case (Break q)
    with part_step_break [of e fresh pp t "cstr (jtoken j)" q] Cons.prems j show ?thesis by (simp add: part_wf_def)
  next
    case (Return_error q)
    with part_step_break [of e fresh pp t "cstr (jtoken j)" q] Cons.prems j show ?thesis by (simp add: part_wf_def)
  qed (use Cons.prems j in simp_all)
qed auto

lemma parse_images_wf:
  assumes "image_wf fresh" "ssbl_parse_part_file e fresh m = Some (rc, images)"
  shows "images_wf images"
proof -
  have start: "part_wf part_start" by (simp add: part_wf_def part_start_def images_wf_def)
  consider "images = []" | pp content where "images = pp_images pp"
      "part_loop e fresh json_init part_start (map Some content @ [None]) = Break pp \<or>
       part_loop e fresh json_init part_start (map Some content @ [None]) = Return_error pp"
    using assms(2) by (auto simp: ssbl_parse_part_file_def split: if_splits option.splits part_next.splits)
  then show ?thesis
  proof cases
    case 2
    from part_loop_wf [OF assms(1) start 2(2)] show ?thesis by (simp add: 2(1) part_wf_def)
  qed (simp add: images_wf_def)
qed

lemma find_index:
  assumes "images_wf images" "k < length images"
  shows "find (\<lambda>p. int k = pi_index p) images = Some (rev images ! k)"
proof -
  have idx: "pi_index (rev images ! i) = int i" if "i < length images" for i
  proof -
    have "map pi_index (rev images) ! i = map int [0..<length images] ! i"
      using assms(1) by (simp add: images_wf_def)
    with that show ?thesis by simp
  qed
  have rev: "images ! i = rev images ! (length images - 1 - i)" if "i < length images" for i
    using that by (simp add: rev_nth)
  show ?thesis
    unfolding find_Some_iff
  proof (intro exI conjI allI impI)
    show "length images - 1 - k < length images" using assms(2) by simp
    show "int k = pi_index (images ! (length images - 1 - k))"
      using rev [of "length images - 1 - k"] idx [OF assms(2)] assms(2) by simp
    show "rev images ! k = images ! (length images - 1 - k)"
      using assms(2) by (simp add: rev_nth)
    fix j assume j: "j < length images - 1 - k"
    then have "pi_index (images ! j) = int (length images - 1 - j)"
      using rev [of j] idx [of "length images - 1 - j"] by simp
    with j show "int k \<noteq> pi_index (images ! j)" by simp
  qed
qed

lemma find_index_None:
  assumes "images_wf images" "k < 0 \<or> int (length images) \<le> k"
  shows "find (\<lambda>p. k = pi_index p) images = None"
proof -
  have "pi_index ` set images = int ` {0..<length images}"
    using assms(1) by (metis images_wf_def set_map set_rev set_upt)
  then have "0 \<le> pi_index p \<and> pi_index p < int (length images)" if "p \<in> set images" for p
    using that by (metis atLeastLessThan_iff imageE image_eqI of_nat_0_le_iff of_nat_less_iff)
  with assms(2) show ?thesis by (fastforce simp: find_None_iff)
qed

section \<open>Sections in RAM\<close>

lemma read_section_loop_ok:
  assumes nor: "nor_flash ops cell"
  shows "unat a + len \<le> 2 ^ 32 \<Longrightarrow>
    read_section_loop ops dev a p len ram = put ram p (map (\<lambda>i. cell dev (unat a + i)) [0..<len])"
proof (induction len arbitrary: a p ram rule: less_induct)
  case (less len)
  show ?case
  proof (cases "len = 0")
    case True
    then show ?thesis by (simp add: read_section_loop.simps)
  next
    case False
    define n where "n = min len 4096"
    have n: "0 < n" "n \<le> len" using False by (auto simp: n_def)
    have n_if: "(if len > 4096 then 4096 else len) = n" by (simp add: n_def min_def)
    let ?data = "map (\<lambda>i. cell dev (unat a + i)) [0..<len]"
    have rd: "spi_mem_read ops dev a n = take n ?data"
      using nor_flash_read [OF nor, of a n dev] less.prems n by (simp add: take_map)
    have step: "read_section_loop ops dev a p len ram =
        read_section_loop ops dev (a + word_of_nat n) (p + n) (len - n) (put ram p (take n ?data))"
      using False by (subst read_section_loop.simps) (simp add: n_if rd Let_def del: take_map)
    show ?thesis
    proof (cases "n = len")
      case True
      with step show ?thesis by (simp add: read_section_loop.simps)
    next
      case False
      then have u: "unat (a + word_of_nat n) = unat a + n"
        using less.prems n by (simp add: unat_word_ariths unat_of_nat)
      have "map (\<lambda>i. cell dev (unat a + n + i)) [0..<len - n] = drop n ?data"
        using n by (intro nth_equalityI) (simp_all add: add.assoc less_diff_conv add.commute [of n])
      with less.IH [of "len - n" "a + word_of_nat n" "p + n" "put ram p (take n ?data)"] n less.prems u step
      show ?thesis by (simp add: put_take_drop del: take_map drop_map)
    qed
  qed
qed

text \<open>What the image asks for: the section headers in order, and the copies the loader owes them.\<close>

definition elf_ehdr :: "('d \<Rightarrow> nat \<Rightarrow> byte) \<Rightarrow> 'd \<Rightarrow> u32 \<Rightarrow> elf32_ehdr" where
  "elf_ehdr cell dev flash = ehdr_of (map (\<lambda>i. cell dev (unat flash + i)) [0..<52])"

definition flash_bytes :: "('d \<Rightarrow> nat \<Rightarrow> byte) \<Rightarrow> 'd \<Rightarrow> u32 \<Rightarrow> nat \<Rightarrow> byte list" where
  "flash_bytes cell dev a n = map (\<lambda>i. cell dev (unat a + i)) [0..<n]"

definition elf_shdr :: "('d \<Rightarrow> nat \<Rightarrow> byte) \<Rightarrow> 'd \<Rightarrow> u32 \<Rightarrow> u32 \<Rightarrow> nat \<Rightarrow> elf32_shdr" where
  "elf_shdr cell dev flash off k = shdr_of (flash_bytes cell dev (flash + (off + word_of_nat k * 40)) 40)"

definition copied :: "byte list \<Rightarrow> elf32_shdr \<Rightarrow> bool" where
  "copied names sh \<longleftrightarrow> match_any (drop (unat (sh_name sh)) names) ram_sections = Some True"

definition copy_section ::
    "('d \<Rightarrow> nat \<Rightarrow> byte) \<Rightarrow> 'd \<Rightarrow> u32 \<Rightarrow> byte list \<Rightarrow> (nat \<Rightarrow> byte) \<Rightarrow> elf32_shdr \<Rightarrow> (nat \<Rightarrow> byte)" where
  "copy_section cell dev flash names ram sh =
     (if copied names sh \<and> sh_addr sh \<noteq> 0
      then put ram (unat (sh_addr sh)) (flash_bytes cell dev (flash + sh_offset sh) (unat (sh_size sh)))
      else ram)"

text \<open>The place of the overlay after a section: the last \<open>.virt\<close> section counts.\<close>

definition virt_at :: "byte list \<Rightarrow> u32 \<Rightarrow> u32 \<Rightarrow> elf32_shdr \<Rightarrow> u32" where
  "virt_at names flash vm sh =
     (if strcmp_at (drop (unat (sh_name sh)) names) ''.virt'' = Some True then flash + sh_offset sh else vm)"

definition in_flash :: "u32 \<Rightarrow> nat \<Rightarrow> bool" where
  "in_flash a n \<longleftrightarrow> unat a + n \<le> 2 ^ 32"

lemma ssbl_read_section_ok:
  assumes "nor_flash ops cell" "in_flash a (unat len)"
  shows "ssbl_read_section ops dev a addr len ram =
    (if addr \<noteq> 0 then put ram (unat addr) (flash_bytes cell dev a (unat len)) else ram)"
  using read_section_loop_ok [OF assms(1), of a "unat len" dev] assms(2)
  by (simp add: ssbl_read_section_def flash_bytes_def in_flash_def)

lemma section_loop_ok:
  assumes nor: "nor_flash ops cell"
  shows "section_loop ops dev flash names n off app s = Loaded s' \<Longrightarrow>
    (\<And>k. k < n \<Longrightarrow> in_flash (flash + (off + word_of_nat k * 40)) 40 \<and>
       in_flash (flash + sh_offset (elf_shdr cell dev flash off k)) (unat (sh_size (elf_shdr cell dev flash off k)))) \<Longrightarrow>
    s_ram s' = foldl (copy_section cell dev flash names) (s_ram s) (map (elf_shdr cell dev flash off) [0..<n]) \<and>
    s_vm s' = foldl (virt_at names flash) (s_vm s) (map (elf_shdr cell dev flash off) [0..<n]) \<and>
    s_boot_arg_p s' = s_boot_arg_p s \<and> s_argc s' = s_argc s"
proof (induction n arbitrary: off app s)
  case (Suc n)
  define sh where "sh = elf_shdr cell dev flash off 0"
  have in0: "in_flash (flash + off) 40" "in_flash (flash + sh_offset sh) (unat (sh_size sh))"
    using Suc.prems(2) [of 0] by (simp_all add: sh_def)
  have sh: "shdr_of (spi_mem_read ops dev (flash + off) 40) = sh"
    using nor_flash_read [OF nor, of "flash + off" 40] in0(1)
    by (simp add: sh_def elf_shdr_def flash_bytes_def in_flash_def)
  have shift: "elf_shdr cell dev flash (off + 40) = (\<lambda>k. elf_shdr cell dev flash off (Suc k))"
    by (rule ext) (simp add: elf_shdr_def algebra_simps)
  have list: "map (elf_shdr cell dev flash off) [0..<Suc n] = sh # map (elf_shdr cell dev flash (off + 40)) [0..<n]"
    by (simp add: sh_def upt_conv_Cons shift map_Suc_upt [symmetric] del: upt_Suc)
  from Suc.prems(1) sh obtain r v g where m: "match_any (drop (unat (sh_name sh)) names) ram_sections = Some r"
    "strcmp_at (drop (unat (sh_name sh)) names) ''.virt'' = Some v"
    "strcmp_at (drop (unat (sh_name sh)) names) ''.signature'' = Some g"
    by (auto simp: Let_def split: option.splits)
  define s1 where "s1 = (if r then s\<lparr>s_ram := ssbl_read_section ops dev (flash + sh_offset sh) (sh_addr sh) (sh_size sh) (s_ram s)\<rparr> else s)"
  define s2 where "s2 = (if v then s1\<lparr>s_vm := flash + sh_offset sh\<rparr> else s1)"
  have "section_loop ops dev flash names n (off + 40) (if r then app + sh_size sh else app) s2 = Loaded s'"
    using Suc.prems(1) by (simp add: sh m Let_def s1_def s2_def split: if_splits)
  from Suc.IH [OF this] Suc.prems(2) [of "Suc k" for k] have
    IH: "s_ram s' = foldl (copy_section cell dev flash names) (s_ram s2) (map (elf_shdr cell dev flash (off + 40)) [0..<n])"
      "s_vm s' = foldl (virt_at names flash) (s_vm s2) (map (elf_shdr cell dev flash (off + 40)) [0..<n])"
      "s_boot_arg_p s' = s_boot_arg_p s2" "s_argc s' = s_argc s2"
    by (simp_all add: shift algebra_simps)
  have "s_ram s2 = copy_section cell dev flash names (s_ram s) sh"
    using m(1) ssbl_read_section_ok [OF nor in0(2)] by (simp add: s2_def s1_def copy_section_def copied_def)
  moreover have "s_vm s2 = virt_at names flash (s_vm s) sh"
    using m(2) by (simp add: s2_def s1_def virt_at_def)
  ultimately show ?case using IH by (simp add: list s2_def s1_def del: upt_Suc)
qed simp

text \<open>A section whose name ends inside the buffer, and the bytes the loader counts for it.\<close>

definition named :: "byte list \<Rightarrow> elf32_shdr \<Rightarrow> bool" where
  "named names sh \<longleftrightarrow>
     (let name = drop (unat (sh_name sh)) names
      in match_any name ram_sections \<noteq> None \<and> strcmp_at name ''.virt'' \<noteq> None \<and> strcmp_at name ''.signature'' \<noteq> None)"

definition ram_size :: "byte list \<Rightarrow> elf32_shdr \<Rightarrow> nat" where
  "ram_size names sh = (if copied names sh then unat (sh_size sh) else 0)"

lemma section_loop_loads:
  assumes nor: "nor_flash ops cell"
  shows "(\<And>k. k < n \<Longrightarrow> in_flash (flash + (off + word_of_nat k * 40)) 40 \<and> named names (elf_shdr cell dev flash off k)) \<Longrightarrow>
    unat app + sum_list (map (ram_size names) (map (elf_shdr cell dev flash off) [0..<n])) < 0x3e000 \<Longrightarrow>
    \<exists>s'. section_loop ops dev flash names n off app s = Loaded s'"
proof (induction n arbitrary: off app s)
  case (Suc n)
  define sh where "sh = elf_shdr cell dev flash off 0"
  have in0: "in_flash (flash + off) 40" and nm: "named names sh" using Suc.prems(1) [of 0] by (simp_all add: sh_def)
  have sh: "shdr_of (spi_mem_read ops dev (flash + off) 40) = sh"
    using nor_flash_read [OF nor, of "flash + off" 40] in0
    by (simp add: sh_def elf_shdr_def flash_bytes_def in_flash_def)
  have shift: "elf_shdr cell dev flash (off + 40) = (\<lambda>k. elf_shdr cell dev flash off (Suc k))"
    by (rule ext) (simp add: elf_shdr_def algebra_simps)
  have list: "map (elf_shdr cell dev flash off) [0..<Suc n] = sh # map (elf_shdr cell dev flash (off + 40)) [0..<n]"
    by (simp add: sh_def upt_conv_Cons shift map_Suc_upt [symmetric] del: upt_Suc)
  from nm obtain r v g where m: "match_any (drop (unat (sh_name sh)) names) ram_sections = Some r"
    "strcmp_at (drop (unat (sh_name sh)) names) ''.virt'' = Some v"
    "strcmp_at (drop (unat (sh_name sh)) names) ''.signature'' = Some g"
    by (auto simp: named_def Let_def)
  define app' where "app' = (if r then app + sh_size sh else app)"
  have size: "unat app + ram_size names sh + sum_list (map (ram_size names) (map (elf_shdr cell dev flash (off + 40)) [0..<n])) < 0x3e000"
    using Suc.prems(2) by (simp add: list del: upt_Suc)
  have app': "unat app' = unat app + ram_size names sh"
    using size m(1) by (auto simp: app'_def ram_size_def copied_def unat_word_ariths)
  have small: "\<not> (r \<and> 0x3e000 \<le> app')"
    using size app' by (simp add: word_le_nat_alt)
  have step: "\<exists>s'. section_loop ops dev flash names n (off + 40) app' s2 = Loaded s'" for s2
  proof (rule Suc.IH)
    fix k assume "k < n"
    then show "in_flash (flash + (off + 40 + word_of_nat k * 40)) 40 \<and> named names (elf_shdr cell dev flash (off + 40) k)"
      using Suc.prems(1) [of "Suc k"] by (simp add: shift algebra_simps)
  qed (use size app' in simp)
  have "section_loop ops dev flash names (Suc n) off app s =
      (if r \<and> 0x3e000 \<le> app' then Too_big s
       else section_loop ops dev flash names n (off + 40) app'
         (let s = (if r then s\<lparr>s_ram := ssbl_read_section ops dev (flash + sh_offset sh) (sh_addr sh) (sh_size sh) (s_ram s)\<rparr> else s)
          in if v then s\<lparr>s_vm := flash + sh_offset sh\<rparr> else s))"
    by (simp add: sh m app'_def Let_def)
  with small step show ?case by presburger
qed simp

section \<open>Arguments in RAM\<close>

definition holds :: "(nat \<Rightarrow> byte) \<Rightarrow> nat \<Rightarrow> byte list \<Rightarrow> bool" where
  "holds ram p bs \<longleftrightarrow> (\<forall>i < length bs. ram (p + i) = bs ! i)"

definition arg_block :: "string list \<Rightarrow> byte list" where
  "arg_block args = concat (map (\<lambda>a. bytes a @ [0]) args)"

text \<open>The arguments as the loader keeps them: the last one added lies lowest and comes first.\<close>

definition args_at :: "ssbl \<Rightarrow> string list \<Rightarrow> bool" where
  "args_at s args \<longleftrightarrow> s_argc s = length args \<and> holds (s_ram s) (s_boot_arg_p s) (arg_block args) \<and>
     s_boot_arg_p s + length (arg_block args) = 0xbfffc"

lemma arg_block_Nil [simp]: "arg_block [] = []"
  by (simp add: arg_block_def)

lemma arg_block_Cons [simp]: "arg_block (a # args) = bytes a @ 0 # arg_block args"
  by (simp add: arg_block_def)

lemma length_bytes [simp]: "length (bytes a) = length a"
  by (simp add: bytes_def)

lemma holds_append: "holds ram p (xs @ ys) \<longleftrightarrow> holds ram p xs \<and> holds ram (p + length xs) ys"
proof -
  have "(\<forall>i < length xs + length ys. ram (p + i) = (xs @ ys) ! i) \<longleftrightarrow>
      (\<forall>i < length xs. ram (p + i) = xs ! i) \<and> (\<forall>i < length ys. ram (p + length xs + i) = ys ! i)"
    (is "?L \<longleftrightarrow> ?R")
  proof
    assume L: ?L
    show ?R
    proof (intro conjI allI impI)
      fix i assume "i < length xs"
      then show "ram (p + i) = xs ! i" using spec [OF L, of i] by (simp add: nth_append)
    next
      fix i assume "i < length ys"
      then show "ram (p + length xs + i) = ys ! i" using spec [OF L, of "length xs + i"] by (simp add: add.assoc)
    qed
  next
    assume R: ?R
    show ?L
    proof (intro allI impI)
      fix i assume i: "i < length xs + length ys"
      show "ram (p + i) = (xs @ ys) ! i"
      proof (cases "i < length xs")
        case False
        with i R show ?thesis by (auto simp: nth_append dest!: spec [of _ "i - length xs"])
      qed (use R in \<open>simp add: nth_append\<close>)
    qed
  qed
  then show ?thesis by (simp add: holds_def)
qed

lemma holds_cong: "(\<And>i. i < length bs \<Longrightarrow> ram' (p + i) = ram (p + i)) \<Longrightarrow> holds ram' p bs = holds ram p bs"
  by (simp add: holds_def)

lemma holds_Cons: "holds ram p (b # bs) \<longleftrightarrow> ram p = b \<and> holds ram (p + 1) bs"
  using holds_append [of ram p "[b]" bs] by (simp add: holds_def)

lemma add_boot_arg_at:
  assumes "args_at s args" "length arg + 1 \<le> s_boot_arg_p s"
  shows "args_at (ssbl_add_boot_arg s arg) (arg # args)"
proof -
  define p q where "p = s_boot_arg_p s" "q = p - 1 - length arg"
  have pq: "q + length arg + 1 = p" using assms(2) by (simp add: p_q_def)
  define ram where "ram = put ((s_ram s)(p - 1 := 0)) q (bytes arg)"
  have "holds ram q (bytes arg)" by (simp add: holds_def ram_def put_def)
  moreover have "ram (q + length arg) = 0" using pq by (auto simp: ram_def put_def)
  moreover have "holds ram (q + length arg + 1) (arg_block args) = holds (s_ram s) p (arg_block args)"
    unfolding pq by (rule holds_cong) (use pq in \<open>auto simp: ram_def put_def\<close>)
  ultimately show ?thesis
    using assms(1) pq by (simp add: args_at_def ssbl_add_boot_arg_def Let_def holds_append holds_Cons ram_def p_q_def)
qed

lemma add_boot_args_at:
  "args_at s args \<Longrightarrow> sum_list (map (\<lambda>a. length a + 1) new) \<le> s_boot_arg_p s \<Longrightarrow>
   args_at (foldl ssbl_add_boot_arg s new) (rev new @ args)"
proof (induction new arbitrary: s args)
  case (Cons a new)
  have "s_boot_arg_p (ssbl_add_boot_arg s a) = s_boot_arg_p s - (length a + 1)"
    by (simp add: ssbl_add_boot_arg_def Let_def)
  with Cons.IH [OF add_boot_arg_at [OF Cons.prems(1)], of a] Cons.prems(2) show ?case by simp
qed simp

lemma byte_of_0: "byte_of c = 0 \<longleftrightarrow> c = NUL"
proof -
  have "byte_of NUL = 0" by (simp add: byte_of_def)
  then show ?thesis by (metis char_of_byte_of)
qed

lemma skip_str_ok: "NUL \<notin> set a \<Longrightarrow> holds ram p (bytes a @ [0]) \<Longrightarrow> skip_str ram p = Some (p + length a + 1)"
proof (induction a arbitrary: p)
  case Nil
  then show ?case by (subst skip_str.simps) (simp add: holds_def bytes_def)
next
  case (Cons c a)
  then have "ram p \<noteq> 0" "holds ram (p + 1) (bytes a @ [0])" "NUL \<notin> set a"
    by (auto simp: bytes_def holds_Cons byte_of_0)
  with Cons.IH [of "p + 1"] show ?case by (subst skip_str.simps) simp
qed

lemma length_le_bytes [simp]: "length (le_bytes p) = 4"
  by (simp add: le_bytes_def le32_def)

lemma build_argv_ok:
  "\<forall>a \<in> set args. NUL \<notin> set a \<Longrightarrow> holds ram ptr (arg_block args) \<Longrightarrow> av + 4 * length args \<le> ptr \<Longrightarrow>
   \<exists>ram'. ssbl_build_argv (length args) av ptr ram = Some ram' \<and>
     (\<forall>x. x < av \<or> av + 4 * length args \<le> x \<longrightarrow> ram' x = ram x) \<and>
     (\<forall>i < length args. holds ram' (av + 4 * i) (le_bytes (ptr + length (arg_block (take i args)))))"
proof (induction args arbitrary: av ptr ram)
  case (Cons a args)
  define r where "r = put ram av (le_bytes ptr)"
  define nx where "nx = ptr + length a + 1"
  have r: "r x = ram x" if "x < av \<or> av + 4 \<le> x" for x using that by (auto simp: r_def put_def)
  have "holds r ptr (arg_block (a # args)) = holds ram ptr (arg_block (a # args))"
    by (rule holds_cong) (use Cons.prems(3) r in auto)
  with Cons.prems(2) have h: "holds r ptr (bytes a @ [0])" "holds r nx (arg_block args)"
    using holds_append [of r ptr "bytes a @ [0]" "arg_block args"] by (simp_all add: nx_def add.assoc)
  have sk: "skip_str r ptr = Some nx" using skip_str_ok [OF _ h(1)] Cons.prems(1) by (simp add: nx_def)
  from Cons.IH [OF _ h(2), of "av + 4"] Cons.prems obtain ram' where
    ram': "ssbl_build_argv (length args) (av + 4) nx r = Some ram'"
      "\<And>x. x < av + 4 \<or> av + 4 + 4 * length args \<le> x \<Longrightarrow> ram' x = r x"
      "\<And>i. i < length args \<Longrightarrow> holds ram' (av + 4 + 4 * i) (le_bytes (nx + length (arg_block (take i args))))"
    by (auto simp: nx_def)
  have "holds ram' av (le_bytes ptr)"
    using ram'(2) by (simp add: holds_def r_def put_def)
  moreover have "holds ram' (av + 4 * i) (le_bytes (ptr + length (arg_block (take i (a # args)))))"
    if "i < length (a # args)" "i \<noteq> 0" for i
  proof -
    from that obtain j where "i = Suc j" "j < length args" by (cases i) auto
    with ram'(3) [of j] show ?thesis by (simp add: nx_def algebra_simps)
  qed
  ultimately have "\<forall>i < length (a # args). holds ram' (av + 4 * i) (le_bytes (ptr + length (arg_block (take i (a # args)))))"
    by (metis add.right_neutral arg_block_Nil list.size(3) mult_0_right take0 take_0)
  moreover have "\<forall>x. x < av \<or> av + 4 * length (a # args) \<le> x \<longrightarrow> ram' x = ram x"
    using ram'(2) r by auto
  moreover have "ssbl_build_argv (length (a # args)) av ptr ram = Some ram'"
    using sk ram'(1) by (simp add: r_def Let_def)
  ultimately show ?case by blast
qed simp

section \<open>Properties\<close>

definition elf_names :: "('d \<Rightarrow> nat \<Rightarrow> byte) \<Rightarrow> 'd \<Rightarrow> byte list \<Rightarrow> u32 \<Rightarrow> byte list" where
  "elf_names cell dev junk flash =
     (let eh = elf_ehdr cell dev flash;
          sh = elf_shdr cell dev flash (e_shoff eh) (unat (e_shstrndx eh));
          bs = flash_bytes cell dev (flash + sh_offset sh) (unat (sh_size sh))
      in bs @ drop (length bs) junk)"

definition elf_sections :: "('d \<Rightarrow> nat \<Rightarrow> byte) \<Rightarrow> 'd \<Rightarrow> u32 \<Rightarrow> elf32_shdr list" where
  "elf_sections cell dev flash =
     (let eh = elf_ehdr cell dev flash
      in map (elf_shdr cell dev flash (e_shoff eh)) [0..<unat (e_shnum eh)])"

text \<open>Everything the loader reads lies inside the 32-bit flash address space.\<close>

definition elf_readable :: "('d \<Rightarrow> nat \<Rightarrow> byte) \<Rightarrow> 'd \<Rightarrow> u32 \<Rightarrow> bool" where
  "elf_readable cell dev flash \<longleftrightarrow>
     (let eh = elf_ehdr cell dev flash;
          str = elf_shdr cell dev flash (e_shoff eh) (unat (e_shstrndx eh))
      in in_flash flash 52 \<and>
         in_flash (flash + (e_shoff eh + word_of_nat (unat (e_shstrndx eh)) * 40)) 40 \<and>
         in_flash (flash + sh_offset str) (unat (sh_size str)) \<and>
         (\<forall>k < unat (e_shnum eh). in_flash (flash + (e_shoff eh + word_of_nat k * 40)) 40 \<and>
            in_flash (flash + sh_offset (elf_shdr cell dev flash (e_shoff eh) k))
              (unat (sh_size (elf_shdr cell dev flash (e_shoff eh) k)))))"

lemma nor_flash_bytes: "nor_flash ops cell \<Longrightarrow> in_flash a n \<Longrightarrow> spi_mem_read ops dev a n = flash_bytes cell dev a n"
  by (simp add: nor_flash_read flash_bytes_def in_flash_def)

lemma load_elf_ok:
  assumes nor: "nor_flash ops cell" and rd: "elf_readable cell dev flash"
    and ld: "ssbl_load_elf e ops dev junk s flash = Some (0, s')"
  shows "ehdr_ok (elf_ehdr cell dev flash) \<and> s_entry s' = e_entry (elf_ehdr cell dev flash) \<and>
    s_ram s' = foldl (copy_section cell dev flash (elf_names cell dev junk flash)) (s_ram s) (elf_sections cell dev flash) \<and>
    s_vm s' = foldl (virt_at (elf_names cell dev junk flash) flash) (s_vm s) (elf_sections cell dev flash) \<and>
    s_boot_arg_p s' = s_boot_arg_p s \<and> s_argc s' = s_argc s"
proof -
  define eh where "eh = elf_ehdr cell dev flash"
  define str where "str = elf_shdr cell dev flash (e_shoff eh) (unat (e_shstrndx eh))"
  note r = rd [unfolded elf_readable_def Let_def, folded eh_def, folded str_def]
  have 1: "ehdr_of (spi_mem_read ops dev flash 52) = eh"
    using nor_flash_bytes [OF nor, of flash 52 dev] r by (simp add: eh_def elf_ehdr_def flash_bytes_def)
  have 2: "shdr_of (spi_mem_read ops dev (flash + (e_shoff eh + ucast (e_shstrndx eh) * 40)) 40) = str"
    using nor_flash_bytes [OF nor] r by (simp add: str_def elf_shdr_def)
  have 3: "spi_mem_read ops dev (flash + sh_offset str) (unat (sh_size str)) = flash_bytes cell dev (flash + sh_offset str) (unat (sh_size str))"
    using nor_flash_bytes [OF nor] r by simp
  have names: "elf_names cell dev junk flash = flash_bytes cell dev (flash + sh_offset str) (unat (sh_size str)) @
      drop (length (flash_bytes cell dev (flash + sh_offset str) (unat (sh_size str)))) junk"
    by (simp add: elf_names_def Let_def eh_def str_def)
  have al: "os_alloc e 1024" and ok: "ehdr_ok eh"
    using ld by (auto simp: ssbl_load_elf_def 1 Let_def split: if_splits)
  from ld al ok obtain s1 where
    s1: "section_loop ops dev flash (elf_names cell dev junk flash) (unat (e_shnum eh)) (e_shoff eh) 0 s = Loaded s1"
      "s' = s1\<lparr>s_entry := e_entry eh\<rparr>"
    by (auto simp: ssbl_load_elf_def 1 2 3 Let_def names split: if_splits elf_result.splits)
  have "s_ram s1 = foldl (copy_section cell dev flash (elf_names cell dev junk flash)) (s_ram s)
      (map (elf_shdr cell dev flash (e_shoff eh)) [0..<unat (e_shnum eh)]) \<and>
    s_vm s1 = foldl (virt_at (elf_names cell dev junk flash) flash) (s_vm s)
      (map (elf_shdr cell dev flash (e_shoff eh)) [0..<unat (e_shnum eh)]) \<and>
    s_boot_arg_p s1 = s_boot_arg_p s \<and> s_argc s1 = s_argc s"
    by (rule section_loop_ok [OF nor s1(1)]) (use r in auto)
  with ok s1(2) show ?thesis by (simp add: elf_sections_def Let_def eh_def [symmetric])
qed

text \<open>Where the overlay of an image lies in flash: at its last \<open>.virt\<close> section; 0 without one.\<close>

definition elf_vm :: "('d \<Rightarrow> nat \<Rightarrow> byte) \<Rightarrow> 'd \<Rightarrow> byte list \<Rightarrow> u32 \<Rightarrow> u32" where
  "elf_vm cell dev junk flash = foldl (virt_at (elf_names cell dev junk flash) flash) 0 (elf_sections cell dev flash)"

text \<open>An image that the loader takes: a header that passes the checks, names that fit the buffer, section names that end in
  it, and less than 0x3e000 bytes for RAM.\<close>

definition elf_loadable :: "('d \<Rightarrow> nat \<Rightarrow> byte) \<Rightarrow> 'd \<Rightarrow> byte list \<Rightarrow> u32 \<Rightarrow> bool" where
  "elf_loadable cell dev junk flash \<longleftrightarrow>
     (let eh = elf_ehdr cell dev flash; names = elf_names cell dev junk flash
      in ehdr_ok eh \<and> unat (sh_size (elf_shdr cell dev flash (e_shoff eh) (unat (e_shstrndx eh)))) \<le> 1024 \<and>
         (\<forall>sh \<in> set (elf_sections cell dev flash). named names sh) \<and>
         sum_list (map (ram_size names) (elf_sections cell dev flash)) < 0x3e000)"

lemma load_elf_loads:
  assumes nor: "nor_flash ops cell" and rd: "elf_readable cell dev flash" and ld: "elf_loadable cell dev junk flash"
    and al: "os_alloc e 1024"
  shows "\<exists>s'. ssbl_load_elf e ops dev junk s flash = Some (0, s')"
proof -
  define eh where "eh = elf_ehdr cell dev flash"
  define str where "str = elf_shdr cell dev flash (e_shoff eh) (unat (e_shstrndx eh))"
  define names where "names = elf_names cell dev junk flash"
  note r = rd [unfolded elf_readable_def Let_def, folded eh_def, folded str_def]
  note l = ld [unfolded elf_loadable_def Let_def, folded eh_def, folded str_def, folded names_def]
  have 1: "ehdr_of (spi_mem_read ops dev flash 52) = eh"
    using nor_flash_bytes [OF nor, of flash 52 dev] r by (simp add: eh_def elf_ehdr_def flash_bytes_def)
  have 2: "shdr_of (spi_mem_read ops dev (flash + (e_shoff eh + ucast (e_shstrndx eh) * 40)) 40) = str"
    using nor_flash_bytes [OF nor] r by (simp add: str_def elf_shdr_def)
  have 3: "spi_mem_read ops dev (flash + sh_offset str) (unat (sh_size str)) = flash_bytes cell dev (flash + sh_offset str) (unat (sh_size str))"
    using nor_flash_bytes [OF nor] r by simp
  have n: "flash_bytes cell dev (flash + sh_offset str) (unat (sh_size str)) @
      drop (length (flash_bytes cell dev (flash + sh_offset str) (unat (sh_size str)))) junk = names"
    by (simp add: names_def elf_names_def Let_def eh_def str_def)
  have "\<exists>s'. section_loop ops dev flash names (unat (e_shnum eh)) (e_shoff eh) 0 s = Loaded s'"
    by (rule section_loop_loads [OF nor]) (use r l in \<open>auto simp: elf_sections_def Let_def eh_def [symmetric]\<close>)
  then show ?thesis
    using al l by (auto simp: ssbl_load_elf_def 1 2 3 Let_def n)
qed

end
