(* ===== verification/Part_File.thy ===== *)
theory Part_File
  imports Ssbl
begin

text \<open>
  The boot loader's reader of \<open>part.json\<close> against the format: what a part file is, as JSON with white space
  wherever JSON allows it, and the proof that the reader returns exactly the images that the file names.
  The character level is handled once, token by token; what remains is the parser's state machine
  over tokens.  The part file of the repository (\<open>root_fs/root/part.json\<close>) is one instance.
\<close>

section \<open>From characters to tokens\<close>

datatype item = Str string | Num int | Punct char

fun item_text :: "item \<Rightarrow> string" where
  "item_text (Str s) = json_quote s"
| "item_text (Num i) = sprintf_d i"
| "item_text (Punct c) = [c]"

text \<open>A text is a list of items, each behind white space of its own, and white space at the end.\<close>

type_synonym layout = "(string \<times> item) list"

definition layout_text :: "layout \<Rightarrow> string \<Rightarrow> string" where
  "layout_text lay tail = concat (map (\<lambda>(w, it). w @ item_text it) lay) @ tail"

fun item_token :: "item \<Rightarrow> json_token" where
  "item_token (Str s) = JSON_STRING"
| "item_token (Num i) = JSON_NUMBER"
| "item_token (Punct c) = the (punct_token c)"

fun item_value :: "item \<Rightarrow> string" where
  "item_value (Str s) = cstr (take 79 s)"
| "item_value (Num i) = sprintf_d i"
| "item_value (Punct c) = [c]"

definition punct_chars :: string where
  "punct_chars = ''[]{},:''"

fun item_ok :: "item \<Rightarrow> bool" where
  "item_ok (Str s) = True"
| "item_ok (Num i) = (- (2 ^ 31) \<le> i \<and> i < 2 ^ 31)"
| "item_ok (Punct c) = (c \<in> set punct_chars)"

definition blanks :: "string \<Rightarrow> bool" where
  "blanks w \<longleftrightarrow> list_all isjsonspace w"

definition layout_ok :: "layout \<Rightarrow> string \<Rightarrow> bool" where
  "layout_ok lay tail \<longleftrightarrow> list_all (\<lambda>(w, it). blanks w) lay \<and> blanks tail"

text \<open>A number ends at the punctuation that follows it, with or without white space between.\<close>

fun delimited :: "item list \<Rightarrow> bool" where
  "delimited [] = True"
| "delimited (Num i # its) = ((case its of Punct c # _ \<Rightarrow> True | _ \<Rightarrow> False) \<and> delimited its)"
| "delimited (Str s # its) = delimited its"
| "delimited (Punct c # its) = delimited its"

definition settled :: "char \<Rightarrow> bool" where
  "settled c \<longleftrightarrow> isjsonspace c \<or> c \<in> set punct_chars"

subsection \<open>A pushed-back character\<close>

text \<open>
  The character that ends a number is pushed back and handled by the next call, before its own character.  When it
  completes a token itself, that call's character is pushed back in turn, so that the tokenizer stays one character
  behind until it meets one that completes nothing.
\<close>

definition put_ungetc :: "char option \<Rightarrow> tok_result \<Rightarrow> tok_result" where
  "put_ungetc x r = (fst r, fst (snd r), (snd (snd r))\<lparr>ungetc := x\<rparr>)"

lemma addc_put_ungetc [simp]: "addc (p\<lparr>ungetc := x\<rparr>) c = (addc p c)\<lparr>ungetc := x\<rparr>"
  by (simp add: addc_def)

lemma put_ungetc_simps [simp]:
  "put_ungetc x (t, b, p) = (t, b, p\<lparr>ungetc := x\<rparr>)"
  "put_ungetc x (if c then r1 else r2) = (if c then put_ungetc x r1 else put_ungetc x r2)"
  "put_ungetc x (case cho of None \<Rightarrow> r1 | Some ch \<Rightarrow> f ch) = (case cho of None \<Rightarrow> put_ungetc x r1 | Some ch \<Rightarrow> put_ungetc x (f ch))"
  by (simp_all add: put_ungetc_def split: option.split)

lemma json_token_start_put: "json_token_start (p\<lparr>ungetc := x\<rparr>) cho = put_ungetc x (json_token_start p cho)"
  by (cases cho; cases p) (simp_all add: json_token_start_def Let_def addc_def split: option.split)

lemma json_token_string_put: "json_token_string (p\<lparr>ungetc := x\<rparr>) cho = put_ungetc x (json_token_string p cho)"
  by (cases cho; cases p) (simp_all add: json_token_string_def Let_def addc_def)

lemma json_token_number_put: "json_token_number (p\<lparr>ungetc := x\<rparr>) cho = put_ungetc x (json_token_number p cho)"
  by (cases cho; cases p) (simp_all add: json_token_number_def Let_def addc_def)

lemma json_token_literal_put: "json_token_literal (p\<lparr>ungetc := x\<rparr>) cho = put_ungetc x (json_token_literal p cho)"
  by (cases cho; cases p) (simp_all add: json_token_literal_def Let_def addc_def)

lemma json_step_put_ungetc:
  "json_step p cho = (r, b, p') \<Longrightarrow> json_step (p\<lparr>ungetc := x\<rparr>) cho = (r, b, p'\<lparr>ungetc := x\<rparr>)"
  by (cases "tokenizer p") (simp_all add: json_step_def json_token_start_put json_token_string_put json_token_number_put json_token_literal_put)

lemma json_idle_step:
  assumes "json_idle q"
  shows "\<exists>t q'. ungetc q' = None \<and> json_tokenizer q (Some u) = Some (t, q') \<and>
    (t = JSON_NONE \<longrightarrow> json_tokenizer (q\<lparr>ungetc := Some u\<rparr>) c = (if c = None then Some (JSON_NONE, q') else json_tokenizer q' c)) \<and>
    (t \<noteq> JSON_NONE \<longrightarrow> json_idle q' \<and> json_tokenizer (q\<lparr>ungetc := Some u\<rparr>) c = Some (t, q'\<lparr>ungetc := c\<rparr>))"
proof -
  have q: "tokenizer q = Tok_start" "ungetc q = None" using assms by (simp_all add: json_idle_def)
  obtain r b p where step: "json_step q (Some u) = (r, b, p)" by (cases "json_step q (Some u)")
  have p: "ungetc p = None" using json_step_ungetc [OF step] q by simp
  have pc: "p\<lparr>ungetc := None\<rparr> = p" using p by simp
  note step' = json_step_put_ungetc [OF step]
  show ?thesis
  proof (cases b)
    case True
    then show ?thesis
      using step step' p pc q
      by (cases "r = JSON_NONE")
        (auto simp: json_tokenizer_def json_loop.simps [of q] json_loop.simps [of "q\<lparr>ungetc := _\<rparr>"] json_idle_def)
  next
    case False
    have r: "r = JSON_NONE" using json_step_start_char [OF step q(1)] False by blast
    obtain r2 b2 p2 where step2: "json_step p (Some u) = (r2, b2, p2)" by (cases "json_step p (Some u)")
    have begun: "r2 = JSON_NONE" "b2"
      using json_step_first [OF step2] json_step_begun [of q u p] step False r by auto
    have p2: "ungetc p2 = None" "p2\<lparr>ungetc := None\<rparr> = p2" using json_step_ungetc [OF step2] p by simp_all
    note step2' = json_step_put_ungetc [OF step2]
    have "json_tokenizer q (Some u) = Some (JSON_NONE, p2)"
      using step step2 r False begun p p2 q
      by (simp add: json_tokenizer_def json_loop.simps [of q] json_loop.simps [of p])
    moreover have "json_tokenizer (q\<lparr>ungetc := Some u\<rparr>) c =
        (if c = None then Some (JSON_NONE, p2) else json_tokenizer p2 c)"
      using step' [of c] step2' [of c] r False begun p2
      by (simp add: json_tokenizer_def json_loop.simps [of "q\<lparr>ungetc := c\<rparr>"] json_loop.simps [of "p\<lparr>ungetc := c\<rparr>"])
    ultimately show ?thesis using p2 by blast
  qed
qed

subsection \<open>Items\<close>

text \<open>A run that delivers one token with its last character.\<close>

definition json_delivers :: "json_parser \<Rightarrow> string \<Rightarrow> json_token \<Rightarrow> json_parser \<Rightarrow> bool" where
  "json_delivers p xs t p' \<longleftrightarrow>
     json_run p (map Some xs) = Some (replicate (length xs - 1) JSON_NONE @ [t], p')"

lemma punct_chars_token: "c \<in> set punct_chars \<Longrightarrow> \<exists>t. punct_token c = Some t \<and> t \<noteq> JSON_NONE \<and> \<not> isjsonspace c"
  by (auto simp: punct_chars_def punct_token_def isjsonspace_def)

lemma settled_end: "settled c \<Longrightarrow> \<not> isdigit c \<and> tolower c \<noteq> CHR ''x''"
  by (auto simp: settled_def isjsonspace_def punct_chars_def ctype_defs)

text \<open>Where the token of an item comes: with its last character, or with the character behind it for a number.\<close>

lemma item_delivered:
  assumes q: "json_idle q" and "item_ok it" "\<nexists>i. it = Num i"
  shows "\<exists>q'. json_delivers q (item_text it) (item_token it) q' \<and> json_idle q' \<and> cstr (jtoken q') = item_value it"
proof (cases it)
  case (Str s)
  from json_run_quote [OF q, of s] obtain p' where
    "json_run q (map Some (json_quote s)) = Some (replicate (length (json_escape s) + 1) JSON_NONE @ [JSON_STRING], p')"
    "json_idle p'" "jtoken p' = take 79 s" by blast
  moreover have "length (json_quote s) - 1 = length (json_escape s) + 1" by (simp add: json_quote_def)
  ultimately show ?thesis using Str by (auto simp: json_delivers_def)
next
  case (Punct c)
  with assms(2) obtain t where t: "punct_token c = Some t" "t \<noteq> JSON_NONE" "\<not> isjsonspace c"
    using punct_chars_token by auto
  have "json_step q (Some c) = (t, True, addc (q\<lparr>jtoken := []\<rparr>) c)"
    using q t by (simp add: json_idle_def json_step_defs)
  from json_tokenizer_complete [OF this t(2)] q
  have "json_tokenizer q (Some c) = Some (t, (addc (q\<lparr>jtoken := []\<rparr>) c)\<lparr>tokenizer := Tok_start\<rparr>)"
    by (simp add: json_idle_def)
  moreover have "c \<noteq> NUL" using Punct assms(2) by (auto simp: punct_chars_def)
  ultimately show ?thesis
    using Punct t q by (auto simp: json_delivers_def addc_def cstr_id json_idle_def)
qed (use assms(3) in simp)

lemma number_delivered:
  assumes q: "json_idle q" and i: "item_ok (Num i)" and c: "settled c"
  shows "\<exists>q'. json_delivers q (sprintf_d i @ [c]) JSON_NUMBER (q'\<lparr>ungetc := Some c\<rparr>) \<and> json_idle q' \<and> cstr (jtoken q') = sprintf_d i"
proof -
  from json_run_sprintf_d [OF q, of i] obtain r where
    r: "json_run q (map Some (sprintf_d i)) = Some (replicate (length (sprintf_d i)) JSON_NONE, r)"
      "in_number r (sprintf_d i)" by blast
  have sp: "json_tokenizer r (Some c) = Some (JSON_NUMBER, r\<lparr>ungetc := Some c, tokenizer := Tok_start\<rparr>)"
    using json_number_end [OF r(2)] settled_end [OF c] by simp
  have "jtoken r = sprintf_d i" using r(2) i length_sprintf_d [of i] by (simp add: in_number_def)
  with r(1) sp have "json_delivers q (sprintf_d i @ [c]) JSON_NUMBER ((r\<lparr>ungetc := None, tokenizer := Tok_start\<rparr>)\<lparr>ungetc := Some c\<rparr>)"
      "cstr (jtoken (r\<lparr>ungetc := None, tokenizer := Tok_start\<rparr>)) = sprintf_d i"
    by (simp_all add: json_delivers_def json_run_append cstr_id sprintf_d_NUL)
  then show ?thesis by (intro exI [of _ "r\<lparr>ungetc := None, tokenizer := Tok_start\<rparr>"]) (simp add: json_idle_def)
qed

section \<open>The reader over tokens\<close>

fun part_items :: "env \<Rightarrow> part_image_info \<Rightarrow> part_parse \<Rightarrow> item list \<Rightarrow> part_next" where
  "part_items e fresh pp [] = Continue pp"
| "part_items e fresh pp (it # its) =
     (case part_step e fresh pp (item_token it) (item_value it) of
        Continue pp \<Rightarrow> part_items e fresh pp its
      | r \<Rightarrow> r)"

lemma part_items_append:
  "part_items e fresh pp (xs @ ys) =
     (case part_items e fresh pp xs of Continue pp \<Rightarrow> part_items e fresh pp ys | r \<Rightarrow> r)"
  by (induction xs arbitrary: pp) (auto split: part_next.splits)

lemma part_step_NONE [simp]: "part_step e fresh pp JSON_NONE token = Continue pp"
  by (simp add: part_step_def part_value_def)

lemma part_loop_quiet:
  "json_run json (map Some xs) = Some (replicate (length xs) JSON_NONE, json') \<Longrightarrow>
   part_loop e fresh json pp (map Some xs @ ys) = part_loop e fresh json' pp ys"
  by (induction xs arbitrary: json) (auto split: option.splits)

lemma part_loop_delivers:
  assumes "json_delivers json xs t json'" "xs \<noteq> []"
  shows "part_loop e fresh json pp (map Some xs @ ys) =
    (case part_step e fresh pp t (cstr (jtoken json')) of
       Continue pp \<Rightarrow> part_loop e fresh json' pp ys | r \<Rightarrow> r)"
proof -
  define ys' z where "ys' = butlast xs" "z = last xs"
  have xs: "xs = ys' @ [z]" using assms(2) by (simp add: ys'_z_def)
  with assms(1) obtain j where
    j: "json_run json (map Some ys') = Some (replicate (length ys') JSON_NONE, j)" "json_tokenizer j (Some z) = Some (t, json')"
    using json_run_length [of json "map Some ys'"]
    by (auto simp: json_delivers_def json_run_append split: option.splits)
  have "map Some xs @ ys = map Some ys' @ Some z # ys" by (simp add: xs)
  then have "part_loop e fresh json pp (map Some xs @ ys) = part_loop e fresh j pp (Some z # ys)"
    using part_loop_quiet [OF j(1), of e fresh pp "Some z # ys"] by simp
  then show ?thesis by (simp add: j(2))
qed

lemma part_loop_blanks:
  "json_idle json \<Longrightarrow> blanks w \<Longrightarrow> part_loop e fresh json pp (map Some w @ ys) = part_loop e fresh json pp ys"
  by (induction w) (simp_all add: blanks_def json_space_quiet)

lemma part_loop_eof: "json_idle json \<Longrightarrow> part_loop e fresh json pp [None] = Break pp"
  by (simp add: json_tokenizer_def json_idle_def json_loop.simps [of json None] json_step_defs part_step_def)

text \<open>The reader does not notice that the tokenizer is one character behind.\<close>

lemma settled_step: "json_idle q \<Longrightarrow> settled u \<Longrightarrow> json_tokenizer q (Some u) = Some (t, q') \<Longrightarrow> json_idle q'"
proof -
  assume q: "json_idle q" and u: "settled u" and eq: "json_tokenizer q (Some u) = Some (t, q')"
  show ?thesis
  proof (cases "isjsonspace u")
    case True
    with q eq json_space_quiet [of q u] show ?thesis by simp
  next
    case False
    with u have "u \<in> set punct_chars" by (simp add: settled_def)
    with item_delivered [OF q, of "Punct u"] eq show ?thesis by (auto simp: json_delivers_def split: option.splits)
  qed
qed

lemma part_loop_lag:
  "json_idle q \<Longrightarrow> settled (last (u # xs)) \<Longrightarrow>
   part_loop e fresh (q\<lparr>ungetc := Some u\<rparr>) pp (map Some xs @ [None]) = part_loop e fresh q pp (map Some (u # xs) @ [None])"
proof (induction xs arbitrary: q u pp)
  case Nil
  from json_idle_step [OF Nil.prems(1), of u None] obtain t q' where
    t: "ungetc q' = None" "json_tokenizer q (Some u) = Some (t, q')"
      "t = JSON_NONE \<Longrightarrow> json_tokenizer (q\<lparr>ungetc := Some u\<rparr>) None = Some (JSON_NONE, q')"
      "t \<noteq> JSON_NONE \<Longrightarrow> json_tokenizer (q\<lparr>ungetc := Some u\<rparr>) None = Some (t, q'\<lparr>ungetc := None\<rparr>)"
    by auto
  have idle: "json_idle q'" using settled_step [OF Nil.prems(1) _ t(2)] Nil.prems(2) by simp
  show ?case
    using t part_loop_eof [OF idle, of e fresh] by (cases "t = JSON_NONE") (simp_all split: part_next.split)
next
  case (Cons x xs)
  from json_idle_step [OF Cons.prems(1), of u "Some x"] obtain t q' where
    t: "ungetc q' = None" "json_tokenizer q (Some u) = Some (t, q')"
      "t = JSON_NONE \<Longrightarrow> json_tokenizer (q\<lparr>ungetc := Some u\<rparr>) (Some x) = json_tokenizer q' (Some x)"
      "t \<noteq> JSON_NONE \<Longrightarrow> json_idle q' \<and> json_tokenizer (q\<lparr>ungetc := Some u\<rparr>) (Some x) = Some (t, q'\<lparr>ungetc := Some x\<rparr>)"
    by auto
  show ?case
  proof (cases "t = JSON_NONE")
    case True
    with t show ?thesis by simp
  next
    case False
    with t Cons.IH [of q' x] Cons.prems(2) show ?thesis by (simp split: part_next.split)
  qed
qed

lemma item_text_nonempty [simp]: "item_text it \<noteq> []"
  by (cases it) (auto simp: json_quote_def sprintf_d_def)

lemma part_loop_item:
  assumes "json_idle json" "item_ok it" "(\<exists>i. it = Num i) \<longrightarrow> xs \<noteq> [] \<and> settled (hd xs) \<and> settled (last xs)"
  shows "\<exists>json'. json_idle json' \<and> part_loop e fresh json pp (map Some (item_text it @ xs) @ [None]) =
    (case part_step e fresh pp (item_token it) (item_value it) of
       Continue pp \<Rightarrow> part_loop e fresh json' pp (map Some xs @ [None]) | r \<Rightarrow> r)"
proof (cases "\<exists>i. it = Num i")
  case True
  then obtain i c ys where it: "it = Num i" "xs = c # ys" "settled c" "settled (last (c # ys))"
    using assms(3) by (cases xs) auto
  from number_delivered [OF assms(1) _ it(3), of i] it(1) assms(2) obtain j where
    j: "json_delivers json (sprintf_d i @ [c]) JSON_NUMBER (j\<lparr>ungetc := Some c\<rparr>)" "json_idle j" "cstr (jtoken j) = sprintf_d i"
    by auto
  have "map Some (item_text it @ xs) @ [None] = map Some (sprintf_d i @ [c]) @ map Some ys @ [None]" by (simp add: it)
  then show ?thesis
    using part_loop_delivers [OF j(1), of e fresh pp "map Some ys @ [None]"] part_loop_lag [OF j(2) it(4), of e fresh]
      j(2,3) it(1,2) by (intro exI [of _ j]) (simp split: part_next.split)
next
  case False
  from item_delivered [OF assms(1,2)] False obtain j where
    j: "json_delivers json (item_text it) (item_token it) j" "json_idle j" "cstr (jtoken j) = item_value it" by blast
  from part_loop_delivers [OF j(1), of e fresh pp "map Some xs @ [None]"] j(2,3) show ?thesis by auto
qed

subsection \<open>Whole texts\<close>

lemma layout_text_Cons: "layout_text ((w, it) # lay) tail = w @ item_text it @ layout_text lay tail"
  by (simp add: layout_text_def)

lemma layout_settled:
  assumes "layout_ok lay tail" "\<forall>it \<in> snd ` set lay. item_ok it" "lay \<noteq> []" "snd (last lay) = Punct c"
  shows "layout_text lay tail \<noteq> []" "settled (last (layout_text lay tail))"
proof -
  obtain lay' w where lay: "lay = lay' @ [(w, Punct c)]" using assms(3,4) by (metis append_butlast_last_id prod.collapse)
  then have eq: "layout_text lay tail = concat (map (\<lambda>(w, it). w @ item_text it) lay') @ w @ c # tail"
    by (simp add: layout_text_def)
  have "settled c" using assms(2) lay by (simp add: settled_def)
  moreover have "\<forall>x \<in> set tail. settled x" using assms(1) by (simp add: layout_ok_def blanks_def list_all_iff settled_def)
  ultimately show "layout_text lay tail \<noteq> []" "settled (last (layout_text lay tail))" unfolding eq by auto
qed

lemma part_loop_layout:
  "json_idle json \<Longrightarrow> layout_ok lay tail \<Longrightarrow> \<forall>it \<in> snd ` set lay. item_ok it \<Longrightarrow> delimited (map snd lay) \<Longrightarrow>
   lay \<noteq> [] \<longrightarrow> (\<exists>c. snd (last lay) = Punct c) \<Longrightarrow>
   part_loop e fresh json pp (map Some (layout_text lay tail) @ [None]) =
     (case part_items e fresh pp (map snd lay) of Continue pp \<Rightarrow> Break pp | r \<Rightarrow> r)"
proof (induction lay arbitrary: json pp)
  case Nil
  then show ?case
    using part_loop_blanks [of json tail e fresh pp "[None]"] part_loop_eof [of json e fresh pp]
    by (simp add: layout_text_def layout_ok_def)
next
  case (Cons a lay)
  obtain w it where a: "a = (w, it)" by (cases a)
  have ok: "blanks w" "layout_ok lay tail" "item_ok it" "\<forall>it \<in> snd ` set lay. item_ok it"
    using Cons.prems(2,3) by (simp_all add: a layout_ok_def)
  have last: "lay \<noteq> [] \<longrightarrow> (\<exists>c. snd (last lay) = Punct c)" using Cons.prems(5) by auto
  have del: "delimited (map snd lay)" using Cons.prems(4) by (cases it) (simp_all add: a)
  have num: "(\<exists>i. it = Num i) \<longrightarrow> layout_text lay tail \<noteq> [] \<and> settled (hd (layout_text lay tail)) \<and> settled (last (layout_text lay tail))"
  proof
    assume "\<exists>i. it = Num i"
    then obtain v c lay' where lay: "lay = (v, Punct c) # lay'"
      using Cons.prems(4) by (cases lay) (auto simp: a split: item.splits)
    then have "settled (hd (layout_text lay tail))"
      using ok(2,4) by (cases v) (simp_all add: layout_text_Cons layout_ok_def blanks_def settled_def)
    with layout_settled [OF ok(2,4)] last lay
    show "layout_text lay tail \<noteq> [] \<and> settled (hd (layout_text lay tail)) \<and> settled (last (layout_text lay tail))" by blast
  qed
  from part_loop_item [OF Cons.prems(1) ok(3) num, of e fresh pp] obtain j where
    j: "json_idle j" "part_loop e fresh json pp (map Some (item_text it @ layout_text lay tail) @ [None]) =
      (case part_step e fresh pp (item_token it) (item_value it) of
         Continue pp \<Rightarrow> part_loop e fresh j pp (map Some (layout_text lay tail) @ [None]) | r \<Rightarrow> r)" by blast
  have "part_loop e fresh json pp (map Some (layout_text (a # lay) tail) @ [None]) =
      part_loop e fresh json pp (map Some (item_text it @ layout_text lay tail) @ [None])"
    using part_loop_blanks [OF Cons.prems(1) ok(1), of e fresh pp "map Some (item_text it @ layout_text lay tail) @ [None]"]
    by (simp add: a layout_text_Cons del: part_loop.simps)
  with j Cons.IH [OF j(1) ok(2,4) del last] show ?case by (simp add: a split: part_next.split)
qed

section \<open>Part files\<close>

record image_spec =
  im_name :: string
  im_version :: string
  im_sector :: int
  im_args :: "(string \<times> string) list"

fun sep_items :: "item list list \<Rightarrow> item list" where
  "sep_items [] = []"
| "sep_items [xs] = xs"
| "sep_items (xs # xss) = xs @ Punct (CHR '','') # sep_items xss"

definition member_items :: "string \<times> item \<Rightarrow> item list" where
  "member_items kv = [Str (fst kv), Punct (CHR '':''), snd kv]"

text \<open>
  An image: the members of the files of the repository, in their order.  The boot arguments stand between
  \<open>bootargs_start\<close> and \<open>bootargs_end\<close>.
\<close>

definition image_members :: "image_spec \<Rightarrow> (string \<times> item) list" where
  "image_members im =
     [(''name'', Str (im_name im)), (''version'', Str (im_version im)), (''start_sector'', Num (im_sector im)),
      (''bootargs_start'', Num 1)] @
     map (\<lambda>(k, v). (k, Str v)) (im_args im) @ [(''bootargs_end'', Num 1)]"

definition image_items :: "image_spec \<Rightarrow> item list" where
  "image_items im = Punct (CHR ''{'') # sep_items (map member_items (image_members im)) @ [Punct (CHR ''}'')]"

text \<open>A part file: the array of images, and other members with string or number values before and after it.\<close>

definition part_file_items :: "(string \<times> item) list \<Rightarrow> image_spec list \<Rightarrow> (string \<times> item) list \<Rightarrow> item list" where
  "part_file_items pre ims post =
     Punct (CHR ''{'') #
     sep_items (map member_items pre @
       [[Str ''image'', Punct (CHR '':''), Punct (CHR ''['')] @ sep_items (map image_items ims) @ [Punct (CHR '']'')]] @
       map member_items post) @
     [Punct (CHR ''}'')]"

text \<open>What fits the loader's buffers, and argument names that are not key words of the format.\<close>

definition reserved_keys :: "string list" where
  "reserved_keys = [''name'', ''version'', ''start_sector'', ''bootargs_start'', ''bootargs_end'']"

definition short_str :: "nat \<Rightarrow> string \<Rightarrow> bool" where
  "short_str n s \<longleftrightarrow> length s < n \<and> NUL \<notin> set s"

definition spec_ok :: "image_spec \<Rightarrow> bool" where
  "spec_ok im \<longleftrightarrow> short_str 64 (im_name im) \<and> short_str 64 (im_version im) \<and>
     - (2 ^ 31) \<le> im_sector im \<and> im_sector im < 2 ^ 31 \<and> length (im_args im) \<le> 32 \<and>
     (\<forall>(k, v) \<in> set (im_args im). short_str 80 k \<and> short_str 80 v \<and> k \<notin> set reserved_keys)"

fun plain_value :: "item \<Rightarrow> bool" where
  "plain_value (Str s) = True"
| "plain_value (Num i) = (- (2 ^ 31) \<le> i \<and> i < 2 ^ 31)"
| "plain_value (Punct c) = False"

definition extra_ok :: "string \<times> item \<Rightarrow> bool" where
  "extra_ok kv \<longleftrightarrow> cstr (take 79 (fst kv)) \<notin> set reserved_keys \<and> plain_value (snd kv)"

subsection \<open>The shape of the token list\<close>

definition closed_items :: "item list \<Rightarrow> bool" where
  "closed_items xs \<longleftrightarrow> (\<forall>c ys. delimited (xs @ Punct c # ys) = delimited ys)"

lemma closed_member: "closed_items (member_items kv)"
  by (cases "snd kv") (simp_all add: closed_items_def member_items_def)

lemma closed_sep: "\<forall>xs \<in> set xss. closed_items xs \<Longrightarrow> closed_items (sep_items xss)"
  by (induction xss rule: sep_items.induct) (simp_all add: closed_items_def)

lemma closed_image: "closed_items (image_items im)"
  using closed_sep [of "map member_items (image_members im)"] closed_member
  by (simp add: closed_items_def image_items_def)

lemma delimited_part_file: "delimited (part_file_items pre ims post)"
proof -
  have "closed_items (sep_items (map image_items ims))" by (rule closed_sep) (simp add: closed_image)
  then have "closed_items ([Str ''image'', Punct (CHR '':''), Punct (CHR ''['')] @ sep_items (map image_items ims) @ [Punct (CHR '']'')])"
    by (simp add: closed_items_def)
  then have "closed_items (sep_items (map member_items pre @
       [[Str ''image'', Punct (CHR '':''), Punct (CHR ''['')] @ sep_items (map image_items ims) @ [Punct (CHR '']'')]] @
       map member_items post))"
    by (intro closed_sep) (auto simp: closed_member)
  then show ?thesis by (simp add: part_file_items_def closed_items_def)
qed

lemma plain_value_ok: "plain_value v \<Longrightarrow> item_ok v"
  by (cases v) simp_all

lemma member_ok: "plain_value (snd kv) \<Longrightarrow> \<forall>it \<in> set (member_items kv). item_ok it"
  by (simp add: member_items_def punct_chars_def plain_value_ok)

lemma sep_items_ok: "\<forall>xs \<in> set xss. \<forall>it \<in> set xs. item_ok it \<Longrightarrow> \<forall>it \<in> set (sep_items xss). item_ok it"
  by (induction xss rule: sep_items.induct) (auto simp: punct_chars_def)

lemma image_items_ok:
  assumes "- (2 ^ 31) \<le> im_sector im" "im_sector im < 2 ^ 31"
  shows "\<forall>it \<in> set (image_items im). item_ok it"
proof -
  have "\<forall>kv \<in> set (image_members im). plain_value (snd kv)" using assms by (auto simp: image_members_def)
  then have "\<forall>it \<in> set (sep_items (map member_items (image_members im))). item_ok it"
    using member_ok by (intro sep_items_ok) auto
  then show ?thesis by (simp add: image_items_def punct_chars_def)
qed

lemma part_file_items_ok:
  assumes "\<forall>kv \<in> set (pre @ post). extra_ok kv" "\<forall>im \<in> set ims. - (2 ^ 31) \<le> im_sector im \<and> im_sector im < 2 ^ 31"
  shows "\<forall>it \<in> set (part_file_items pre ims post). item_ok it"
proof -
  have "\<forall>it \<in> set (sep_items (map image_items ims)). item_ok it" using assms(2) image_items_ok by (intro sep_items_ok) auto
  moreover have "\<forall>xs \<in> set (map member_items (pre @ post)). \<forall>it \<in> set xs. item_ok it"
    using assms(1) member_ok by (auto simp: extra_ok_def)
  ultimately have "\<forall>it \<in> set (sep_items (map member_items pre @
       [[Str ''image'', Punct (CHR '':''), Punct (CHR ''['')] @ sep_items (map image_items ims) @ [Punct (CHR '']'')]] @
       map member_items post)). item_ok it"
    by (intro sep_items_ok) (auto simp: punct_chars_def)
  then show ?thesis by (simp add: part_file_items_def punct_chars_def)
qed

text \<open>The reader takes no notice of braces, closing brackets and commas.\<close>

definition ignored :: "item \<Rightarrow> bool" where
  "ignored it \<longleftrightarrow> it \<in> {Punct (CHR ''{''), Punct (CHR ''}''), Punct (CHR '']''), Punct (CHR '','')}"

lemma part_items_ignored: "part_items e fresh pp (filter (\<lambda>it. \<not> ignored it) its) = part_items e fresh pp its"
proof (induction its arbitrary: pp)
  case (Cons it its)
  have "part_step e fresh pp (item_token it) (item_value it) = Continue pp" if "ignored it"
    using that by (auto simp: ignored_def part_step_def part_value_def punct_token_def)
  with Cons.IH show ?case by (simp split: part_next.split)
qed simp

lemma filter_sep_items:
  "filter (\<lambda>it. \<not> ignored it) (sep_items xss) = concat (map (filter (\<lambda>it. \<not> ignored it)) xss)"
  by (induction xss rule: sep_items.induct) (simp_all add: ignored_def)

lemma filter_members:
  "\<forall>kv \<in> set kvs. plain_value (snd kv) \<Longrightarrow>
   concat (map (\<lambda>kv. filter (\<lambda>it. \<not> ignored it) (member_items kv)) kvs) = concat (map member_items kvs)"
proof (induction kvs)
  case (Cons kv kvs)
  then show ?case by (cases "snd kv") (simp_all add: member_items_def ignored_def)
qed simp

lemma filter_image:
  assumes "- (2 ^ 31) \<le> im_sector im" "im_sector im < 2 ^ 31"
  shows "filter (\<lambda>it. \<not> ignored it) (image_items im) = concat (map member_items (image_members im))"
proof -
  have "\<forall>kv \<in> set (image_members im). plain_value (snd kv)" using assms by (auto simp: image_members_def)
  from filter_members [OF this] show ?thesis
    by (simp add: image_items_def filter_sep_items comp_def) (simp add: ignored_def)
qed

lemma part_file_essence:
  assumes "\<forall>kv \<in> set (pre @ post). extra_ok kv" "\<forall>im \<in> set ims. - (2 ^ 31) \<le> im_sector im \<and> im_sector im < 2 ^ 31"
  shows "part_items e fresh pp (part_file_items pre ims post) =
    part_items e fresh pp (concat (map member_items pre) @ [Str ''image'', Punct (CHR '':''), Punct (CHR ''['')] @
      concat (map (\<lambda>im. concat (map member_items (image_members im))) ims) @ concat (map member_items post))"
proof -
  have "\<forall>kv \<in> set pre. plain_value (snd kv)" "\<forall>kv \<in> set post. plain_value (snd kv)" using assms(1) by (simp_all add: extra_ok_def)
  note m = filter_members [OF this(1)] filter_members [OF this(2)]
  have i: "concat (map (\<lambda>im. filter (\<lambda>it. \<not> ignored it) (image_items im)) ims) =
      concat (map (\<lambda>im. concat (map member_items (image_members im))) ims)"
    using assms(2) filter_image by (intro arg_cong [where f = concat] map_cong) auto
  have "filter (\<lambda>it. \<not> ignored it) (part_file_items pre ims post) =
    concat (map member_items pre) @ [Str ''image'', Punct (CHR '':''), Punct (CHR ''['')] @
      concat (map (\<lambda>im. concat (map member_items (image_members im))) ims) @ concat (map member_items post)"
    by (simp add: part_file_items_def filter_sep_items comp_def m i) (simp add: ignored_def)
  then show ?thesis using part_items_ignored [of e fresh pp "part_file_items pre ims post"] by simp
qed

text \<open>The list node the loader builds for an image.\<close>

definition node_of :: "part_image_info \<Rightarrow> int \<Rightarrow> image_spec \<Rightarrow> part_image_info" where
  "node_of fresh k im =
     fresh\<lparr>pi_index := k,
       pi_name := im_name im @ NUL # drop (length (im_name im) + 1) (pi_name fresh),
       pi_version := im_version im @ NUL # drop (length (im_version im) + 1) (pi_version fresh),
       pi_sector := le32 (im_sector im),
       pi_boot_args := map (\<lambda>(k, v). k @ ''='' @ v) (im_args im)\<rparr>"

lemma short_str_value [simp]: "short_str n s \<Longrightarrow> n \<le> 80 \<Longrightarrow> cstr (take 79 s) = s"
  by (simp add: short_str_def cstr_id)

lemmas part_defs = part_step_def part_key_def part_value_def store_dest_def dest_store_def overlay_def
  add_image_boot_arg_def punct_token_def cstr_id

lemma length_le32 [simp]: "length (le32 i) = 4"
  by (simp add: le32_def)

lemma member_name:
  assumes "reads_ok e" "pp_state pp = JSON_PARSE_STATE_KEY" "short_str 64 n" "image_wf fresh"
  shows "part_items e fresh pp (member_items (''name'', Str n)) =
    Continue (pp\<lparr>pp_images := fresh\<lparr>pi_index := pp_index pp, pi_boot_args := [],
        pi_name := n @ NUL # drop (length n + 1) (pi_name fresh)\<rparr> # pp_images pp,
      pp_index := pp_index pp + 1, pp_boot_arg := False, pp_dest := None\<rparr>)"
  using assms by (simp add: member_items_def part_defs image_wf_def short_str_def)

lemma member_version:
  assumes "pp_state pp = JSON_PARSE_STATE_KEY" "short_str 64 v" "pp_images pp = im # ims" "image_wf im"
    "\<not> pp_boot_arg pp"
  shows "part_items e fresh pp (member_items (''version'', Str v)) =
    Continue (pp\<lparr>pp_images := im\<lparr>pi_version := v @ NUL # drop (length v + 1) (pi_version im)\<rparr> # ims, pp_dest := None\<rparr>)"
  using assms by (simp add: member_items_def part_defs image_wf_def short_str_def)

lemma member_sector:
  assumes "pp_state pp = JSON_PARSE_STATE_KEY" "- (2 ^ 31) \<le> i" "i < 2 ^ 31" "pp_images pp = im # ims" "image_wf im"
  shows "part_items e fresh pp (member_items (''start_sector'', Num i)) =
    Continue (pp\<lparr>pp_images := im\<lparr>pi_sector := le32 i\<rparr> # ims, pp_dest := None\<rparr>)"
  using assms by (simp add: member_items_def part_defs image_wf_def atoi_sprintf_d)

lemma member_start:
  assumes "pp_state pp = JSON_PARSE_STATE_KEY" "pp_images pp \<noteq> []"
  shows "part_items e fresh pp (member_items (''bootargs_start'', Num 1)) = Continue (pp\<lparr>pp_boot_arg := True, pp_dest := None\<rparr>)"
  using assms by (simp add: member_items_def part_defs)

lemma member_end:
  assumes "pp_state pp = JSON_PARSE_STATE_KEY" "pp_images pp \<noteq> []"
  shows "part_items e fresh pp (member_items (''bootargs_end'', Num 1)) = Continue (pp\<lparr>pp_boot_arg := False, pp_dest := None\<rparr>)"
  using assms by (simp add: member_items_def part_defs)

lemma member_arg:
  assumes "reads_ok e" "pp_state pp = JSON_PARSE_STATE_KEY" "pp_images pp = im # ims" "pp_boot_arg pp"
    "length (pi_boot_args im) < 32" "short_str 80 k" "short_str 80 v" "k \<notin> set reserved_keys"
  shows "part_items e fresh pp (member_items (k, Str v)) =
    Continue (pp\<lparr>pp_images := im\<lparr>pi_boot_args := pi_boot_args im @ [k @ ''='' @ v]\<rparr> # ims, pp_dest := None, pp_key := k\<rparr>)"
  using assms by (simp add: member_items_def part_defs reserved_keys_def)

lemma args_read:
  "reads_ok e \<Longrightarrow> pp_state pp = JSON_PARSE_STATE_KEY \<Longrightarrow> pp_dest pp = None \<Longrightarrow> pp_images pp = im # ims \<Longrightarrow> pp_boot_arg pp \<Longrightarrow>
   length (pi_boot_args im) + length args \<le> 32 \<Longrightarrow>
   \<forall>(k, v) \<in> set args. short_str 80 k \<and> short_str 80 v \<and> k \<notin> set reserved_keys \<Longrightarrow>
   \<exists>key. part_items e fresh pp (concat (map (\<lambda>(k, v). member_items (k, Str v)) args)) =
     Continue (pp\<lparr>pp_images := im\<lparr>pi_boot_args := pi_boot_args im @ map (\<lambda>(k, v). k @ ''='' @ v) args\<rparr> # ims, pp_key := key\<rparr>)"
proof (induction args arbitrary: pp im)
  case Nil
  then have "part_items e fresh pp (concat (map (\<lambda>(k, v). member_items (k, Str v)) [])) = Continue (pp\<lparr>pp_images := im\<lparr>pi_boot_args :=
      pi_boot_args im @ map (\<lambda>(k, v). k @ ''='' @ v) []\<rparr> # ims, pp_key := pp_key pp\<rparr>)"
    by (cases pp) simp
  then show ?case by blast
next
  case (Cons a args)
  obtain k v where a: "a = (k, v)" by (cases a)
  define im' where "im' = im\<lparr>pi_boot_args := pi_boot_args im @ [k @ ''='' @ v]\<rparr>"
  define pp' where "pp' = pp\<lparr>pp_images := im' # ims, pp_dest := None, pp_key := k\<rparr>"
  have step: "part_items e fresh pp (member_items (k, Str v)) = Continue pp'"
    using Cons.prems a by (simp add: member_arg pp'_def im'_def)
  from Cons.IH [of pp' im'] Cons.prems obtain key where
    "part_items e fresh pp' (concat (map (\<lambda>(k, v). member_items (k, Str v)) args)) = Continue (pp'\<lparr>pp_images := im'\<lparr>pi_boot_args := pi_boot_args im' @ map (\<lambda>(k, v). k @ ''='' @ v) args\<rparr> # ims, pp_key := key\<rparr>)"
    by (auto simp: pp'_def im'_def)
  with step Cons.prems(3) have "part_items e fresh pp (concat (map (\<lambda>(k, v). member_items (k, Str v)) (a # args))) =
      Continue (pp\<lparr>pp_images := im\<lparr>pi_boot_args := pi_boot_args im @ map (\<lambda>(k, v). k @ ''='' @ v) (a # args)\<rparr> # ims, pp_key := key\<rparr>)"
    by (simp add: a part_items_append pp'_def im'_def)
  then show ?case by blast
qed

text \<open>Between images the reader waits for a key, outside the boot arguments.\<close>

definition between :: "part_parse \<Rightarrow> bool" where
  "between pp \<longleftrightarrow> pp_state pp = JSON_PARSE_STATE_KEY \<and> pp_dest pp = None \<and> \<not> pp_boot_arg pp"

lemma image_read:
  assumes "reads_ok e" "image_wf fresh" "between pp" "spec_ok im"
  shows "\<exists>pp'. part_items e fresh pp (concat (map member_items (image_members im))) = Continue pp' \<and> between pp' \<and>
    pp_images pp' = node_of fresh (pp_index pp) im # pp_images pp \<and> pp_index pp' = pp_index pp + 1"
proof -
  have ok: "short_str 64 (im_name im)" "short_str 64 (im_version im)" "- (2 ^ 31) \<le> im_sector im" "im_sector im < 2 ^ 31"
    "length (im_args im) \<le> 32" "\<forall>(k, v) \<in> set (im_args im). short_str 80 k \<and> short_str 80 v \<and> k \<notin> set reserved_keys"
    using assms(4) by (simp_all add: spec_ok_def)
  define n1 where "n1 = fresh\<lparr>pi_index := pp_index pp, pi_boot_args := [],
    pi_name := im_name im @ NUL # drop (length (im_name im) + 1) (pi_name fresh)\<rparr>"
  define n2 where "n2 = n1\<lparr>pi_version := im_version im @ NUL # drop (length (im_version im) + 1) (pi_version n1)\<rparr>"
  define n3 where "n3 = n2\<lparr>pi_sector := le32 (im_sector im)\<rparr>"
  define p1 where "p1 = pp\<lparr>pp_images := n1 # pp_images pp, pp_index := pp_index pp + 1, pp_boot_arg := False, pp_dest := None\<rparr>"
  define p2 where "p2 = p1\<lparr>pp_images := n2 # pp_images pp\<rparr>"
  define p3 where "p3 = p2\<lparr>pp_images := n3 # pp_images pp\<rparr>"
  define p4 where "p4 = p3\<lparr>pp_boot_arg := True\<rparr>"
  have wf: "image_wf n1" "image_wf n2" "image_wf n3"
    using assms(2) ok(1,2) by (simp_all add: n1_def n2_def n3_def image_wf_def short_str_def)
  have b: "pp_state pp = JSON_PARSE_STATE_KEY" "pp_dest pp = None" "\<not> pp_boot_arg pp"
    using assms(3) by (simp_all add: between_def)
  have s1: "part_items e fresh pp (member_items (''name'', Str (im_name im))) = Continue p1"
    using member_name [OF assms(1) b(1) ok(1) assms(2)] by (simp add: p1_def n1_def)
  have s2: "part_items e fresh p1 (member_items (''version'', Str (im_version im))) = Continue p2"
    using member_version [of p1 "im_version im" n1 "pp_images pp"] b ok(2) wf by (simp add: p1_def p2_def n2_def)
  have s3: "part_items e fresh p2 (member_items (''start_sector'', Num (im_sector im))) = Continue p3"
    using member_sector [of p2 "im_sector im" n2 "pp_images pp"] b ok(3,4) wf by (simp add: p1_def p2_def p3_def n3_def)
  have s4: "part_items e fresh p3 (member_items (''bootargs_start'', Num 1)) = Continue p4"
    using member_start [of p3] b by (simp add: p1_def p2_def p3_def p4_def)
  obtain key where s5: "part_items e fresh p4 (concat (map (\<lambda>(k, v). member_items (k, Str v)) (im_args im))) =
      Continue (p4\<lparr>pp_images := n3\<lparr>pi_boot_args := pi_boot_args n3 @ map (\<lambda>(k, v). k @ ''='' @ v) (im_args im)\<rparr> # pp_images pp, pp_key := key\<rparr>)"
    using args_read [of e p4 n3 "pp_images pp" "im_args im" fresh] assms(1) b ok(5,6)
    by (auto simp: p1_def p2_def p3_def p4_def n1_def n2_def n3_def)
  define p5 where "p5 = p4\<lparr>pp_images := node_of fresh (pp_index pp) im # pp_images pp, pp_key := key\<rparr>"
  note n_defs = n1_def n2_def n3_def node_of_def
  have n: "n3\<lparr>pi_boot_args := pi_boot_args n3 @ map (\<lambda>(k, v). k @ ''='' @ v) (im_args im)\<rparr> = node_of fresh (pp_index pp) im"
    by (simp add: n_defs)
  have s5': "part_items e fresh p4 (concat (map (\<lambda>(k, v). member_items (k, Str v)) (im_args im))) = Continue p5"
    unfolding s5 n p5_def ..
  have s6: "part_items e fresh p5 (member_items (''bootargs_end'', Num 1)) = Continue (p5\<lparr>pp_boot_arg := False\<rparr>)"
    using member_end [of p5] b by (simp add: p1_def p2_def p3_def p4_def p5_def)
  have "concat (map member_items (image_members im)) =
      member_items (''name'', Str (im_name im)) @ member_items (''version'', Str (im_version im)) @
      member_items (''start_sector'', Num (im_sector im)) @ member_items (''bootargs_start'', Num 1) @
      concat (map (\<lambda>(k, v). member_items (k, Str v)) (im_args im)) @ member_items (''bootargs_end'', Num 1)"
    by (simp add: image_members_def comp_def case_prod_unfold)
  then have "part_items e fresh pp (concat (map member_items (image_members im))) = Continue (p5\<lparr>pp_boot_arg := False\<rparr>)"
    by (simp add: part_items_append s1 s2 s3 s4 s5' s6 del: part_items.simps)
  then show ?thesis
    using b by (simp add: between_def p1_def p2_def p3_def p4_def p5_def)
qed

lemma images_read:
  "reads_ok e \<Longrightarrow> image_wf fresh \<Longrightarrow> between pp \<Longrightarrow> \<forall>im \<in> set ims. spec_ok im \<Longrightarrow>
   \<exists>pp'. part_items e fresh pp (concat (map (\<lambda>im. concat (map member_items (image_members im))) ims)) = Continue pp' \<and> between pp' \<and>
     pp_images pp' = rev (map2 (node_of fresh) (map (\<lambda>k. pp_index pp + int k) [0..<length ims]) ims) @ pp_images pp"
proof (induction ims arbitrary: pp)
  case Nil
  then show ?case by simp
next
  case (Cons im ims)
  from image_read [OF Cons.prems(1-3), of im] Cons.prems(4) obtain q where
    q: "part_items e fresh pp (concat (map member_items (image_members im))) = Continue q" "between q"
      "pp_images q = node_of fresh (pp_index pp) im # pp_images pp" "pp_index q = pp_index pp + 1" by auto
  have "map (\<lambda>k. pp_index pp + int k) [0..<length (im # ims)] =
      pp_index pp # map (\<lambda>k. pp_index q + int k) [0..<length ims]"
    by (simp add: q(4) map_upt_Suc del: upt_Suc)
  with Cons.IH [OF Cons.prems(1,2) q(2)] Cons.prems(4) q(1,3) show ?case
    by (auto simp: part_items_append simp del: upt_Suc)
qed

lemma extras_read:
  "between pp \<Longrightarrow> \<forall>kv \<in> set kvs. extra_ok kv \<Longrightarrow> part_items e fresh pp (concat (map member_items kvs)) = Continue pp"
proof (induction kvs)
  case (Cons kv kvs)
  have "part_items e fresh pp (member_items kv) = Continue pp"
    using Cons.prems by (cases pp; cases "snd kv") (simp_all add: Let_def member_items_def part_defs between_def extra_ok_def reserved_keys_def)
  with Cons show ?case by (simp add: part_items_append)
qed simp

lemma part_file_read:
  assumes "reads_ok e" "image_wf fresh" "\<forall>im \<in> set ims. spec_ok im" "\<forall>kv \<in> set (pre @ post). extra_ok kv"
  shows "\<exists>pp. part_items e fresh part_start (part_file_items pre ims post) = Continue pp \<and>
    pp_images pp = rev (map2 (node_of fresh) (map int [0..<length ims]) ims)"
proof -
  have start: "between part_start" by (simp add: between_def part_start_def)
  have range: "\<forall>im \<in> set ims. - (2 ^ 31) \<le> im_sector im \<and> im_sector im < 2 ^ 31" using assms(3) by (simp add: spec_ok_def)
  have head: "part_items e fresh part_start [Str ''image'', Punct (CHR '':''), Punct (CHR ''['')] = Continue part_start"
    by (simp add: part_start_def part_defs)
  from images_read [OF assms(1,2) start assms(3)] obtain r where
    r: "part_items e fresh part_start (concat (map (\<lambda>im. concat (map member_items (image_members im))) ims)) = Continue r" "between r"
      "pp_images r = rev (map2 (node_of fresh) (map int [0..<length ims]) ims)" by (auto simp: part_start_def)
  have "part_items e fresh part_start (part_file_items pre ims post) = Continue r"
    unfolding part_file_essence [OF assms(4) range] part_items_append
    using assms(4) extras_read [OF start, of pre] extras_read [OF r(2), of post] by (simp add: head r(1) del: part_items.simps)
  with r(3) show ?thesis by blast
qed

lemma part_file_last: "map snd lay = part_file_items pre ims post \<Longrightarrow> lay \<noteq> [] \<and> (\<exists>c. snd (last lay) = Punct c)"
proof -
  assume eq: "map snd lay = part_file_items pre ims post"
  then have "map snd lay \<noteq> []" "last (map snd lay) = Punct (CHR ''}'')" by (simp_all add: part_file_items_def)
  then show ?thesis by (auto simp: last_map)
qed

lemma part_loop_part_file:
  assumes "layout_ok lay tail" "map snd lay = part_file_items pre ims post" "\<forall>kv \<in> set (pre @ post). extra_ok kv"
    "\<forall>im \<in> set ims. - (2 ^ 31) \<le> im_sector im \<and> im_sector im < 2 ^ 31"
  shows "part_loop e fresh json_init part_start (map Some (layout_text lay tail) @ [None]) =
    (case part_items e fresh part_start (part_file_items pre ims post) of Continue pp \<Rightarrow> Break pp | r \<Rightarrow> r)"
proof -
  have "\<forall>it \<in> snd ` set lay. item_ok it" using part_file_items_ok [OF assms(3,4)] assms(2) by (metis set_map)
  from part_loop_layout [OF json_idle_init assms(1) this, of e fresh part_start] show ?thesis
    using part_file_last [OF assms(2)] delimited_part_file [of pre ims post] assms(2) by simp
qed

lemma parse_text:
  assumes "reads_ok e" "image_wf fresh" "\<forall>im \<in> set ims. spec_ok im" "\<forall>kv \<in> set (pre @ post). extra_ok kv"
    "layout_ok lay tail" "map snd lay = part_file_items pre ims post" "m PART_FILE_PATH = Some (layout_text lay tail)"
  shows "ssbl_parse_part_file e fresh m =
    Some (0, rev (map2 (node_of fresh) (map int [0..<length ims]) ims))"
proof -
  have "\<forall>im \<in> set ims. - (2 ^ 31) \<le> im_sector im \<and> im_sector im < 2 ^ 31" using assms(3) by (simp add: spec_ok_def)
  with part_loop_part_file [OF assms(5,6,4), of e fresh] part_file_read [OF assms(1-4)]
  obtain pp where "part_loop e fresh json_init part_start (map Some (layout_text lay tail) @ [None]) = Break pp"
      "pp_images pp = rev (map2 (node_of fresh) (map int [0..<length ims]) ims)" by auto
  with assms(1,7) show ?thesis by (simp add: ssbl_parse_part_file_def)
qed

text \<open>
  Property C20. A part file is read as the images it names.  The file is any JSON text with white space (blanks, tabs,
  line ends, or nothing) in front of every token, an array \<open>image\<close> of objects that have the members \<open>name\<close>, \<open>version\<close>,
  \<open>start_sector\<close>, \<open>bootargs_start\<close>, the boot arguments and \<open>bootargs_end\<close> in this order, and other members with string or
  number values before and after the array.  When the fields fit the loader's buffers, \<open>ssbl_parse_part_file\<close> succeeds
  with one list node per image, in reverse file order and numbered in file order, each with the name, version, start
  sector and the \<open>key=value\<close> boot arguments of the file.  The part file of the repository is such a text.
\<close>

theorem part_file_roundtrip:
  assumes "reads_ok e" "image_wf fresh" "\<forall>im \<in> set ims. spec_ok im" "\<forall>kv \<in> set (pre @ post). extra_ok kv"
    and "layout_ok lay tail" "map snd lay = part_file_items pre ims post" "m PART_FILE_PATH = Some (layout_text lay tail)"
  shows "ssbl_parse_part_file e fresh m =
    Some (0, rev (map2 (node_of fresh) (map int [0..<length ims]) ims))"
  using assms by (rule parse_text)

definition fresh_node :: part_image_info where
  "fresh_node = \<lparr>pi_index = 0, pi_name = replicate 64 NUL, pi_version = replicate 64 NUL,
     pi_sector = replicate 4 NUL, pi_boot_args = []\<rparr>"

lemma fresh_node_wf [simp]: "image_wf fresh_node"
  by (simp add: image_wf_def fresh_node_def)

section \<open>The part file of the repository\<close>

text \<open>\<open>root_fs/root/part.json\<close>, its images and its other members, and the same text as a layout.\<close>

definition root_part_json :: string where
  "root_part_json =
     ''{\<newline>'' @
     ''  \"image\"   : [\<newline>'' @
     ''    {\<newline>'' @
     ''      \"name\"  : \"iperf_vm\",\<newline>'' @
     ''      \"version\" : \"1.0\",\<newline>'' @
     ''      \"start_sector\"  : 32,\<newline>'' @
     ''      \"bootargs_start\": 1,\<newline>'' @
     ''      \"ssid\" : \"innotest\",\<newline>'' @
     ''      \"passphrase\" : \"123467890\",\<newline>'' @
     ''      \"bootargs_end\" : 1\<newline>'' @
     ''    },\<newline>'' @
     ''    {\<newline>'' @
     ''      \"name\"  : \"hello_world\",\<newline>'' @
     ''      \"version\" : \"1.0\",\<newline>'' @
     ''      \"start_sector\"  : 232,\<newline>'' @
     ''      \"bootargs_start\": 1,\<newline>'' @
     ''      \"ssid\" : \"innotest\",\<newline>'' @
     ''      \"passphrase\" : \"123467890\",\<newline>'' @
     ''      \"bootargs_end\" : 1\<newline>'' @
     ''    }\<newline>'' @
     ''    ],\<newline>'' @
     ''    \"baudrate\"    : 2560000,\<newline>'' @
     ''    \"timeout\" : 0,\<newline>'' @
     ''    \"verbose\" : 1\<newline>'' @
     ''}\<newline>'' @
     ''\<newline>''"

definition root_images :: "image_spec list" where
  "root_images =
     [\<lparr>im_name = ''iperf_vm'', im_version = ''1.0'', im_sector = 32, im_args = [(''ssid'', ''innotest''), (''passphrase'', ''123467890'')]\<rparr>,
      \<lparr>im_name = ''hello_world'', im_version = ''1.0'', im_sector = 232, im_args = [(''ssid'', ''innotest''), (''passphrase'', ''123467890'')]\<rparr>]"

definition root_extras :: "(string \<times> item) list" where
  "root_extras = [(''baudrate'', Num 2560000), (''timeout'', Num 0), (''verbose'', Num 1)]"

definition root_layout :: layout where
  "root_layout =
   [([], Punct (CHR ''{'')), (''\<newline>  '', Str ''image''), (''   '', Punct (CHR '':'')),
    ('' '', Punct (CHR ''['')), (''\<newline>    '', Punct (CHR ''{'')), (''\<newline>      '', Str ''name''),
    (''  '', Punct (CHR '':'')), ('' '', Str ''iperf_vm''), ([], Punct (CHR '','')),
    (''\<newline>      '', Str ''version''), ('' '', Punct (CHR '':'')), ('' '', Str ''1.0''),
    ([], Punct (CHR '','')), (''\<newline>      '', Str ''start_sector''), (''  '', Punct (CHR '':'')),
    ('' '', Num 32), ([], Punct (CHR '','')), (''\<newline>      '', Str ''bootargs_start''), ([], Punct (CHR '':'')),
    ('' '', Num 1), ([], Punct (CHR '','')), (''\<newline>      '', Str ''ssid''), ('' '', Punct (CHR '':'')),
    ('' '', Str ''innotest''), ([], Punct (CHR '','')), (''\<newline>      '', Str ''passphrase''),
    ('' '', Punct (CHR '':'')), ('' '', Str ''123467890''), ([], Punct (CHR '','')),
    (''\<newline>      '', Str ''bootargs_end''), ('' '', Punct (CHR '':'')), ('' '', Num 1),
    (''\<newline>    '', Punct (CHR ''}'')), ([], Punct (CHR '','')), (''\<newline>    '', Punct (CHR ''{'')),
    (''\<newline>      '', Str ''name''), (''  '', Punct (CHR '':'')), ('' '', Str ''hello_world''),
    ([], Punct (CHR '','')), (''\<newline>      '', Str ''version''), ('' '', Punct (CHR '':'')),
    ('' '', Str ''1.0''), ([], Punct (CHR '','')), (''\<newline>      '', Str ''start_sector''),
    (''  '', Punct (CHR '':'')), ('' '', Num 232), ([], Punct (CHR '','')),
    (''\<newline>      '', Str ''bootargs_start''), ([], Punct (CHR '':'')), ('' '', Num 1), ([], Punct (CHR '','')),
    (''\<newline>      '', Str ''ssid''), ('' '', Punct (CHR '':'')), ('' '', Str ''innotest''),
    ([], Punct (CHR '','')), (''\<newline>      '', Str ''passphrase''), ('' '', Punct (CHR '':'')),
    ('' '', Str ''123467890''), ([], Punct (CHR '','')), (''\<newline>      '', Str ''bootargs_end''),
    ('' '', Punct (CHR '':'')), ('' '', Num 1), (''\<newline>    '', Punct (CHR ''}'')),
    (''\<newline>    '', Punct (CHR '']'')), ([], Punct (CHR '','')), (''\<newline>    '', Str ''baudrate''),
    (''    '', Punct (CHR '':'')), ('' '', Num 2560000), ([], Punct (CHR '','')),
    (''\<newline>    '', Str ''timeout''), ('' '', Punct (CHR '':'')), ('' '', Num 0), ([], Punct (CHR '','')),
    (''\<newline>    '', Str ''verbose''), ('' '', Punct (CHR '':'')), ('' '', Num 1),
    (''\<newline>'', Punct (CHR ''}''))]"

lemma root_images_ok: "\<forall>im \<in> set root_images. spec_ok im"
  by (simp add: root_images_def spec_ok_def short_str_def reserved_keys_def)

lemma root_extras_ok: "\<forall>kv \<in> set ([] @ root_extras). extra_ok kv"
  by (simp add: root_extras_def extra_ok_def reserved_keys_def cstr_def)

lemma root_layout_ok: "layout_ok root_layout ''\<newline>\<newline>''"
  by (simp add: layout_ok_def root_layout_def blanks_def isjsonspace_def)

lemma root_layout_items: "map snd root_layout = part_file_items [] root_images root_extras"
  by (simp add: root_layout_def part_file_items_def image_items_def image_members_def member_items_def root_images_def root_extras_def)

lemma root_numbers:
  "sprintf_d 0 = ''0''" "sprintf_d 1 = ''1''" "sprintf_d 32 = ''32''" "sprintf_d 232 = ''232''" "sprintf_d 2560000 = ''2560000''"
  by (simp_all add: sprintf_d_def dec_nat.simps digit_char_def char_of_def bit_0)

lemma root_layout_text: "layout_text root_layout ''\<newline>\<newline>'' = root_part_json"
  by (simp add: layout_text_def root_layout_def root_part_json_def json_quote_def root_numbers)

theorem part_file_roundtrip_witness:
  "\<exists>n0 n1. ssbl_parse_part_file healthy_env fresh_node [PART_FILE_PATH \<mapsto> root_part_json] = Some (0, [n1, n0]) \<and>
     pi_boot_args n0 = [''ssid=innotest'', ''passphrase=123467890''] \<and> cstr (pi_name n1) = ''hello_world'' \<and>
     pi_index n0 = 0 \<and> pi_index n1 = 1 \<and> pi_sector n1 = le32 232"
proof -
  have "ssbl_parse_part_file healthy_env fresh_node [PART_FILE_PATH \<mapsto> root_part_json] =
      Some (0, rev (map2 (node_of fresh_node) (map int [0..<length root_images]) root_images))"
    by (rule part_file_roundtrip [OF _ _ root_images_ok root_extras_ok root_layout_ok root_layout_items])
      (simp_all add: root_layout_text)
  then show ?thesis
    by (simp add: root_images_def node_of_def fresh_node_def cstr_def upt_rec)
qed

end
