(* ===== verification/Ssbl_Boot.thy ===== *)
theory Ssbl_Boot
  imports Part_File
begin

text \<open>
  What the boot loader does from \<open>main\<close> to the entry of the image: which image is selected, what
  the ELF loader leaves in RAM, what the image finds as its arguments, and the whole run.
\<close>

section \<open>Image selection\<close>

text \<open>
  Property C21. The image at boot index \<open>k\<close> is the \<open>k\<close>-th one that \<open>part.json\<close> names: whatever the file
  holds, when the parser succeeds the list nodes are numbered in file order, every buffer keeps its
  size and at most 32 arguments are stored, and \<open>ssbl_image_info_get\<close> finds the node exactly when
  \<open>k\<close> is below the number of images.
\<close>

theorem ssbl_image_selection:
  assumes "image_wf fresh" "ssbl_parse_part_file e fresh m = Some (rc, images)" "0 \<le> k"
  shows "(\<forall>p \<in> set images. image_wf p) \<and>
    snd (ssbl_image_info_get s images k) =
      (if k < int (length images) then Some (rev images ! nat k) else None)"
proof -
  have wf: "images_wf images" using assms(1,2) by (rule parse_images_wf)
  show ?thesis
  proof (cases "k < int (length images)")
    case True
    then have "find (\<lambda>p. k = pi_index p) images = Some (rev images ! nat k)"
      using find_index [OF wf, of "nat k"] assms(3) by simp
    with True wf show ?thesis by (simp add: ssbl_image_info_get_def images_wf_def)
  next
    case False
    with find_index_None [OF wf, of k] wf show ?thesis by (simp add: ssbl_image_info_get_def images_wf_def)
  qed
qed

theorem ssbl_image_selection_witness:
  "\<exists>images. ssbl_parse_part_file healthy_env fresh_node [PART_FILE_PATH \<mapsto> ''{''] = Some (0, images) \<and>
     snd (ssbl_image_info_get (ssbl_init (\<lambda>_. 0)) images 0) = None"
proof -
  have p: "ssbl_parse_part_file healthy_env fresh_node [PART_FILE_PATH \<mapsto> ''{''] = Some (0, [])"
    by (simp add: ssbl_parse_part_file_def) code_simp
  from ssbl_image_selection [OF fresh_node_wf p, of 0 "ssbl_init (\<lambda>_. 0)"] p show ?thesis by simp
qed

lemma name_overruns:
  assumes "reads_ok e" "image_wf fresh" "64 \<le> length n" "NUL \<notin> set n"
  shows "part_items e fresh part_start (member_items (''name'', Str n) @ its) = Overrun"
proof -
  have "NUL \<notin> set (take 79 n)" using assms(4) by (meson in_set_takeD)
  moreover have "\<not> min (length n) 79 \<le> 63" using assms(3) by simp
  ultimately show ?thesis
    using assms by (simp add: member_items_def part_start_def part_defs image_wf_def)
qed

text \<open>
  Property C24. A name of 64 characters or more in \<open>part.json\<close> overruns the buffer of the list node: the
  tokenizer passes up to 79 characters on and \<open>strcpy\<close> copies them into \<open>name[64]\<close>, so the parse of such
  a file has no defined result, whatever its layout and whatever follows in it.
\<close>

theorem ssbl_name_overflow:
  assumes "reads_ok e" "image_wf fresh" "64 \<le> length (im_name im)" "NUL \<notin> set (im_name im)"
    and "\<forall>im \<in> set (im # ims). - (2 ^ 31) \<le> im_sector im \<and> im_sector im < 2 ^ 31" "\<forall>kv \<in> set (pre @ post). extra_ok kv"
    and "layout_ok lay tail" "map snd lay = part_file_items pre (im # ims) post" "m PART_FILE_PATH = Some (layout_text lay tail)"
  shows "ssbl_parse_part_file e fresh m = None"
proof -
  have start: "between part_start" by (simp add: between_def part_start_def)
  have head: "part_items e fresh part_start (Str ''image'' # Punct (CHR '':'') # Punct (CHR ''['') # its) =
      part_items e fresh part_start its" for its
    by (simp add: part_start_def part_defs)
  have first: "concat (map (\<lambda>im. concat (map member_items (image_members im))) (im # ims)) @ concat (map member_items post) =
      member_items (''name'', Str (im_name im)) @ concat (map member_items (tl (image_members im))) @
      concat (map (\<lambda>im. concat (map member_items (image_members im))) ims) @ concat (map member_items post)"
    by (simp add: image_members_def)
  have "part_items e fresh part_start (part_file_items pre (im # ims) post) =
      part_items e fresh part_start (concat (map (\<lambda>im. concat (map member_items (image_members im))) (im # ims)) @ concat (map member_items post))"
    unfolding part_file_essence [OF assms(6,5)] part_items_append [of e fresh part_start "concat (map member_items pre)"]
    using assms(6) extras_read [OF start, of pre e fresh] by (simp add: head del: part_items.simps)
  also have "\<dots> = Overrun"
    unfolding first by (rule name_overruns [OF assms(1-4)])
  finally show ?thesis
    using part_loop_part_file [OF assms(7,8,6,5), of e fresh] assms(1,9) by (simp add: ssbl_parse_part_file_def)
qed

theorem ssbl_name_overflow_witness:
  "ssbl_parse_part_file healthy_env fresh_node
     [PART_FILE_PATH \<mapsto> layout_text (map (Pair '' '') (part_file_items []
        [\<lparr>im_name = replicate 64 (CHR ''n''), im_version = ''1'', im_sector = 32, im_args = []\<rparr>] [])) []] = None"
  by (rule ssbl_name_overflow) (simp_all add: comp_def layout_ok_def blanks_def isjsonspace_def list_all_iff)

section \<open>The arguments of the image\<close>

text \<open>\<open>argv\<close> as the image finds it: an aligned vector of pointers to the terminated strings.\<close>

definition argv_holds :: "(nat \<Rightarrow> byte) \<Rightarrow> nat \<Rightarrow> string list \<Rightarrow> bool" where
  "argv_holds ram argv args \<longleftrightarrow> argv mod 4 = 0 \<and>
     (\<forall>i < length args. \<exists>ptr < 0xc0000. holds ram (argv + 4 * i) (le_bytes ptr) \<and> holds ram ptr (bytes (args ! i) @ [0]))"

lemma holds_put: "holds (put ram p bs) p bs"
  by (simp add: holds_def put_def)

lemma arg_block_split: "i < length args \<Longrightarrow>
    arg_block args = arg_block (take i args) @ (bytes (args ! i) @ [0]) @ arg_block (drop (Suc i) args)"
  by (subst id_take_nth_drop [of i args]) (simp_all add: arg_block_def)

lemma start_image_ok:
  assumes at: "args_at s args" and nul: "\<forall>a \<in> set args. NUL \<notin> set a" and room: "4 * length args \<le> s_boot_arg_p s"
  shows "\<exists>argv ram. ssbl_start_image s = Some (argv, ram) \<and> argv_holds ram argv args \<and>
    argv \<le> s_boot_arg_p s \<and> (\<forall>x < argv. ram x = s_ram s x)"
proof -
  define p where "p = s_boot_arg_p s"
  define av where "av = (p - 4 * length args) div 4 * 4"
  have av: "av + 4 * length args \<le> p" using room by (simp add: av_def p_def)
  have h: "holds (s_ram s) p (arg_block args)" and top: "p + length (arg_block args) = 0xbfffc"
    and n: "s_argc s = length args" using at by (simp_all add: args_at_def p_def)
  from build_argv_ok [OF nul h av] obtain ram where
    ram: "ssbl_build_argv (length args) av p (s_ram s) = Some ram"
      "\<And>x. x < av \<or> av + 4 * length args \<le> x \<Longrightarrow> ram x = s_ram s x"
      "\<And>i. i < length args \<Longrightarrow> holds ram (av + 4 * i) (le_bytes (p + length (arg_block (take i args))))" by blast
  have "holds ram p (arg_block args) = holds (s_ram s) p (arg_block args)"
    by (rule holds_cong) (use ram(2) av in auto)
  with h have hr: "holds ram p (arg_block args)" by simp
  have "argv_holds ram av args"
    unfolding argv_holds_def
  proof (intro conjI allI impI)
    show "av mod 4 = 0" by (simp add: av_def)
    fix i assume i: "i < length args"
    from hr have "holds ram (p + length (arg_block (take i args))) (bytes (args ! i) @ [0])"
      unfolding arg_block_split [OF i] by (simp only: holds_append)
    moreover have "p + length (arg_block (take i args)) < 0xc0000"
      using top arg_cong [OF arg_block_split [OF i], of length] by simp
    ultimately show "\<exists>ptr < 0xc0000. holds ram (av + 4 * i) (le_bytes ptr) \<and> holds ram ptr (bytes (args ! i) @ [0])"
      using ram(3) [OF i] by blast
  qed
  moreover have "ssbl_start_image s = Some (av, ram)"
    using ram(1) n by (simp add: ssbl_start_image_def Let_def av_def p_def)
  ultimately show ?thesis using av ram(2) by (auto simp: p_def)
qed

lemma args_at_init [simp]: "args_at (ssbl_init ram) []"
  by (simp add: args_at_def ssbl_init_def holds_def)

text \<open>The vector, the strings and the argument that the loader itself adds fit below the stack top.\<close>

definition args_fit :: "string list \<Rightarrow> bool" where
  "args_fit args \<longleftrightarrow> (\<forall>a \<in> set args. NUL \<notin> set a) \<and> sum_list (map (\<lambda>a. length a + 5) args) + 33 \<le> 0xbfffc"

lemma length_arg_block: "length (arg_block args) = sum_list (map (\<lambda>a. length a + 1) args)"
  by (induction args) simp_all

lemma args_fit_sum: "sum_list (map (\<lambda>a. length a + 5) args) = length (arg_block args) + 4 * length args"
  by (induction args) simp_all

lemma length_arg_block_rev [simp]: "length (arg_block (rev args)) = length (arg_block args)"
  by (simp add: length_arg_block rev_map [symmetric])

lemma image_args_at:
  "args_fit args \<Longrightarrow> args_at (foldl ssbl_add_boot_arg (ssbl_init ram) args) (rev args)"
  using add_boot_args_at [OF args_at_init, of args ram]
  by (simp add: args_fit_def args_fit_sum length_arg_block ssbl_init_def)

text \<open>
  Property C22. The boot arguments reach the image: when the arguments of the selected image fit below
  the stack, every scan for a string end terminates, and the image finds an aligned \<open>argv\<close> whose
  entries point to the terminated \<open>key=value\<close> strings, the last argument of \<open>part.json\<close> first.
\<close>

theorem ssbl_args_roundtrip:
  assumes "ssbl_image_info_get (ssbl_init ram) images k = (s, Some p)" "args_fit (pi_boot_args p)"
  shows "\<exists>argv ram'. ssbl_start_image s = Some (argv, ram') \<and> argv_holds ram' argv (rev (pi_boot_args p))"
proof -
  let ?args = "pi_boot_args p"
  have s: "s = foldl ssbl_add_boot_arg (ssbl_init ram) ?args"
    using assms(1) by (auto simp: ssbl_image_info_get_def split: option.splits)
  have at: "args_at s (rev ?args)" unfolding s by (rule image_args_at [OF assms(2)])
  have "\<forall>a \<in> set (rev ?args). NUL \<notin> set a" "4 * length (rev ?args) \<le> s_boot_arg_p s"
    using assms(2) at by (simp_all add: args_fit_def args_fit_sum args_at_def)
  from start_image_ok [OF at this] show ?thesis by blast
qed

theorem ssbl_args_roundtrip_witness:
  "\<exists>argv ram'. ssbl_start_image (fst (ssbl_image_info_get (ssbl_init (\<lambda>_. 0)) [fresh_node\<lparr>pi_boot_args := [''a=b'', ''c=d'']\<rparr>] 0)) =
     Some (argv, ram') \<and> argv_holds ram' argv [''c=d'', ''a=b'']"
proof -
  let ?n = "fresh_node\<lparr>pi_boot_args := [''a=b'', ''c=d'']\<rparr>"
  obtain s where s: "ssbl_image_info_get (ssbl_init (\<lambda>_. 0)) [?n] 0 = (s, Some ?n)"
    by (simp add: ssbl_image_info_get_def fresh_node_def)
  have "args_fit (pi_boot_args ?n)" by (simp add: args_fit_def)
  from ssbl_args_roundtrip [OF s this] s show ?thesis by simp
qed

section \<open>The ELF image in RAM\<close>

text \<open>
  Property C23. The ELF loader places the image: when it returns 0, the header passed all six checks,
  the entry point is the one of the header, and RAM is the old RAM with exactly the sections whose
  names the loader knows copied from flash to their addresses, in the order of the section table;
  the overlay location is that of the last \<open>.virt\<close> section, if there is one, and the boot arguments'
  bookkeeping is untouched.
\<close>

theorem ssbl_load_elf_places:
  assumes "nor_flash ops cell" "elf_readable cell dev flash" "ssbl_load_elf e ops dev junk s flash = Some (0, s')"
  shows "ehdr_ok (elf_ehdr cell dev flash) \<and> s_entry s' = e_entry (elf_ehdr cell dev flash) \<and>
    s_ram s' = foldl (copy_section cell dev flash (elf_names cell dev junk flash)) (s_ram s) (elf_sections cell dev flash) \<and>
    s_vm s' = foldl (virt_at (elf_names cell dev junk flash) flash) (s_vm s) (elf_sections cell dev flash) \<and>
    s_boot_arg_p s' = s_boot_arg_p s \<and> s_argc s' = s_argc s"
  by (rule load_elf_ok [OF assms])

text \<open>An image with \<open>.text\<close>, of four bytes at 0x42000, and an overlay of four bytes.\<close>

definition sample_elf :: "byte list" where
  "sample_elf =
     [0x7f, 0x45, 0x4c, 0x46, 1, 1, 1, 0, 0, 0, 0, 0, 0, 0, 0, 0, 2, 0, 40, 0, 1, 0, 0, 0,
      0x01, 0x20, 0x04, 0, 0, 0, 0, 0, 52, 0, 0, 0, 0, 0, 0, 0, 52, 0, 32, 0, 0, 0, 40, 0, 3, 0, 2, 0] @
     [1, 0, 0, 0, 1, 0, 0, 0, 0, 0, 0, 0, 0, 0x20, 4, 0, 172, 0, 0, 0, 4, 0, 0, 0, 0, 0, 0, 0, 0, 0, 0, 0, 0, 0, 0, 0, 0, 0, 0, 0] @
     [7, 0, 0, 0, 1, 0, 0, 0, 0, 0, 0, 0, 0, 0, 0, 0, 176, 0, 0, 0, 4, 0, 0, 0, 0, 0, 0, 0, 0, 0, 0, 0, 0, 0, 0, 0, 0, 0, 0, 0] @
     [0, 0, 0, 0, 3, 0, 0, 0, 0, 0, 0, 0, 0, 0, 0, 0, 180, 0, 0, 0, 13, 0, 0, 0, 0, 0, 0, 0, 0, 0, 0, 0, 0, 0, 0, 0, 0, 0, 0, 0] @
     [0xde, 0xad, 0xbe, 0xef, 1, 2, 3, 4] @ (0 # bytes ''.text'') @ (0 # bytes ''.virt'') @ [0]"

definition sample_names :: "byte list" where
  "sample_names = (0 # bytes ''.text'') @ (0 # bytes ''.virt'') @ [0]"

definition sample_flash :: "nat \<Rightarrow> byte" where
  "sample_flash x = (if x < length sample_elf then sample_elf ! x else 0xFF)"

lemma sample_shdr:
  "elf_shdr (\<lambda>d. d) sample_flash 0 52 0 = \<lparr>sh_name = 1, sh_addr = 0x42000, sh_offset = 172, sh_size = 4\<rparr>"
  "elf_shdr (\<lambda>d. d) sample_flash 0 52 (Suc 0) = \<lparr>sh_name = 7, sh_addr = 0, sh_offset = 176, sh_size = 4\<rparr>"
  "elf_shdr (\<lambda>d. d) sample_flash 0 52 2 = \<lparr>sh_name = 0, sh_addr = 0, sh_offset = 180, sh_size = 13\<rparr>"
  by code_simp+

lemma sample_ehdr: "ehdr_ok (elf_ehdr (\<lambda>d. d) sample_flash 0)" "e_entry (elf_ehdr (\<lambda>d. d) sample_flash 0) = 0x42001"
  "e_shoff (elf_ehdr (\<lambda>d. d) sample_flash 0) = 52" "e_shnum (elf_ehdr (\<lambda>d. d) sample_flash 0) = 3"
  "e_shstrndx (elf_ehdr (\<lambda>d. d) sample_flash 0) = 2"
  by code_simp+

lemma sample_bytes: "flash_bytes (\<lambda>d. d) sample_flash 180 13 = sample_names" "flash_bytes (\<lambda>d. d) sample_flash 172 4 = [0xde, 0xad, 0xbe, 0xef]"
  by code_simp+

text \<open>The image at any place of the flash: the headers are the same, offsets being relative.\<close>

definition flash_at :: "nat \<Rightarrow> nat \<Rightarrow> byte" where
  "flash_at a x = sample_flash (x - a)"

lemma flash_at_bytes: "unat a + unat b < 2 ^ 32 \<Longrightarrow> flash_bytes (\<lambda>d. d) (flash_at (unat a)) (a + b) n = flash_bytes (\<lambda>d. d) sample_flash b n"
  by (simp add: flash_bytes_def flash_at_def unat_word_ariths)

lemma flash_at_ehdr: "elf_ehdr (\<lambda>d. d) (flash_at (unat a)) a = elf_ehdr (\<lambda>d. d) sample_flash 0"
proof -
  have "unat a < 2 ^ LENGTH(32)" by (rule unsigned_less)
  then have "flash_bytes (\<lambda>d. d) (flash_at (unat a)) a 52 = flash_bytes (\<lambda>d. d) sample_flash 0 52"
    using flash_at_bytes [of a 0 52] by simp
  then show ?thesis by (simp only: elf_ehdr_def flash_bytes_def)
qed

lemma flash_at_shdr:
  "unat a < 2 ^ 31 \<Longrightarrow> k < 3 \<Longrightarrow> elf_shdr (\<lambda>d. d) (flash_at (unat a)) a 52 k = elf_shdr (\<lambda>d. d) sample_flash 0 52 k"
  using flash_at_bytes [of a "52 + word_of_nat k * 40" 40]
  by (auto simp: elf_shdr_def unat_word_ariths unat_of_nat less_Suc_eq numeral_3_eq_3)

lemma flash_at_names: "unat a < 2 ^ 31 \<Longrightarrow> elf_names (\<lambda>d. d) (flash_at (unat a)) [] a = sample_names"
  using flash_at_bytes [of a 180 13]
  by (simp add: elf_names_def flash_at_ehdr flash_at_shdr sample_ehdr Let_def sample_shdr sample_bytes)

lemma flash_at_sections:
  "unat a < 2 ^ 31 \<Longrightarrow> elf_sections (\<lambda>d. d) (flash_at (unat a)) a =
     [elf_shdr (\<lambda>d. d) sample_flash 0 52 0, elf_shdr (\<lambda>d. d) sample_flash 0 52 (Suc 0), elf_shdr (\<lambda>d. d) sample_flash 0 52 2]"
proof -
  have "[0..<3] = [0, Suc 0, 2]" by code_simp
  then show "unat a < 2 ^ 31 \<Longrightarrow> ?thesis"
    by (simp add: elf_sections_def flash_at_ehdr flash_at_shdr sample_ehdr Let_def)
qed

lemma all_less_3: "(\<forall>k < 3. P k) \<longleftrightarrow> P 0 \<and> P (Suc 0) \<and> P (2 :: nat)"
  by (auto simp: less_Suc_eq numeral_3_eq_3 numeral_2_eq_2)

lemma flash_at_readable: "unat a < 2 ^ 31 \<Longrightarrow> elf_readable (\<lambda>d. d) (flash_at (unat a)) a"
  unfolding elf_readable_def Let_def flash_at_ehdr sample_ehdr
  by (simp add: all_less_3 flash_at_shdr sample_shdr in_flash_def unat_word_ariths)

lemma sample_match:
  "match_any (drop 1 sample_names) ram_sections = Some True" "match_any (drop 7 sample_names) ram_sections = Some False"
  "match_any sample_names ram_sections = Some False"
  "strcmp_at (drop 1 sample_names) ''.virt'' = Some False" "strcmp_at (drop 7 sample_names) ''.virt'' = Some True"
  "strcmp_at sample_names ''.virt'' = Some False" "strcmp_at (drop 1 sample_names) ''.signature'' = Some False"
  "strcmp_at (drop 7 sample_names) ''.signature'' = Some False" "strcmp_at sample_names ''.signature'' = Some False"
  by code_simp+

lemma flash_at_loadable: "unat a < 2 ^ 31 \<Longrightarrow> elf_loadable (\<lambda>d. d) (flash_at (unat a)) [] a"
  unfolding elf_loadable_def Let_def flash_at_ehdr sample_ehdr
  by (auto simp: flash_at_sections flash_at_names flash_at_shdr sample_shdr sample_ehdr named_def ram_size_def copied_def sample_match
      sample_match [unfolded One_nat_def])

lemma flash_at_vm: "unat a < 2 ^ 31 \<Longrightarrow> elf_vm (\<lambda>d. d) (flash_at (unat a)) [] a = a + 176"
  by (simp add: elf_vm_def flash_at_sections flash_at_names sample_shdr virt_at_def sample_match sample_match [unfolded One_nat_def])

theorem ssbl_load_elf_places_witness:
  "\<exists>s'. ssbl_load_elf healthy_env plain_flash (flash_at 0) [] (ssbl_init (\<lambda>_. 0)) 0 = Some (0, s') \<and>
     s_entry s' = 0x42001 \<and> holds (s_ram s') 0x42000 [0xde, 0xad, 0xbe, 0xef] \<and> s_vm s' = 176"
proof -
  have r: "elf_readable (\<lambda>d. d) (flash_at 0) 0" and l: "elf_loadable (\<lambda>d. d) (flash_at 0) [] 0"
    using flash_at_readable [of 0] flash_at_loadable [of 0] by simp_all
  obtain s' where s': "ssbl_load_elf healthy_env plain_flash (flash_at 0) [] (ssbl_init (\<lambda>_. 0)) 0 = Some (0, s')"
    using load_elf_loads [OF nor_flash_plain r l, of healthy_env] by (auto simp: healthy_env_def)
  have "flash_bytes (\<lambda>d. d) (flash_at 0) 172 4 = [0xde, 0xad, 0xbe, 0xef]"
    using flash_at_bytes [of 0 172 4] sample_bytes(2) by simp
  with ssbl_load_elf_places [OF nor_flash_plain r s'] s' flash_at_ehdr [of 0] flash_at_sections [of 0] flash_at_names [of 0] show ?thesis
    by (simp add: sample_shdr copy_section_def copied_def virt_at_def sample_match sample_match [unfolded One_nat_def] sample_ehdr holds_put
        ssbl_init_def)
qed

section \<open>A whole boot\<close>

lemma code_char_of_byte [simp]: "code (char_of_byte b) = unat b"
proof -
  have "unat b < 2 ^ LENGTH(8)" by (rule unsigned_less)
  then show ?thesis by (simp add: char_of_byte_def)
qed

lemma byte_at: "unat (ucast (drop_bit k w :: u32) :: byte) = unat w div 2 ^ k mod 256"
proof -
  have "unat (ucast (drop_bit k w :: u32) :: byte) = unat (drop_bit k w) mod 256"
    by (simp add: unsigned_ucast_eq take_bit_eq_mod)
  also have "unat (drop_bit k w) = unat w div 2 ^ k"
  proof -
    have "unat w < 2 ^ LENGTH(32)" by (rule unsigned_less)
    then have "take_bit 32 (unat w) = unat w" by (simp add: take_bit_nat_eq_self)
    then show ?thesis by (simp only: unsigned_drop_bit_eq) (simp add: drop_bit_eq_div)
  qed
  finally show ?thesis .
qed

lemma nat_bytes: "n < 2 ^ 32 \<Longrightarrow>
  n mod 256 + 256 * (n div 256 mod 256) + 65536 * (n div 65536 mod 256) + 16777216 * (n div 16777216 mod 256) = (n :: nat)"
proof -
  assume "n < 2 ^ 32"
  then have "n div 16777216 mod 256 = n div 16777216" by simp
  moreover have "n div 256 div 256 = n div 65536" "n div 65536 div 256 = n div 16777216" by (simp_all add: div_mult2_eq [symmetric])
  ultimately show ?thesis
    using mult_div_mod_eq [of 256 n] mult_div_mod_eq [of 256 "n div 256"] mult_div_mod_eq [of 256 "n div 65536"] by linarith
qed

lemma int_of_le32_le32: "- (2 ^ 31) \<le> i \<Longrightarrow> i < 2 ^ 31 \<Longrightarrow> int_of_le32 (le32 i) = i"
proof -
  assume i: "- (2 ^ 31) \<le> i" "i < 2 ^ 31"
  define w where "w = (word_of_int i :: u32)"
  have w: "unat w < 2 ^ 32" proof -
    have "unat w < 2 ^ LENGTH(32)" by (rule unsigned_less)
    then show ?thesis by simp
  qed
  have k: "code (le32 i ! k) = unat w div 2 ^ (8 * k) mod 256" if "k < 4" for k
    using that by (simp add: le32_def w_def byte_at)
  have "int_of_le32 (le32 i) = s32 (int (unat w))"
    unfolding int_of_le32_def using nat_bytes [OF w] k [of 0] k [of 1] k [of 2] k [of 3] by (simp only: numeral_less_iff) simp
  also have "\<dots> = s32 i" by (simp add: s32_def w_def)
  finally show ?thesis using i by (simp add: s32_id)
qed

lemma copy_section_above:
  "(copied names sh \<longrightarrow> unat (sh_addr sh) + unat (sh_size sh) \<le> limit) \<Longrightarrow> limit \<le> x \<Longrightarrow>
   copy_section cell dev flash names ram sh x = ram x"
  by (auto simp: copy_section_def put_def flash_bytes_def)

lemma copy_sections_above:
  "\<forall>sh \<in> set shs. copied names sh \<longrightarrow> unat (sh_addr sh) + unat (sh_size sh) \<le> limit \<Longrightarrow> limit \<le> x \<Longrightarrow>
   foldl (copy_section cell dev flash names) ram shs x = ram x"
  by (induction shs arbitrary: ram) (simp_all add: copy_section_above [where limit = limit])

lemma copy_sections_cong:
  "ram x = ram' x \<Longrightarrow>
   foldl (copy_section cell dev flash names) ram shs x = foldl (copy_section cell dev flash names) ram' shs x"
proof (induction shs arbitrary: ram ram')
  case (Cons sh shs)
  have "copy_section cell dev flash names ram sh x = copy_section cell dev flash names ram' sh x"
    using Cons.prems by (simp add: copy_section_def put_def)
  from Cons.IH [of "copy_section cell dev flash names ram sh" "copy_section cell dev flash names ram' sh", OF this]
  show ?case by simp
qed simp

lemma add_boot_args_below:
  "s_boot_arg_p (foldl ssbl_add_boot_arg s args) \<le> s_boot_arg_p s \<and> s_vm (foldl ssbl_add_boot_arg s args) = s_vm s \<and>
   (\<forall>x < s_boot_arg_p (foldl ssbl_add_boot_arg s args). s_ram (foldl ssbl_add_boot_arg s args) x = s_ram s x)"
proof (induction args arbitrary: s)
  case (Cons a args)
  have "s_boot_arg_p (ssbl_add_boot_arg s a) \<le> s_boot_arg_p s" "s_vm (ssbl_add_boot_arg s a) = s_vm s"
      "\<forall>x < s_boot_arg_p (ssbl_add_boot_arg s a). s_ram (ssbl_add_boot_arg s a) x = s_ram s x"
    by (auto simp: ssbl_add_boot_arg_def Let_def put_def)
  with Cons.IH [of "ssbl_add_boot_arg s a"] show ?case by auto
qed simp

lemma add_vm_arg_below:
  "s_boot_arg_p (add_vm_arg s) \<le> s_boot_arg_p s \<and> (\<forall>x < s_boot_arg_p (add_vm_arg s). s_ram (add_vm_arg s) x = s_ram s x)"
  by (auto simp: add_vm_arg_def Let_def put_def)

text \<open>The image ends below the place of the boot arguments.\<close>

definition elf_below :: "('d \<Rightarrow> nat \<Rightarrow> byte) \<Rightarrow> 'd \<Rightarrow> byte list \<Rightarrow> u32 \<Rightarrow> nat \<Rightarrow> bool" where
  "elf_below cell dev junk flash limit \<longleftrightarrow>
     (\<forall>sh \<in> set (elf_sections cell dev flash). copied (elf_names cell dev junk flash) sh \<longrightarrow>
        unat (sh_addr sh) + unat (sh_size sh) \<le> limit)"

lemma load_elf_args_at:
  assumes "nor_flash ops cell" "elf_readable cell dev flash" "ssbl_load_elf e ops dev junk s flash = Some (0, s')"
    and "args_at s args" "elf_below cell dev junk flash (s_boot_arg_p s)"
  shows "args_at s' args"
proof -
  note ld = load_elf_ok [OF assms(1-3)]
  have "holds (s_ram s') (s_boot_arg_p s) (arg_block args) = holds (s_ram s) (s_boot_arg_p s) (arg_block args)"
    using ld assms(5) by (intro holds_cong) (simp add: elf_below_def copy_sections_above)
  with ld assms(4) show ?thesis by (simp add: args_at_def)
qed

definition vm_args :: "u32 \<Rightarrow> string list" where
  "vm_args vm = (if vm \<noteq> 0 then [vm_flash_arg vm] else [])"

lemma add_vm_arg_at:
  assumes "args_at s args" "29 \<le> s_boot_arg_p s"
  shows "args_at (add_vm_arg s) (vm_args (s_vm s) @ args)"
proof (cases "s_vm s = 0")
  case False
  have len: "length (vm_flash_arg (s_vm s)) = 28" by (simp add: vm_flash_arg_def)
  have put: "put (f(p - 1 := 0)) (p - 29) bs = put f (p - 29) (bs @ [0])" if "length bs = 28" "29 \<le> p" for f p and bs :: "byte list"
    using that by (auto simp: put_def nth_append fun_eq_iff)
  have 1: "ssbl_add_boot_arg s (vm_flash_arg (s_vm s)) = add_vm_arg s"
    using False assms(2) len put [of "bytes (vm_flash_arg (s_vm s))" "s_boot_arg_p s" "s_ram s"]
    by (simp add: add_vm_arg_def ssbl_add_boot_arg_def Let_def)
  have "args_at (ssbl_add_boot_arg s (vm_flash_arg (s_vm s))) (vm_flash_arg (s_vm s) # args)"
    by (rule add_boot_arg_at) (use assms len in simp_all)
  with False show ?thesis unfolding 1 by (simp add: vm_args_def)
qed (simp add: add_vm_arg_def vm_args_def assms(1))

lemma add_vm_arg_entry: "s_entry (add_vm_arg s) = s_entry s"
  by (simp add: add_vm_arg_def Let_def)

lemma vm_args_NUL: "a \<in> set (vm_args vm) \<Longrightarrow> NUL \<notin> set a"
  using sprintf_08x_NUL by (auto simp: vm_args_def vm_flash_arg_def split: if_splits)

lemma vm_args_room:
  assumes "args_at s (vm_args vm @ rev args)" "args_fit args"
  shows "4 * length (vm_args vm @ rev args) \<le> s_boot_arg_p s"
proof -
  have "length (arg_block (vm_args vm @ rev args)) = length (arg_block (vm_args vm)) + length (arg_block (rev args))"
    by (simp add: arg_block_def)
  moreover have "length (arg_block (vm_args vm)) + 4 * length (vm_args vm) \<le> 33"
    by (simp add: vm_args_def vm_flash_arg_def)
  ultimately show ?thesis using assms by (simp add: args_at_def args_fit_def args_fit_sum)
qed

text \<open>From the selected image to its entry: the image is loaded, the overlay argument is added, \<open>argv\<close> is built.\<close>

lemma boot_image:
  assumes "nor_flash ops cell" "elf_readable cell dev flash" "elf_loadable cell dev junk flash"
    "elf_below cell dev junk flash (0xbfffc - length (arg_block args))" "reads_ok e" "args_fit args"
  shows "\<exists>s' argv ram'. ssbl_load_elf e ops dev junk (foldl ssbl_add_boot_arg (ssbl_init ram) args) flash = Some (0, s') \<and>
    s_entry s' = e_entry (elf_ehdr cell dev flash) \<and> ssbl_start_image (add_vm_arg s') = Some (argv, ram') \<and>
    argv_holds ram' argv (vm_args (elf_vm cell dev junk flash) @ rev args) \<and>
    (\<forall>x < argv. ram' x =
       foldl (copy_section cell dev flash (elf_names cell dev junk flash)) ram (elf_sections cell dev flash) x)"
proof -
  define s where "s = foldl ssbl_add_boot_arg (ssbl_init ram) args"
  define vm where "vm = elf_vm cell dev junk flash"
  obtain s' where load: "ssbl_load_elf e ops dev junk s flash = Some (0, s')"
    using load_elf_loads [OF assms(1-3), of e s] assms(5) by (auto simp: reads_ok_def)
  note ld = load_elf_ok [OF assms(1,2) load]
  have at: "args_at s (rev args)" unfolding s_def by (rule image_args_at [OF assms(6)])
  then have "s_boot_arg_p s + length (arg_block args) = 0xbfffc" by (simp add: args_at_def)
  then have p: "s_boot_arg_p s = 0xbfffc - length (arg_block args)" by linarith
  have vm: "s_vm s' = vm"
    using ld add_boot_args_below [of "ssbl_init ram" args] by (simp add: vm_def elf_vm_def s_def ssbl_init_def)
  have "args_at s' (rev args)"
    by (rule load_elf_args_at [OF assms(1,2) load at]) (use assms(4) p in simp)
  moreover have "s_boot_arg_p s' = 0xbfffc - length (arg_block args)" using ld p by simp
  ultimately have args': "args_at (add_vm_arg s') (vm_args vm @ rev args)"
    unfolding vm [symmetric] using assms(6) by (intro add_vm_arg_at) (simp, simp add: args_fit_def args_fit_sum, linarith)
  have "\<forall>a \<in> set (vm_args vm @ rev args). NUL \<notin> set a" using assms(6) vm_args_NUL by (auto simp: args_fit_def)
  from start_image_ok [OF args' this vm_args_room [OF args' assms(6)]] obtain argv ram' where
    st: "ssbl_start_image (add_vm_arg s') = Some (argv, ram')" "argv_holds ram' argv (vm_args vm @ rev args)"
      "argv \<le> s_boot_arg_p (add_vm_arg s')" "\<forall>x < argv. ram' x = s_ram (add_vm_arg s') x" by blast
  have "ram' x = foldl (copy_section cell dev flash (elf_names cell dev junk flash)) ram (elf_sections cell dev flash) x"
    if "x < argv" for x
  proof -
    have "ram' x = s_ram s' x" using that st(3,4) add_vm_arg_below [of s'] by simp
    also have "\<dots> = foldl (copy_section cell dev flash (elf_names cell dev junk flash)) (s_ram s) (elf_sections cell dev flash) x"
      using ld by simp
    finally have 1: "ram' x = foldl (copy_section cell dev flash (elf_names cell dev junk flash)) (s_ram s) (elf_sections cell dev flash) x" .
    have 2: "s_ram s x = ram x"
      using that st(3) add_vm_arg_below [of s'] ld add_boot_args_below [of "ssbl_init ram" args] by (simp add: s_def ssbl_init_def)
    show ?thesis unfolding 1 by (rule copy_sections_cong) (rule 2)
  qed
  with st(1,2) load ld show ?thesis unfolding s_def vm_def by blast
qed

text \<open>
  Property C19. A whole boot: with no dirty mark, a \<open>part.json\<close> of any layout naming the images \<open>ims\<close>, a \<open>boot.json\<close>
  holding \<open>k\<close>, and at the start sector of the \<open>k\<close>-th image an ELF image that the loader takes and that ends below the
  boot arguments, \<open>main\<close> enters that image at its entry point, with \<open>argv\<close> holding the flash location of its \<open>.virt\<close>
  section, if there is one, and the boot arguments of \<open>part.json\<close>.  Below \<open>argv\<close> the RAM is what it was, with the
  sections of the image copied to their addresses, and the file system is left as it was.
\<close>

theorem ssbl_main_boots:
  assumes "reads_ok e" "image_wf fresh"
    and part: "\<forall>im \<in> set ims. spec_ok im" "\<forall>kv \<in> set (pre @ post). extra_ok kv" "layout_ok lay tail"
      "map snd lay = part_file_items pre ims post"
    and files: "m DIRTY_BIT_FILE_PATH = None" "m PART_FILE_PATH = Some (layout_text lay tail)"
      "m BOOT_FILE_PATH = Some (boot_text w1 w2 key w3 w4 (int k) (c # rest))"
    and boot: "\<forall>c \<in> set (w1 @ w2 @ w3 @ w4). isjsonspace c" "\<not> isdigit c" "tolower c \<noteq> CHR ''x''"
    and k: "k < length ims" "k < 2 ^ 31"
    and image: "args = map (\<lambda>(k, v). k @ ''='' @ v) (im_args (ims ! k))" "args_fit args"
      "flash = word_of_int (im_sector (ims ! k) * 4096)"
    and elf: "nor_flash ops cell" "elf_readable cell dev flash" "elf_loadable cell dev junk flash"
      "elf_below cell dev junk flash (0xbfffc - length (arg_block args))"
  shows "\<exists>argv ram'. ssbl_main e g fresh junk 0 ops dev m ram = (Started (e_entry (elf_ehdr cell dev flash)) argv ram', m) \<and>
    argv_holds ram' argv (vm_args (elf_vm cell dev junk flash) @ rev args) \<and>
    (\<forall>x < argv. ram' x =
       foldl (copy_section cell dev flash (elf_names cell dev junk flash)) ram (elf_sections cell dev flash) x)"
proof -
  define images where "images = rev (map2 (node_of fresh) (map int [0..<length ims]) ims)"
  define node where "node = node_of fresh (int k) (ims ! k)"
  define s where "s = foldl ssbl_add_boot_arg (ssbl_init ram) args"
  have parse: "ssbl_parse_part_file e fresh m = Some (0, images)"
    unfolding images_def using assms(1,2) part files(2) by (rule parse_text)
  have "rev images ! k = node" using k(1) by (simp add: images_def node_def)
  with find_index [OF parse_images_wf [OF assms(2) parse], of k] k(1)
  have get: "ssbl_image_info_get (ssbl_init ram) images (int k) = (s, Some node)"
    by (simp add: ssbl_image_info_get_def images_def node_def node_of_def image(1) s_def)
  have sector: "int_of_le32 (pi_sector node) = im_sector (ims ! k)"
    using part(1) k(1) by (simp add: node_def node_of_def spec_ok_def int_of_le32_le32)
  have index: "ssbl_boot_index_get e m = Some (int k)"
    using assms(1) files(3) boot_index_scan_text [OF boot(1), of "int k" c key rest] boot(2,3) k(2)
    by (simp add: ssbl_boot_index_get_def)
  from boot_image [OF elf assms(1) image(2), of ram] obtain s' argv ram' where
    st: "ssbl_load_elf e ops dev junk s flash = Some (0, s')" "s_entry s' = e_entry (elf_ehdr cell dev flash)"
      "ssbl_start_image (add_vm_arg s') = Some (argv, ram')" "argv_holds ram' argv (vm_args (elf_vm cell dev junk flash) @ rev args)"
      "\<forall>x < argv. ram' x = foldl (copy_section cell dev flash (elf_names cell dev junk flash)) ram (elf_sections cell dev flash) x"
    unfolding s_def by blast
  have "ssbl_sanity_check e g m = (Inr (), m)"
    using assms(1) files(1) by (simp add: ssbl_sanity_check_def utils_is_file_present_def)
  with st parse index get sector image(3) show ?thesis
    by (simp add: ssbl_main_def Let_def add_vm_arg_entry)
qed

text \<open>The boot of the files in \<open>root_fs/root\<close> of the repository, with an image at sector 32.\<close>

definition root_boot_json :: string where
  "root_boot_json = ''{\<newline>'' @ ''    \"image\" : 0\<newline>'' @ ''}\<newline>''"

lemma root_boot_text: "root_boot_json = boot_text [] ''\<newline>    '' ''image'' '' '' '' '' (int 0) (CHR ''\<newline>'' # ''}\<newline>'')"
  by (simp add: root_boot_json_def boot_text_def json_quote_def root_numbers)

definition root_fs :: fs where
  "root_fs = [PART_FILE_PATH \<mapsto> root_part_json, BOOT_FILE_PATH \<mapsto> root_boot_json]"

theorem ssbl_main_boots_witness:
  "\<exists>argv ram'. ssbl_main healthy_env (\<lambda>_. (0, [])) fresh_node [] 0 plain_flash (flash_at 131072) root_fs (\<lambda>_. 0) =
      (Started 0x42001 argv ram', root_fs) \<and>
    argv_holds ram' argv [vm_flash_arg 0x200b0, ''passphrase=123467890'', ''ssid=innotest'']"
proof -
  let ?args = "[''ssid=innotest'', ''passphrase=123467890'']" and ?a = "131072 :: u32"
  have a: "unat ?a = 131072" "unat ?a < 2 ^ 31" by simp_all
  note at = flash_at_ehdr [of ?a] flash_at_vm [OF a(2)] flash_at_sections [OF a(2)]
  have below: "elf_below (\<lambda>d. d) (flash_at 131072) [] ?a (0xbfffc - length (arg_block ?args))"
    using at(3) by (simp add: elf_below_def sample_shdr)
  have "\<exists>argv ram'. ssbl_main healthy_env (\<lambda>_. (0, [])) fresh_node [] 0 plain_flash (flash_at 131072) root_fs (\<lambda>_. 0) =
      (Started (e_entry (elf_ehdr (\<lambda>d. d) (flash_at 131072) ?a)) argv ram', root_fs) \<and>
    argv_holds ram' argv (vm_args (elf_vm (\<lambda>d. d) (flash_at 131072) [] ?a) @ rev ?args) \<and>
    (\<forall>x < argv. ram' x = foldl (copy_section (\<lambda>d. d) (flash_at 131072) ?a (elf_names (\<lambda>d. d) (flash_at 131072) [] ?a)) (\<lambda>_. 0)
      (elf_sections (\<lambda>d. d) (flash_at 131072) ?a) x)"
  proof (rule ssbl_main_boots [where k = 0, OF _ _ root_images_ok root_extras_ok root_layout_ok root_layout_items])
    show "root_fs BOOT_FILE_PATH = Some (boot_text [] ''\<newline>    '' ''image'' '' '' '' '' (int 0) (CHR ''\<newline>'' # ''}\<newline>''))"
      by (simp add: root_fs_def path_defs root_boot_text)
    show "args_fit ?args" by (simp add: args_fit_def)
  qed (use below flash_at_readable [OF a(2)] flash_at_loadable [OF a(2)] in
      \<open>simp_all add: root_fs_def path_defs root_layout_text root_images_def isjsonspace_def isdigit_def tolower_def isupper_def\<close>)
  then show ?thesis using at by (simp add: sample_ehdr vm_args_def) blast
qed

end
