(* ===== verification/Mqtt_Packet.thy ===== *)
theory Mqtt_Packet
  imports Prelude "HOL-Library.Signed_Division" "HOL-Library.Monad_Syntax"
begin

unbundle bit_operations_syntax

text \<open>
  The MQTT packet primitives (components/mqtt/src/MQTTPacket.c and MQTTPacket.h): the header byte, the
  remaining-length code, the readers and writers of characters, integers and strings, and the
  blocking and non-blocking readers of a whole packet.  Buffers are byte lists of fixed length; a
  read or write outside of one has no result (\<^const>\<open>None\<close>).  The transport is a parameter, a
  function that takes a state and a byte count and returns the code of the C callback, the bytes
  and the new state.  \<open>char\<close> is unsigned, as on the ARM targets of the SDK.
\<close>

section \<open>Buffers\<close>

definition buf_put :: "byte list \<Rightarrow> nat \<Rightarrow> byte list \<Rightarrow> byte list option" where
  "buf_put buf p bs =
     (if p + length bs \<le> length buf then Some (take p buf @ bs @ drop (p + length bs) buf) else None)"

text \<open>An output buffer and the write pointer \<open>*pptr\<close>.\<close>

type_synonym writer = "byte list \<times> nat"

definition mqtt_put :: "byte list \<Rightarrow> writer \<Rightarrow> writer option" where
  "mqtt_put bs w = map_option (\<lambda>buf. (buf, snd w + length bs)) (buf_put (fst w) (snd w) bs)"

section \<open>The header byte\<close>

abbreviation (input) CONNECT :: byte where "CONNECT \<equiv> 1"
abbreviation (input) CONNACK :: byte where "CONNACK \<equiv> 2"
abbreviation (input) PUBLISH :: byte where "PUBLISH \<equiv> 3"
abbreviation (input) PUBACK :: byte where "PUBACK \<equiv> 4"
abbreviation (input) PUBREL :: byte where "PUBREL \<equiv> 6"
abbreviation (input) PUBCOMP :: byte where "PUBCOMP \<equiv> 7"
abbreviation (input) SUBSCRIBE :: byte where "SUBSCRIBE \<equiv> 8"
abbreviation (input) SUBACK :: byte where "SUBACK \<equiv> 9"
abbreviation (input) UNSUBSCRIBE :: byte where "UNSUBSCRIBE \<equiv> 10"
abbreviation (input) UNSUBACK :: byte where "UNSUBACK \<equiv> 11"
abbreviation (input) PINGREQ :: byte where "PINGREQ \<equiv> 12"
abbreviation (input) DISCONNECT :: byte where "DISCONNECT \<equiv> 14"

definition MQTTPACKET_BUFFER_TOO_SHORT :: int where
  "MQTTPACKET_BUFFER_TOO_SHORT = - 2"

definition MQTTPACKET_READ_ERROR :: int where
  "MQTTPACKET_READ_ERROR = - 1"

record MQTTHeader =
  h_retain :: byte
  h_qos :: byte
  h_dup :: byte
  h_type :: byte

text \<open>The union: the bit fields of a byte, and the byte of the bit fields, each cut to its width.\<close>

definition header_bits :: "byte \<Rightarrow> MQTTHeader" where
  "header_bits b = \<lparr>h_retain = b AND 1, h_qos = drop_bit 1 b AND 3, h_dup = drop_bit 3 b AND 1, h_type = drop_bit 4 b\<rparr>"

definition header_byte :: "MQTTHeader \<Rightarrow> byte" where
  "header_byte h = (h_retain h AND 1) OR push_bit 1 (h_qos h AND 3) OR push_bit 3 (h_dup h AND 1) OR push_bit 4 (h_type h)"

section \<open>The remaining length\<close>

text \<open>The bytes \<open>MQTTPacket_encode\<close> writes.\<close>

function MQTTPacket_encode :: "int \<Rightarrow> byte list" where
  "MQTTPacket_encode n =
     (let d = word_of_int (n smod 128);
          n = n sdiv 128
      in if n > 0 then (d OR 0x80) # MQTTPacket_encode n else [d])"
  by auto
termination
proof (relation "measure nat")
  fix n x :: int and d :: byte
  assume x: "x = n sdiv 128" "x > 0"
  then have "n > 0" by (simp add: signed_divide_int_def zero_less_mult_iff sgn_if split: if_splits)
  with x show "(x, n) \<in> measure nat" by (simp add: signed_divide_int_def)
qed simp

declare MQTTPacket_encode.simps [simp del]

text \<open>
  \<open>MQTTPacket_decode\<close> on a source of characters: the count of bytes, the value and the source.
\<close>

function decode_loop ::
    "('s \<Rightarrow> (int \<times> byte \<times> 's) option) \<Rightarrow> 's \<Rightarrow> nat \<Rightarrow> int \<Rightarrow> int \<Rightarrow> (nat \<times> int \<times> 's) option" where
  "decode_loop getcharfn s len multiplier value =
     (let len = len + 1 in
      if len > 4 then Some (len, value, s)
      else
        case getcharfn s of
          None \<Rightarrow> None
        | Some (rc, c, s) \<Rightarrow>
            if rc \<noteq> 1 then Some (len, value, s)
            else
              let value = value + uint (c AND 127) * multiplier;
                  multiplier = multiplier * 128
              in if c AND 128 \<noteq> 0 then decode_loop getcharfn s len multiplier value
                 else Some (len, value, s))"
  by auto
termination
  by (relation "measure (\<lambda>(_, _, len, _, _). 4 - len)") auto

declare decode_loop.simps [simp del]

definition MQTTPacket_decode :: "('s \<Rightarrow> (int \<times> byte \<times> 's) option) \<Rightarrow> 's \<Rightarrow> (nat \<times> int \<times> 's) option" where
  "MQTTPacket_decode getcharfn s = decode_loop getcharfn s 0 1 0"

definition MQTTPacket_len :: "int \<Rightarrow> int" where
  "MQTTPacket_len rem_len =
     (let rem_len = rem_len + 1
      in if rem_len < 128 then rem_len + 1
         else if rem_len < 16384 then rem_len + 2
         else if rem_len < 2097151 then rem_len + 3
         else rem_len + 4)"

section \<open>Readers and writers\<close>

definition mqtt_readInt :: "byte list \<Rightarrow> nat \<Rightarrow> (int \<times> nat) option" where
  "mqtt_readInt buf p =
     (if p + 1 < length buf then Some (256 * uint (buf ! p) + uint (buf ! (p + 1)), p + 2) else None)"

definition mqtt_readChar :: "byte list \<Rightarrow> nat \<Rightarrow> (byte \<times> nat) option" where
  "mqtt_readChar buf p = (if p < length buf then Some (buf ! p, p + 1) else None)"

definition mqtt_bufchar :: "byte list \<Rightarrow> nat \<Rightarrow> (int \<times> byte \<times> nat) option" where
  "mqtt_bufchar buf p = map_option (\<lambda>(c, p). (1, c, p)) (mqtt_readChar buf p)"

text \<open>The count of bytes and the value.\<close>

definition MQTTPacket_decodeBuf :: "byte list \<Rightarrow> nat \<Rightarrow> (nat \<times> int) option" where
  "MQTTPacket_decodeBuf buf p =
     map_option (\<lambda>(len, value, _). (len, value)) (MQTTPacket_decode (mqtt_bufchar buf) p)"

definition mqtt_writeChar :: "byte \<Rightarrow> writer \<Rightarrow> writer option" where
  "mqtt_writeChar c w = mqtt_put [c] w"

definition mqtt_writeInt :: "int \<Rightarrow> writer \<Rightarrow> writer option" where
  "mqtt_writeInt anInt w =
     do { w \<leftarrow> mqtt_writeChar (word_of_int (anInt sdiv 256)) w;
          mqtt_writeChar (word_of_int (anInt smod 256)) w }"

text \<open>A C string is the list of its bytes before the terminator.\<close>

definition mqtt_writeCString :: "byte list \<Rightarrow> writer \<Rightarrow> writer option" where
  "mqtt_writeCString str w = do { w \<leftarrow> mqtt_writeInt (int (length str)) w; mqtt_put str w }"

text \<open>\<open>data\<close> is the memory its pointer leads to.\<close>

record MQTTString =
  cstring :: "byte list option"
  lenstring_len :: int
  lenstring_data :: "byte list option"

definition mqtt_writeMQTTString :: "MQTTString \<Rightarrow> writer \<Rightarrow> writer option" where
  "mqtt_writeMQTTString mqttstring w =
     (if lenstring_len mqttstring > 0 then
        do { w \<leftarrow> mqtt_writeInt (lenstring_len mqttstring) w;
             data \<leftarrow> lenstring_data mqttstring;
             if nat (lenstring_len mqttstring) \<le> length data
             then mqtt_put (take (nat (lenstring_len mqttstring)) data) w
             else None }
      else
        case cstring mqttstring of
          Some str \<Rightarrow> mqtt_writeCString str w
        | None \<Rightarrow> mqtt_writeInt 0 w)"

text \<open>The return code, the string and the read pointer; the string points into the buffer.\<close>

definition mqtt_readMQTTLenString :: "MQTTString \<Rightarrow> byte list \<Rightarrow> nat \<Rightarrow> nat \<Rightarrow> (int \<times> MQTTString \<times> nat) option" where
  "mqtt_readMQTTLenString mqttstring buf p enddata =
     (if int enddata - int p > 1 then
        do { (len, p) \<leftarrow> mqtt_readInt buf p;
             let mqttstring = mqttstring\<lparr>lenstring_len := len\<rparr>;
             if p + nat len \<le> enddata
             then Some (1, mqttstring\<lparr>lenstring_data := Some (take (nat len) (drop p buf)), cstring := None\<rparr>, p + nat len)
             else Some (0, mqttstring\<lparr>cstring := None\<rparr>, p) }
      else Some (0, mqttstring\<lparr>cstring := None\<rparr>, p))"

definition MQTTstrlen :: "MQTTString \<Rightarrow> int" where
  "MQTTstrlen mqttstring =
     (case cstring mqttstring of Some str \<Rightarrow> int (length str) | None \<Rightarrow> lenstring_len mqttstring)"

section \<open>Reading a packet\<close>

type_synonym 's getfn = "'s \<Rightarrow> nat \<Rightarrow> int \<times> byte list \<times> 's"

definition get_char :: "'s getfn \<Rightarrow> 's \<Rightarrow> int \<times> byte \<times> 's" where
  "get_char getfn s = (case getfn s 1 of (rc, bs, s) \<Rightarrow> (rc, case bs of [] \<Rightarrow> 0 | c # _ \<Rightarrow> c, s))"

text \<open>The packet type or -1, the buffer and the transport.\<close>

definition MQTTPacket_read :: "byte list \<Rightarrow> int \<Rightarrow> 's getfn \<Rightarrow> 's \<Rightarrow> (int \<times> byte list \<times> 's) option" where
  "MQTTPacket_read buf buflen getfn s =
     (case get_char getfn s of (rc, c, s) \<Rightarrow>
        if rc \<noteq> 1 then Some (- 1, buf, s)
        else
          do { buf \<leftarrow> buf_put buf 0 [c];
               (_, rem_len, s) \<leftarrow> MQTTPacket_decode (\<lambda>s. Some (get_char getfn s)) s;
               let code = MQTTPacket_encode rem_len;
               buf \<leftarrow> buf_put buf 1 code;
               let len = 1 + length code;
               if rem_len + int len > buflen then Some (- 1, buf, s)
               else if rem_len = 0 then Some (uint (h_type (header_bits (buf ! 0))), buf, s)
               else
                 case getfn s (nat rem_len) of (rc, bs, s) \<Rightarrow>
                   do { buf \<leftarrow> buf_put buf len bs;
                        Some (if rc \<noteq> rem_len then - 1 else uint (h_type (header_bits (buf ! 0))), buf, s) } })"

record 's MQTTTransport =
  sck :: 's
  multiplier :: int
  rem_len :: int
  trp_len :: nat
  state :: int

text \<open>The loop of \<open>MQTTPacket_decodenb\<close>: -1 for an error, 0 for call again, or the count of bytes.\<close>

function decodenb_loop :: "'s getfn \<Rightarrow> 's MQTTTransport \<Rightarrow> int \<times> 's MQTTTransport" where
  "decodenb_loop getfn trp =
     (if trp_len trp \<ge> 4 then (MQTTPACKET_READ_ERROR, trp)
      else
        case get_char getfn (sck trp) of (frc, c, s) \<Rightarrow>
          let trp = trp\<lparr>sck := s\<rparr> in
          if frc = - 1 then (MQTTPACKET_READ_ERROR, trp)
          else if frc = 0 then (0, trp)
          else
            let trp = trp\<lparr>trp_len := trp_len trp + 1, rem_len := rem_len trp + uint (c AND 127) * multiplier trp,
                          multiplier := multiplier trp * 128\<rparr>
            in if c AND 128 \<noteq> 0 then decodenb_loop getfn trp else (int (trp_len trp), trp))"
  by auto
termination
  by (relation "measure (\<lambda>(_, trp). 4 - trp_len trp)") auto

declare decodenb_loop.simps [simp del]

definition MQTTPacket_decodenb :: "'s getfn \<Rightarrow> 's MQTTTransport \<Rightarrow> int \<times> 's MQTTTransport" where
  "MQTTPacket_decodenb getfn trp =
     (let trp = (if trp_len trp = 0 then trp\<lparr>multiplier := 1, rem_len := 0\<rparr> else trp)
      in decodenb_loop getfn trp)"

text \<open>
  The cases of \<open>MQTTPacket_readnb\<close>, each falling through to the next: the type or -1 or 0 (call again),
  the buffer and the transport.
\<close>

definition readnb_exit :: "int \<Rightarrow> byte list \<Rightarrow> 's MQTTTransport \<Rightarrow> int \<times> byte list \<times> 's MQTTTransport" where
  "readnb_exit rc buf trp = (rc, buf, trp\<lparr>state := 0\<rparr>)"

definition readnb_case2 ::
    "'s getfn \<Rightarrow> byte list \<Rightarrow> 's MQTTTransport \<Rightarrow> (int \<times> byte list \<times> 's MQTTTransport) option" where
  "readnb_case2 getfn buf trp =
     (if rem_len trp \<noteq> 0 then
        case getfn (sck trp) (nat (rem_len trp)) of (frc, bs, s) \<Rightarrow>
          let trp = trp\<lparr>sck := s\<rparr> in
          if frc = - 1 then Some (readnb_exit (- 1) buf trp)
          else if frc = 0 then Some (0, buf, trp)
          else
            do { buf \<leftarrow> buf_put buf (trp_len trp) bs;
                 let trp = trp\<lparr>rem_len := rem_len trp - frc, trp_len := trp_len trp + nat frc\<rparr>;
                 if rem_len trp \<noteq> 0 then Some (0, buf, trp)
                 else Some (readnb_exit (uint (h_type (header_bits (buf ! 0)))) buf trp) }
      else Some (readnb_exit (uint (h_type (header_bits (buf ! 0)))) buf trp))"

definition readnb_case1 ::
    "'s getfn \<Rightarrow> byte list \<Rightarrow> int \<Rightarrow> 's MQTTTransport \<Rightarrow> (int \<times> byte list \<times> 's MQTTTransport) option" where
  "readnb_case1 getfn buf buflen trp =
     (case MQTTPacket_decodenb getfn trp of (frc, trp) \<Rightarrow>
        if frc = MQTTPACKET_READ_ERROR then Some (readnb_exit (- 1) buf trp)
        else if frc = 0 then Some (0, buf, trp)
        else
          do { let code = MQTTPacket_encode (rem_len trp);
               buf \<leftarrow> buf_put buf 1 code;
               let trp = trp\<lparr>trp_len := 1 + length code\<rparr>;
               if rem_len trp + int (trp_len trp) > buflen then Some (readnb_exit (- 1) buf trp)
               else readnb_case2 getfn buf (trp\<lparr>state := state trp + 1\<rparr>) })"

definition readnb_case0 ::
    "'s getfn \<Rightarrow> byte list \<Rightarrow> int \<Rightarrow> 's MQTTTransport \<Rightarrow> (int \<times> byte list \<times> 's MQTTTransport) option" where
  "readnb_case0 getfn buf buflen trp =
     (case get_char getfn (sck trp) of (frc, c, s) \<Rightarrow>
        let trp = trp\<lparr>sck := s\<rparr> in
        if frc = - 1 then Some (readnb_exit (- 1) buf trp)
        else if frc = 0 then Some (0, buf, trp)
        else
          do { buf \<leftarrow> buf_put buf 0 [c];
               readnb_case1 getfn buf buflen (trp\<lparr>trp_len := 0, state := state trp + 1\<rparr>) })"

definition MQTTPacket_readnb ::
    "'s getfn \<Rightarrow> byte list \<Rightarrow> int \<Rightarrow> 's MQTTTransport \<Rightarrow> (int \<times> byte list \<times> 's MQTTTransport) option" where
  "MQTTPacket_readnb getfn buf buflen trp =
     (if state trp = 0 then readnb_case0 getfn buf buflen trp
      else if state trp = 1 then readnb_case1 getfn buf buflen trp
      else if state trp = 2 then readnb_case2 getfn buf trp
      else readnb_case0 getfn buf buflen (trp\<lparr>state := 0\<rparr>))"

section \<open>Buffers and bytes\<close>

lemma mqtt_put_append: "mqtt_put xs w \<bind> mqtt_put ys = mqtt_put (xs @ ys) w"
  by (cases w) (auto simp: mqtt_put_def buf_put_def ac_simps)

lemma mqtt_put_start: "length bs \<le> length buf \<Longrightarrow> mqtt_put bs (buf, 0) = Some (bs @ drop (length bs) buf, length bs)"
  by (simp add: mqtt_put_def buf_put_def)

lemma mqtt_put_None: "length buf < p + length bs \<Longrightarrow> mqtt_put bs (buf, p) = None"
  by (simp add: mqtt_put_def buf_put_def)

lemma mask_7: "127 = (mask 7 :: byte)" "128 = (2 ^ 7 :: byte)"
  by (simp_all add: mask_eq_exp_minus_1)

lemma low7:
  assumes "0 \<le> d" "d < 128"
  shows "uint (word_of_int d AND 127 :: byte) = d" "(word_of_int d AND 128 :: byte) = 0"
    "uint ((word_of_int d OR 0x80) AND 127 :: byte) = d" "(word_of_int d OR 0x80) AND 128 \<noteq> (0 :: byte)"
proof -
  have t: "take_bit 7 (word_of_int d :: byte) = word_of_int d"
    using assms by (simp add: take_bit_of_int take_bit_int_eq_self)
  have u: "uint (word_of_int d :: byte) = d"
    using assms by (simp add: uint_word_of_int)
  have nb: "\<not> bit (word_of_int d :: byte) 7"
    by (subst t [symmetric]) (simp add: bit_take_bit_iff)
  show "uint (word_of_int d AND 127 :: byte) = d"
    unfolding mask_7 take_bit_eq_mask [symmetric] t by (rule u)
  show "(word_of_int d AND 128 :: byte) = 0"
    unfolding mask_7(2) unfolding and_exp_eq_0_iff_not_bit by (rule nb)
  have "take_bit 7 (word_of_int d OR 2 ^ 7 :: byte) = word_of_int d"
    by (rule bit_word_eqI) (use t in \<open>auto simp: bit_take_bit_iff bit_or_iff bit_exp_iff dest: arg_cong [of _ _ "\<lambda>w. bit w _"]\<close>)
  then show "uint ((word_of_int d OR 0x80) AND 127 :: byte) = d"
    unfolding mask_7 take_bit_eq_mask [symmetric] by (simp only: u)
  show "(word_of_int d OR 0x80) AND 128 \<noteq> (0 :: byte)"
    unfolding mask_7(2) by (simp only: and_exp_eq_0_iff_not_bit bit_or_iff) (simp add: bit_exp_iff)
qed

section \<open>The remaining length round trip\<close>

lemma encode_small: "0 \<le> n \<Longrightarrow> n < 128 \<Longrightarrow> MQTTPacket_encode n = [word_of_int n]"
  by (subst MQTTPacket_encode.simps) (simp add: signed_divide_int_def signed_modulo_int_def sgn_if)

lemma encode_big: "128 \<le> n \<Longrightarrow> MQTTPacket_encode n = (word_of_int (n mod 128) OR 0x80) # MQTTPacket_encode (n div 128)"
  by (subst MQTTPacket_encode.simps)
    (simp add: signed_divide_int_def signed_modulo_int_def sgn_if Let_def pos_imp_zdiv_pos_iff)

text \<open>A source that yields the given characters.\<close>

fun yields :: "('s \<Rightarrow> (int \<times> byte \<times> 's) option) \<Rightarrow> 's \<Rightarrow> byte list \<Rightarrow> 's \<Rightarrow> bool" where
  "yields getc s [] s' = (s = s')"
| "yields getc s (c # cs) s' = (\<exists>s1. getc s = Some (1, c, s1) \<and> yields getc s1 cs s')"

lemma decode_step:
  assumes "getc s = Some (1, c, s1)" "len < 4"
  shows "decode_loop getc s len m v =
    (if c AND 128 \<noteq> 0 then decode_loop getc s1 (len + 1) (m * 128) (v + uint (c AND 127) * m)
     else Some (len + 1, v + uint (c AND 127) * m, s1))"
  using assms by (subst decode_loop.simps) (simp add: Let_def)

lemma decode_loop_encode:
  "0 \<le> n \<Longrightarrow> n < 128 ^ Suc k \<Longrightarrow> len + k < 4 \<Longrightarrow> yields getc s (MQTTPacket_encode n) s' \<Longrightarrow>
   decode_loop getc s len m v = Some (len + length (MQTTPacket_encode n), v + n * m, s')"
proof (induction k arbitrary: n s len m v)
  case 0
  then show ?case by (auto simp: encode_small decode_step low7)
next
  case (Suc k)
  show ?case
  proof (cases "n < 128")
    case True
    with Suc.prems show ?thesis by (auto simp: encode_small decode_step low7)
  next
    case False
    with Suc.prems(4) obtain s1 where
      s1: "getc s = Some (1, word_of_int (n mod 128) OR 0x80, s1)" "yields getc s1 (MQTTPacket_encode (n div 128)) s'"
      by (auto simp: encode_big)
    have "n div 128 < 128 ^ Suc k" using Suc.prems(2) by (simp add: div_less_iff_less_mult ac_simps)
    moreover have "v + n mod 128 * m + n div 128 * (m * 128) = v + (n div 128 * 128 + n mod 128) * m"
      by (simp only: distrib_left distrib_right ac_simps)
    then have "v + n mod 128 * m + n div 128 * (m * 128) = v + n * m" by simp
    ultimately show ?thesis
      using Suc.IH [of "n div 128" "len + 1" s1 "m * 128" "v + n mod 128 * m"] Suc.prems False s1
      by (simp add: decode_step low7 encode_big)
  qed
qed

lemma decode_encode:
  "0 \<le> n \<Longrightarrow> n < 2 ^ 28 \<Longrightarrow> yields getc s (MQTTPacket_encode n) s' \<Longrightarrow>
   MQTTPacket_decode getc s = Some (length (MQTTPacket_encode n), n, s')"
  using decode_loop_encode [of n 3 0 getc s s' 1 0] by (simp add: MQTTPacket_decode_def)

lemma drop_Cons_iff: "drop p xs = c # ys \<longleftrightarrow> p < length xs \<and> xs ! p = c \<and> drop (p + 1) xs = ys"
  by (metis Cons_nth_drop_Suc Suc_eq_plus1 drop_all list.distinct(1) list.inject not_le)

lemma bufchar_yields: "drop p buf = cs @ rest \<Longrightarrow> yields (mqtt_bufchar buf) p cs (p + length cs)"
proof (induction cs arbitrary: p)
  case (Cons c cs)
  then have "p < length buf" "buf ! p = c" "drop (p + 1) buf = cs @ rest"
    by (simp_all add: drop_Cons_iff)
  with Cons.IH [of "p + 1"] show ?case by (simp add: mqtt_bufchar_def mqtt_readChar_def)
qed simp

lemma decodeBuf_encode:
  "0 \<le> n \<Longrightarrow> n < 2 ^ 28 \<Longrightarrow> drop p buf = MQTTPacket_encode n @ rest \<Longrightarrow>
   MQTTPacket_decodeBuf buf p = Some (length (MQTTPacket_encode n), n)"
  using decode_encode [OF _ _ bufchar_yields] by (simp add: MQTTPacket_decodeBuf_def)

lemma length_encode:
  assumes "0 \<le> n" "n < 2 ^ 28"
  shows "length (MQTTPacket_encode n) = (if n < 128 then 1 else if n < 16384 then 2 else if n < 2097152 then 3 else 4)"
proof -
  have 1: "length (MQTTPacket_encode k) = 1" if "0 \<le> k" "k < 128" for k using that by (simp add: encode_small)
  have 2: "length (MQTTPacket_encode k) = 2" if "128 \<le> k" "k < 16384" for k
    using that 1 [of "k div 128"] by (simp add: encode_big div_less_iff_less_mult)
  have 3: "length (MQTTPacket_encode k) = 3" if "16384 \<le> k" "k < 2097152" for k
  proof -
    have "128 \<le> k div 128" using that by linarith
    moreover have "k div 128 < 16384" using that by linarith
    ultimately show ?thesis using that 2 [of "k div 128"] by (simp add: encode_big)
  qed
  have 4: "length (MQTTPacket_encode k) = 4" if "2097152 \<le> k" "k < 2 ^ 28" for k
  proof -
    have "16384 \<le> k div 128" using that by linarith
    moreover have "k div 128 < 2097152" using that by simp
    ultimately show ?thesis using that 3 [of "k div 128"] by (simp add: encode_big)
  qed
  show ?thesis using assms 1 2 3 4 by simp
qed

text \<open>
  Property C27. The remaining length survives the wire: for every length up to the protocol's maximum
  of 2^28 - 1, reading back the bytes that \<open>MQTTPacket_encode\<close> produced, anywhere in a buffer, gives the
  length and the count of the bytes.
\<close>

theorem mqtt_length_roundtrip:
  assumes "0 \<le> n" "n < 2 ^ 28"
  shows "MQTTPacket_decodeBuf (pre @ MQTTPacket_encode n @ rest) (length pre) = Some (length (MQTTPacket_encode n), n)"
  by (rule decodeBuf_encode [OF assms]) simp

theorem mqtt_length_roundtrip_witness:
  "MQTTPacket_decodeBuf ([0x30] @ MQTTPacket_encode 321 @ [0]) 1 = Some (2, 321)"
  using mqtt_length_roundtrip [of 321 "[0x30]" "[0]"] by (simp add: length_encode)

text \<open>
  \<open>MQTTPacket_len\<close> is a safe estimate of the size of a packet: it never falls short of the
  header byte, the length bytes and the contents, and it exceeds them, by one byte, only for the
  four contents lengths 127, 16383, 2097150 and 2097151.
\<close>

lemma MQTTPacket_len_bounds:
  assumes "0 \<le> n" "n < 2 ^ 28"
  shows "MQTTPacket_len n =
    1 + int (length (MQTTPacket_encode n)) + n + (if n \<in> {127, 16383, 2097150, 2097151} then 1 else 0)"
  using assms by (simp add: length_encode MQTTPacket_len_def)

theorem MQTTPacket_len_bounds_witness: "MQTTPacket_len 127 = 130"
  using MQTTPacket_len_bounds [of 127] by (simp add: length_encode)

section \<open>Reading from a stream\<close>

text \<open>
  What the reader relies on of its transport: a call returns the number of bytes it delivers, in the
  order of the stream and no more than asked for, or 0 to be called again; \<open>inbox\<close> is what is still to
  be delivered, and \<open>delay\<close> bounds how often in a row the transport puts a reader off.
\<close>

definition mqtt_stream :: "'s getfn \<Rightarrow> ('s \<Rightarrow> byte list) \<Rightarrow> ('s \<Rightarrow> nat) \<Rightarrow> bool" where
  "mqtt_stream getfn inbox delay \<longleftrightarrow>
     (\<forall>s n. 0 < n \<longrightarrow>
        (case getfn s n of (rc, bs, s') \<Rightarrow>
           rc = int (length bs) \<and> length bs \<le> n \<and> inbox s = bs @ inbox s' \<and>
           (bs = [] \<and> inbox s \<noteq> [] \<longrightarrow> delay s' < delay s)))"

lemma mqtt_streamD:
  assumes "mqtt_stream getfn inbox delay" "0 < n" "inbox s \<noteq> []"
  obtains bs s' where "getfn s n = (int (length bs), bs, s')" "length bs \<le> n" "inbox s = bs @ inbox s'"
    "bs = [] \<Longrightarrow> delay s' < delay s"
proof -
  obtain rc bs s' where g: "getfn s n = (rc, bs, s')" by (cases "getfn s n")
  from assms(1) [unfolded mqtt_stream_def, rule_format, OF assms(2), of s] g assms(3)
  have "rc = int (length bs)" "length bs \<le> n" "inbox s = bs @ inbox s'" "bs = [] \<Longrightarrow> delay s' < delay s" by auto
  with g show thesis using that by simp
qed

lemma get_char_cases:
  assumes "mqtt_stream getfn inbox delay" "inbox s = c # cs"
  obtains (again) s' where "get_char getfn s = (0, 0, s')" "inbox s' = c # cs" "delay s' < delay s"
  | (char) s' where "get_char getfn s = (1, c, s')" "inbox s' = cs"
proof -
  from assms(2) have "inbox s \<noteq> []" by simp
  from mqtt_streamD [OF assms(1) zero_less_one this] obtain bs s' where
    bs: "getfn s 1 = (int (length bs), bs, s')" "length bs \<le> 1" "inbox s = bs @ inbox s'" "bs = [] \<Longrightarrow> delay s' < delay s"
    by blast
  show thesis
  proof (cases bs)
    case Nil
    with bs assms(2) show ?thesis by (intro again [of s']) (auto simp: get_char_def)
  next
    case (Cons b bs')
    with bs assms(2) show ?thesis by (intro char [of s']) (auto simp: get_char_def)
  qed
qed

text \<open>The value of the length bytes read so far.\<close>

fun dec_val :: "byte list \<Rightarrow> int" where
  "dec_val [] = 0"
| "dec_val (c # cs) = uint (c AND 127) + 128 * dec_val cs"

lemma dec_val_snoc: "dec_val (xs @ [c]) = dec_val xs + uint (c AND 127) * 128 ^ length xs"
  by (induction xs) (simp_all add: algebra_simps)

lemma encode_cases:
  assumes "0 \<le> n"
  obtains (small) "n < 128" "MQTTPacket_encode n = [word_of_int n]"
  | (big) "128 \<le> n" "MQTTPacket_encode n = (word_of_int (n mod 128) OR 0x80) # MQTTPacket_encode (n div 128)"
proof (cases "n < 128")
  case True
  with assms encode_small [OF assms] show thesis by (intro small) simp_all
next
  case False
  then have "128 \<le> n" by simp
  with encode_big [OF this] show thesis by (intro big)
qed

lemma dec_val_encode: "0 \<le> n \<Longrightarrow> dec_val (MQTTPacket_encode n) = n"
proof (induction "nat n" arbitrary: n rule: less_induct)
  case less
  from less.prems show ?case
  proof (cases rule: encode_cases)
    case big
    then have "nat (n div 128) < nat n" by simp
    from less.hyps [OF this] big show ?thesis by (simp add: low7)
  qed (use less.prems in \<open>simp add: low7\<close>)
qed

lemma encode_continues:
  "0 \<le> n \<Longrightarrow> MQTTPacket_encode n = xs @ c # ys \<Longrightarrow> c AND 128 \<noteq> 0 \<longleftrightarrow> ys \<noteq> []"
proof (induction "nat n" arbitrary: n xs rule: less_induct)
  case less
  from less.prems(1) show ?case
  proof (cases rule: encode_cases)
    case small
    with less.prems show ?thesis by (cases xs) (auto simp: low7)
  next
    case big
    have ne: "MQTTPacket_encode (n div 128) \<noteq> []" by (subst MQTTPacket_encode.simps) (simp add: Let_def)
    show ?thesis
    proof (cases xs)
      case Nil
      with big less.prems(2) ne show ?thesis by (auto simp: low7)
    next
      case (Cons x xs')
      with big less.prems(2) have "MQTTPacket_encode (n div 128) = xs' @ c # ys" by simp
      with less.hyps [of "n div 128" xs'] big show ?thesis by simp
    qed
  qed
qed

text \<open>The transport record between calls: before the header, in the length, in the body.\<close>

definition nb_less :: "('s \<Rightarrow> byte list) \<Rightarrow> ('s \<Rightarrow> nat) \<Rightarrow> 's \<Rightarrow> 's \<Rightarrow> bool" where
  "nb_less inbox delay s' s \<longleftrightarrow> length (inbox s') < length (inbox s) \<or>
     length (inbox s') = length (inbox s) \<and> delay s' < delay s"

definition nb_length :: "('s \<Rightarrow> byte list) \<Rightarrow> byte list \<Rightarrow> byte list \<Rightarrow> 's MQTTTransport \<Rightarrow> bool" where
  "nb_length inbox lb rest trp \<longleftrightarrow>
     (\<exists>xs ys. lb = xs @ ys \<and> ys \<noteq> [] \<and> trp_len trp = length xs \<and>
        rem_len trp = dec_val xs \<and> multiplier trp = 128 ^ length xs \<and> inbox (sck trp) = ys @ rest)"

lemma decodenb_loop_ok:
  assumes stream: "mqtt_stream getfn inbox delay" and n: "0 \<le> n" "length (MQTTPacket_encode n) \<le> 4"
  shows "nb_length inbox (MQTTPacket_encode n) rest trp \<Longrightarrow>
    (\<exists>trp'. decodenb_loop getfn trp = (0, trp') \<and> nb_length inbox (MQTTPacket_encode n) rest trp' \<and>
       state trp' = state trp \<and> nb_less inbox delay (sck trp') (sck trp)) \<or>
    (\<exists>trp'. decodenb_loop getfn trp = (int (trp_len trp'), trp') \<and> trp_len trp' \<noteq> 0 \<and> rem_len trp' = n \<and>
       state trp' = state trp \<and> inbox (sck trp') = rest \<and> nb_less inbox delay (sck trp') (sck trp))"
proof (induction "4 - trp_len trp" arbitrary: trp rule: less_induct)
  case less
  from less.prems obtain xs ys where inv: "MQTTPacket_encode n = xs @ ys" "ys \<noteq> []" "trp_len trp = length xs"
    "rem_len trp = dec_val xs" "multiplier trp = 128 ^ length xs" "inbox (sck trp) = ys @ rest"
    by (auto simp: nb_length_def)
  then obtain c ys' where ys: "ys = c # ys'" by (cases ys) auto
  have len: "trp_len trp < 4" using inv n(2) ys by simp
  have cont: "c AND 128 \<noteq> 0 \<longleftrightarrow> ys' \<noteq> []" using encode_continues [OF n(1)] inv(1) ys by blast
  from inv(6) ys have "inbox (sck trp) = c # (ys' @ rest)" by simp
  with stream show ?case
  proof (cases rule: get_char_cases)
    case (again s')
    with len have "decodenb_loop getfn trp = (0, trp\<lparr>sck := s'\<rparr>)" by (subst decodenb_loop.simps) simp
    moreover have "nb_length inbox (MQTTPacket_encode n) rest (trp\<lparr>sck := s'\<rparr>)"
      using inv again ys by (auto simp: nb_length_def)
    moreover have "nb_less inbox delay s' (sck trp)" using inv(6) ys again by (simp add: nb_less_def)
    ultimately show ?thesis by auto
  next
    case (char s')
    define t where "t = trp\<lparr>sck := s', trp_len := trp_len trp + 1,
      rem_len := rem_len trp + uint (c AND 127) * multiplier trp, multiplier := multiplier trp * 128\<rparr>"
    have step: "decodenb_loop getfn trp = (if ys' \<noteq> [] then decodenb_loop getfn t else (int (trp_len t), t))"
      using len char cont by (subst decodenb_loop.simps) (simp add: t_def Let_def)
    have t: "trp_len t = length (xs @ [c])" "rem_len t = dec_val (xs @ [c])" "multiplier t = 128 ^ length (xs @ [c])"
      "inbox (sck t) = ys' @ rest" "state t = state trp"
      using inv char ys by (simp_all add: t_def dec_val_snoc)
    have less_t: "nb_less inbox delay (sck t) (sck trp)" using inv(6) ys t(4) by (simp add: nb_less_def)
    show ?thesis
    proof (cases "ys' = []")
      case True
      have "rem_len t = n" using t(2) inv(1) ys True dec_val_encode [OF n(1)] by simp
      with True step t less_t show ?thesis by auto
    next
      case False
      have "MQTTPacket_encode n = (xs @ [c]) @ ys'" using inv(1) ys by simp
      with False t(1-4) have "nb_length inbox (MQTTPacket_encode n) rest t" unfolding nb_length_def by blast
      moreover have "4 - trp_len t < 4 - trp_len trp" using len t(1) inv(3) by simp
      ultimately show ?thesis
        using less.hyps [of t] step False t(5) less_t by (auto simp: nb_less_def)
    qed
  qed
qed

text \<open>
  A packet: the header byte, the length code and the body.  \<open>nb_ready\<close> holds of the buffer and the
  transport record before a call that continues to read it, \<open>nb_done\<close> after the last one.
\<close>

definition mqtt_frame :: "byte \<Rightarrow> byte list \<Rightarrow> byte list" where
  "mqtt_frame c body = c # MQTTPacket_encode (int (length body)) @ body"

definition nb_body :: "('s \<Rightarrow> byte list) \<Rightarrow> byte \<Rightarrow> byte list \<Rightarrow> byte list \<Rightarrow> byte list \<Rightarrow> 's MQTTTransport \<Rightarrow> bool" where
  "nb_body inbox c body rest buf trp \<longleftrightarrow>
     (\<exists>xs ys. body = xs @ ys \<and> take (trp_len trp) buf = c # MQTTPacket_encode (int (length body)) @ xs \<and>
        trp_len trp + length ys \<le> length buf \<and> rem_len trp = int (length ys) \<and> inbox (sck trp) = ys @ rest)"

definition nb_ready :: "('s \<Rightarrow> byte list) \<Rightarrow> byte \<Rightarrow> byte list \<Rightarrow> byte list \<Rightarrow> byte list \<Rightarrow> 's MQTTTransport \<Rightarrow> bool" where
  "nb_ready inbox c body rest buf trp \<longleftrightarrow>
     (if state trp = 1 then buf ! 0 = c \<and>
        (trp_len trp = 0 \<and> inbox (sck trp) = MQTTPacket_encode (int (length body)) @ body @ rest \<or>
         nb_length inbox (MQTTPacket_encode (int (length body))) (body @ rest) trp)
      else if state trp = 2 then nb_body inbox c body rest buf trp
      else inbox (sck trp) = mqtt_frame c body @ rest)"

definition nb_done :: "('s \<Rightarrow> byte list) \<Rightarrow> byte \<Rightarrow> byte list \<Rightarrow> byte list \<Rightarrow> byte list \<Rightarrow> 's MQTTTransport \<Rightarrow> bool" where
  "nb_done inbox c body rest buf trp \<longleftrightarrow>
     take (length (mqtt_frame c body)) buf = mqtt_frame c body \<and> inbox (sck trp) = rest \<and> state trp = 0"

definition nb_step ::
    "('s \<Rightarrow> byte list) \<Rightarrow> ('s \<Rightarrow> nat) \<Rightarrow> byte \<Rightarrow> byte list \<Rightarrow> byte list \<Rightarrow> nat \<Rightarrow> 's MQTTTransport \<Rightarrow>
     (int \<times> byte list \<times> 's MQTTTransport) option \<Rightarrow> bool" where
  "nb_step inbox delay c body rest sz trp r \<longleftrightarrow>
     (\<exists>rc buf' trp'. r = Some (rc, buf', trp') \<and> length buf' = sz \<and>
        (rc = 0 \<and> nb_ready inbox c body rest buf' trp' \<and> nb_less inbox delay (sck trp') (sck trp) \<or>
         rc = uint (h_type (header_bits c)) \<and> nb_done inbox c body rest buf' trp'))"

lemma nb_step_trans:
  "nb_step inbox delay c body rest sz trp r \<Longrightarrow> nb_less inbox delay (sck trp) (sck trp0) \<Longrightarrow>
   nb_step inbox delay c body rest sz trp0 r"
  unfolding nb_step_def nb_less_def by fastforce

lemma frame_nth_0: "take k buf = c # xs \<Longrightarrow> buf ! 0 = c"
  by (metis nth_Cons_0 nth_take take_eq_Nil list.distinct(1) bot_nat_0.not_eq_extremum)

lemma readnb_case2_ok:
  assumes stream: "mqtt_stream getfn inbox delay" and st: "state trp = 2"
    and inv: "nb_body inbox c body rest buf trp"
  shows "nb_step inbox delay c body rest (length buf) trp (readnb_case2 getfn buf trp)"
proof -
  from inv obtain xs ys where
    xy: "body = xs @ ys" "take (trp_len trp) buf = c # MQTTPacket_encode (int (length body)) @ xs"
      "trp_len trp + length ys \<le> length buf" "rem_len trp = int (length ys)" "inbox (sck trp) = ys @ rest"
    by (auto simp: nb_body_def)
  have tl: "trp_len trp = 1 + length (MQTTPacket_encode (int (length body))) + length xs"
    using arg_cong [OF xy(2), of length] xy(3) by simp
  show ?thesis
  proof (cases "ys = []")
    case True
    then show ?thesis
      using xy tl frame_nth_0 [OF xy(2)]
      by (simp add: readnb_case2_def readnb_exit_def nb_step_def nb_done_def mqtt_frame_def)
  next
    case False
    then have "0 < nat (rem_len trp)" "inbox (sck trp) \<noteq> []" using xy(4,5) by simp_all
    from mqtt_streamD [OF stream this] obtain bs s' where
      bs: "getfn (sck trp) (nat (rem_len trp)) = (int (length bs), bs, s')" "length bs \<le> nat (rem_len trp)"
        "inbox (sck trp) = bs @ inbox s'" "bs = [] \<Longrightarrow> delay s' < delay (sck trp)" by blast
    show ?thesis
    proof (cases "bs = []")
      case True
      with bs xy st False show ?thesis
        by (auto simp: readnb_case2_def nb_step_def nb_ready_def nb_less_def nb_body_def)
    next
      case nonempty: False
      from bs(2,3) xy(4,5) obtain zs where zs: "ys = bs @ zs" "inbox s' = zs @ rest"
        by (auto simp: append_eq_append_conv2)
      define buf' where "buf' = take (trp_len trp) buf @ bs @ drop (trp_len trp + length bs) buf"
      define t where "t = trp\<lparr>sck := s', rem_len := int (length zs), trp_len := trp_len trp + length bs\<rparr>"
      have put: "buf_put buf (trp_len trp) bs = Some buf'" using xy(3) zs(1) by (simp add: buf_put_def buf'_def)
      have len: "length buf' = length buf" using xy(3) zs(1) by (simp add: buf'_def)
      have pre: "take (trp_len t) buf' = c # MQTTPacket_encode (int (length body)) @ xs @ bs"
        using xy(2) xy(3) zs(1) tl by (simp add: buf'_def t_def)
      have body: "nb_body inbox c body rest buf' t"
        unfolding nb_body_def using xy(1,3) zs len pre by (intro exI [of _ "xs @ bs"] exI [of _ zs]) (simp add: t_def)
      have less: "nb_less inbox delay (sck t) (sck trp)"
        using nonempty bs(3) by (simp add: nb_less_def t_def)
      have run: "readnb_case2 getfn buf trp = (if zs \<noteq> [] then Some (0, buf', t) else
          Some (readnb_exit (uint (h_type (header_bits (buf' ! 0)))) buf' t))"
      proof -
        have "rem_len trp \<noteq> 0" using False xy(4) by simp
        moreover have "rem_len trp - int (length bs) = int (length zs)" using xy(4) zs(1) by simp
        ultimately show ?thesis unfolding readnb_case2_def bs(1) using nonempty put by (simp add: t_def Let_def)
      qed
      show ?thesis
      proof (cases "zs = []")
        case True
        then have "xs @ bs = body" using xy(1) zs(1) by simp
        with pre have "take (trp_len t) buf' = mqtt_frame c body" by (simp add: mqtt_frame_def)
        moreover have "trp_len t = length (mqtt_frame c body)"
          using tl xy(1) zs(1) True by (simp add: t_def mqtt_frame_def)
        ultimately show ?thesis
          using True run len frame_nth_0 [OF pre] zs(2)
          by (simp add: nb_step_def readnb_exit_def nb_done_def t_def)
      next
        case False
        with run len body less st show ?thesis by (simp add: nb_step_def nb_ready_def t_def)
      qed
    qed
  qed
qed

lemma encode_ne [simp]: "MQTTPacket_encode n \<noteq> []"
  by (subst MQTTPacket_encode.simps) (simp add: Let_def)

lemma readnb_case1_ok:
  assumes stream: "mqtt_stream getfn inbox delay" and st: "state trp = 1"
    and inv: "nb_ready inbox c body rest buf trp"
    and room: "length (mqtt_frame c body) \<le> length buf" "int (length (mqtt_frame c body)) \<le> buflen"
    and n: "int (length body) < 2 ^ 28"
  shows "nb_step inbox delay c body rest (length buf) trp (readnb_case1 getfn buf buflen trp)"
proof -
  let ?n = "int (length body)" let ?lb = "MQTTPacket_encode ?n"
  define t where "t = (if trp_len trp = 0 then trp\<lparr>multiplier := 1, rem_len := 0\<rparr> else trp)"
  have t: "nb_length inbox ?lb (body @ rest) t" "state t = 1" "sck t = sck trp"
  proof -
    have "nb_length inbox ?lb (body @ rest) (trp\<lparr>multiplier := 1, rem_len := 0\<rparr>)"
      if "trp_len trp = 0" "inbox (sck trp) = ?lb @ body @ rest"
      using that unfolding nb_length_def by (intro exI [of _ "[]"] exI [of _ ?lb]) simp
    moreover have "nb_length inbox ?lb (body @ rest) (trp\<lparr>multiplier := 1, rem_len := 0\<rparr>)"
      if "trp_len trp = 0" "nb_length inbox ?lb (body @ rest) trp"
      using that unfolding nb_length_def by auto
    ultimately show "nb_length inbox ?lb (body @ rest) t" using inv st by (auto simp: nb_ready_def t_def)
  qed (simp_all add: t_def st)
  have c: "buf ! 0 = c" using inv st by (simp add: nb_ready_def)
  have "length ?lb \<le> 4" using n by (simp add: length_encode)
  from decodenb_loop_ok [OF stream of_nat_0_le_iff this t(1)] show ?thesis
  proof (elim disjE exE conjE)
    fix t' assume t': "decodenb_loop getfn t = (0, t')" "nb_length inbox ?lb (body @ rest) t'" "state t' = state t"
      "nb_less inbox delay (sck t') (sck t)"
    then have "readnb_case1 getfn buf buflen trp = Some (0, buf, t')"
      by (simp add: readnb_case1_def MQTTPacket_decodenb_def t_def [symmetric] MQTTPACKET_READ_ERROR_def)
    with t' t c show ?thesis by (simp add: nb_step_def nb_ready_def)
  next
    fix t' assume t': "decodenb_loop getfn t = (int (trp_len t'), t')" "trp_len t' \<noteq> 0" "rem_len t' = ?n"
      "state t' = state t" "inbox (sck t') = body @ rest" "nb_less inbox delay (sck t') (sck t)"
    define buf' where "buf' = take 1 buf @ ?lb @ drop (1 + length ?lb) buf"
    define u where "u = t'\<lparr>trp_len := 1 + length ?lb, state := state t' + 1\<rparr>"
    have put: "buf_put buf 1 ?lb = Some buf'" using room(1) by (simp add: buf_put_def buf'_def mqtt_frame_def)
    have run: "readnb_case1 getfn buf buflen trp = readnb_case2 getfn buf' u"
      using t' room(2) put
      by (simp add: readnb_case1_def MQTTPacket_decodenb_def t_def [symmetric] MQTTPACKET_READ_ERROR_def u_def
          mqtt_frame_def Let_def)
    have "take 1 buf = [c]" using room(1) c by (cases buf) (auto simp: mqtt_frame_def)
    then have "nb_body inbox c body rest buf' u"
      unfolding nb_body_def using room(1) t'
      by (intro exI [of _ "[]"] exI [of _ body]) (simp add: u_def buf'_def mqtt_frame_def)
    moreover have "state u = 2" using t' t by (simp add: u_def)
    moreover have "length buf' = length buf" using room(1) by (simp add: buf'_def mqtt_frame_def)
    ultimately have "nb_step inbox delay c body rest (length buf) u (readnb_case2 getfn buf' u)"
      using readnb_case2_ok [OF stream, of u c body rest buf'] by simp
    then show ?thesis
      unfolding run by (rule nb_step_trans) (use t' t in \<open>simp add: u_def\<close>)
  qed
qed

lemma readnb_ok:
  assumes stream: "mqtt_stream getfn inbox delay" and inv: "nb_ready inbox c body rest buf trp"
    and room: "length (mqtt_frame c body) \<le> length buf" "int (length (mqtt_frame c body)) \<le> buflen"
    and n: "int (length body) < 2 ^ 28"
  shows "nb_step inbox delay c body rest (length buf) trp (MQTTPacket_readnb getfn buf buflen trp)"
proof -
  have case0: "nb_step inbox delay c body rest (length buf) trp (readnb_case0 getfn buf buflen trp0)"
    if "inbox (sck trp) = mqtt_frame c body @ rest" "sck trp0 = sck trp" "state trp0 = 0" for trp0
  proof -
    have "inbox (sck trp) = c # (MQTTPacket_encode (int (length body)) @ body @ rest)"
      using that(1) by (simp add: mqtt_frame_def)
    with stream show ?thesis
    proof (cases rule: get_char_cases)
      case (again s')
      with that show ?thesis
        by (simp add: readnb_case0_def nb_step_def nb_ready_def nb_less_def mqtt_frame_def)
    next
      case (char s')
      define buf' where "buf' = c # drop 1 buf"
      define t where "t = trp0\<lparr>sck := s', trp_len := 0, state := 1\<rparr>"
      have put: "buf_put buf 0 [c] = Some buf'" using room(1) by (simp add: buf_put_def buf'_def mqtt_frame_def)
      have run: "readnb_case0 getfn buf buflen trp0 = readnb_case1 getfn buf' buflen t"
        using char put that by (simp add: readnb_case0_def t_def)
      have len: "length buf' = length buf" using room(1) by (simp add: buf'_def mqtt_frame_def)
      have "nb_ready inbox c body rest buf' t" using char by (simp add: nb_ready_def t_def buf'_def)
      from readnb_case1_ok [OF stream _ this] room n len
      have "nb_step inbox delay c body rest (length buf) t (readnb_case1 getfn buf' buflen t)" by (simp add: t_def)
      then show ?thesis
        unfolding run by (rule nb_step_trans) (use char that in \<open>simp add: t_def nb_less_def mqtt_frame_def\<close>)
    qed
  qed
  show ?thesis
    using readnb_case1_ok [OF stream _ inv room n] readnb_case2_ok [OF stream, of trp c body rest buf] case0 inv
    by (auto simp: MQTTPacket_readnb_def nb_ready_def split: if_splits)
qed

text \<open>The caller's loop: call again as long as the reader returns 0, at most \<open>k\<close> times.\<close>

fun readnb_poll ::
    "nat \<Rightarrow> 's getfn \<Rightarrow> byte list \<Rightarrow> int \<Rightarrow> 's MQTTTransport \<Rightarrow> (int \<times> byte list \<times> 's MQTTTransport) option" where
  "readnb_poll 0 getfn buf buflen trp = None"
| "readnb_poll (Suc k) getfn buf buflen trp =
     (case MQTTPacket_readnb getfn buf buflen trp of
        None \<Rightarrow> None
      | Some (rc, buf, trp) \<Rightarrow> if rc = 0 then readnb_poll k getfn buf buflen trp else Some (rc, buf, trp))"

lemma readnb_poll_ok:
  assumes stream: "mqtt_stream getfn inbox delay" and n: "int (length body) < 2 ^ 28" and c: "h_type (header_bits c) \<noteq> 0"
  shows "nb_ready inbox c body rest buf trp \<Longrightarrow> length (mqtt_frame c body) \<le> length buf \<Longrightarrow>
    int (length (mqtt_frame c body)) \<le> buflen \<Longrightarrow>
    \<exists>k buf' trp'. readnb_poll k getfn buf buflen trp = Some (uint (h_type (header_bits c)), buf', trp') \<and>
      nb_done inbox c body rest buf' trp' \<and> length buf' = length buf"
proof (induction "(length (inbox (sck trp)), delay (sck trp))" arbitrary: buf trp rule: wf_induct_rule [OF wf_lex_prod [OF wf_less_than wf_less_than]])
  case less: 1
  have "uint (h_type (header_bits c)) \<noteq> 0" using c by (simp add: uint_0_iff)
  moreover from readnb_ok [OF stream less.prems n] obtain rc buf' trp' where
    r: "MQTTPacket_readnb getfn buf buflen trp = Some (rc, buf', trp')" "length buf' = length buf"
      "rc = 0 \<and> nb_ready inbox c body rest buf' trp' \<and> nb_less inbox delay (sck trp') (sck trp) \<or>
       rc = uint (h_type (header_bits c)) \<and> nb_done inbox c body rest buf' trp'"
    by (auto simp: nb_step_def)
  ultimately consider "rc = 0" "nb_ready inbox c body rest buf' trp'" "nb_less inbox delay (sck trp') (sck trp)"
    | "rc = uint (h_type (header_bits c))" "rc \<noteq> 0" "nb_done inbox c body rest buf' trp'" by auto
  then show ?case
  proof cases
    case 1
    then have "((length (inbox (sck trp')), delay (sck trp')), (length (inbox (sck trp)), delay (sck trp))) \<in> less_than <*lex*> less_than"
      by (auto simp: nb_less_def)
    from less.hyps [OF this 1(2)] less.prems r(2) obtain k buf2 trp2 where
      "readnb_poll k getfn buf' buflen trp' = Some (uint (h_type (header_bits c)), buf2, trp2)"
      "nb_done inbox c body rest buf2 trp2" "length buf2 = length buf" by auto
    with r(1) 1(1) have "readnb_poll (Suc k) getfn buf buflen trp = Some (uint (h_type (header_bits c)), buf2, trp2)" by simp
    with \<open>nb_done inbox c body rest buf2 trp2\<close> \<open>length buf2 = length buf\<close> show ?thesis by blast
  next
    case 2
    with r have "readnb_poll (Suc 0) getfn buf buflen trp = Some (uint (h_type (header_bits c)), buf', trp')" by simp
    with 2 r show ?thesis by blast
  qed
qed

text \<open>
  Property C26. The non-blocking reader reassembles a packet from any fragmentation: over a transport
  that delivers the stream in pieces of any size and may put the reader off in between, finitely
  many calls of \<open>MQTTPacket_readnb\<close> return the type of the next packet, with exactly its bytes in the
  buffer, nothing of the following bytes consumed and the transport record ready for the next packet.
\<close>

theorem mqtt_readnb_reassembles:
  assumes "mqtt_stream getfn inbox delay" "inbox (sck trp) = mqtt_frame c body @ rest" "state trp = 0"
    and "int (length body) < 2 ^ 28" "h_type (header_bits c) \<noteq> 0"
    and "length (mqtt_frame c body) \<le> length buf" "int (length (mqtt_frame c body)) \<le> buflen"
  shows "\<exists>k buf' trp'. readnb_poll k getfn buf buflen trp = Some (uint (h_type (header_bits c)), buf', trp') \<and>
    take (length (mqtt_frame c body)) buf' = mqtt_frame c body \<and> length buf' = length buf \<and>
    inbox (sck trp') = rest \<and> state trp' = 0"
proof -
  have "nb_ready inbox c body rest buf trp" using assms(2,3) by (simp add: nb_ready_def)
  from readnb_poll_ok [OF assms(1,4,5) this assms(6,7)] show ?thesis by (auto simp: nb_done_def)
qed

text \<open>A transport that hands out single bytes and puts every other call off.\<close>

definition drip :: "(bool \<times> byte list) getfn" where
  "drip s n = (case s of (ready, bs) \<Rightarrow>
     if ready \<and> bs \<noteq> [] then (1, [hd bs], (False, tl bs)) else (0, [], (True, bs)))"

lemma drip_stream: "mqtt_stream drip snd (\<lambda>(ready, _). if ready then 0 else 1)"
  by (auto simp: mqtt_stream_def drip_def)

theorem mqtt_readnb_reassembles_witness:
  "\<exists>k buf' trp'. readnb_poll k drip [0, 0, 0, 0, 0] 5
     \<lparr>sck = (False, [0x30, 2, 7, 8, 9]), multiplier = 0, rem_len = 0, trp_len = 0, state = 0\<rparr> = Some (3, buf', trp') \<and>
   take 4 buf' = [0x30, 2, 7, 8] \<and> snd (sck trp') = [9]"
proof -
  have t: "h_type (header_bits 0x30) = 3" by code_simp
  have four: "Suc (Suc (Suc (Suc 0))) = 4" by simp
  have f: "mqtt_frame 0x30 [7, 8] = [0x30, 2, 7, 8]" by (simp add: mqtt_frame_def encode_small)
  show ?thesis
    using mqtt_readnb_reassembles [OF drip_stream, of "\<lparr>sck = (False, [0x30, 2, 7, 8, 9]), multiplier = 0, rem_len = 0, trp_len = 0, state = 0\<rparr>"
        "0x30" "[7, 8]" "[9]" "[0, 0, 0, 0, 0]" 5] by (auto simp: t f four)
qed

end
