(* ===== verification/Mqtt_Messages.thy ===== *)
theory Mqtt_Messages
  imports Mqtt_Packet
begin

unbundle bit_operations_syntax

text \<open>
  The MQTT messages (components/mqtt/src/MQTT{Connect,Subscribe,Unsubscribe}{Client,Server}.c and
  MQTT{Serialize,Deserialize}Publish.c).  A serializer takes the output buffer and the length the
  caller states and returns the code and the buffer; a deserializer takes the memory of its output
  parameters and returns the code and their new values.  Arrays are lists of their capacity.
\<close>

section \<open>Connect\<close>

record MQTTPacket_willOptions =
  will_topicName :: MQTTString
  will_message :: MQTTString
  will_retained :: byte
  will_qos :: byte

record MQTTPacket_connectData =
  MQTTVersion :: byte
  clientID :: MQTTString
  keepAliveInterval :: u16
  cleansession :: byte
  willFlag :: byte
  will :: MQTTPacket_willOptions
  username :: MQTTString
  password :: MQTTString

definition ms_present :: "MQTTString \<Rightarrow> bool" where
  "ms_present s \<longleftrightarrow> cstring s \<noteq> None \<or> lenstring_data s \<noteq> None"

definition MQTTSerialize_connectLength :: "MQTTPacket_connectData \<Rightarrow> int" where
  "MQTTSerialize_connectLength options =
     (if MQTTVersion options = 3 then 12 else if MQTTVersion options = 4 then 10 else 0) +
     (MQTTstrlen (clientID options) + 2) +
     (if willFlag options \<noteq> 0
      then MQTTstrlen (will_topicName (will options)) + 2 + MQTTstrlen (will_message (will options)) + 2 else 0) +
     (if ms_present (username options) then MQTTstrlen (username options) + 2 else 0) +
     (if ms_present (password options) then MQTTstrlen (password options) + 2 else 0)"

text \<open>The union of the connect flags: username, password, will retain, will QoS, will, clean session.\<close>

record MQTTConnectFlags =
  f_cleansession :: byte
  f_will :: byte
  f_willQoS :: byte
  f_willRetain :: byte
  f_password :: byte
  f_username :: byte

definition flags_byte :: "MQTTConnectFlags \<Rightarrow> byte" where
  "flags_byte f = push_bit 1 (f_cleansession f AND 1) OR push_bit 2 (f_will f AND 1) OR push_bit 3 (f_willQoS f AND 3) OR
     push_bit 5 (f_willRetain f AND 1) OR push_bit 6 (f_password f AND 1) OR push_bit 7 (f_username f AND 1)"

definition flags_bits :: "byte \<Rightarrow> MQTTConnectFlags" where
  "flags_bits b = \<lparr>f_cleansession = drop_bit 1 b AND 1, f_will = drop_bit 2 b AND 1, f_willQoS = drop_bit 3 b AND 3,
     f_willRetain = drop_bit 5 b AND 1, f_password = drop_bit 6 b AND 1, f_username = drop_bit 7 b AND 1\<rparr>"

definition connect_flags :: "MQTTPacket_connectData \<Rightarrow> MQTTConnectFlags" where
  "connect_flags options =
     (let w = willFlag options \<noteq> 0 in
      \<lparr>f_cleansession = cleansession options, f_will = (if w then 1 else 0),
       f_willQoS = (if w then will_qos (will options) else 0),
       f_willRetain = (if w then will_retained (will options) else 0),
       f_password = (if ms_present (password options) then 1 else 0),
       f_username = (if ms_present (username options) then 1 else 0)\<rparr>)"

definition MQTT_name :: "byte list" where
  "MQTT_name = map byte_of ''MQTT''"

definition MQIsdp_name :: "byte list" where
  "MQIsdp_name = map byte_of ''MQIsdp''"

definition MQTTSerialize_connect :: "byte list \<Rightarrow> int \<Rightarrow> MQTTPacket_connectData \<Rightarrow> (int \<times> byte list) option" where
  "MQTTSerialize_connect buf buflen options =
     (let len = MQTTSerialize_connectLength options in
      if MQTTPacket_len len > buflen then Some (MQTTPACKET_BUFFER_TOO_SHORT, buf)
      else
        do { w \<leftarrow> mqtt_writeChar (header_byte \<lparr>h_retain = 0, h_qos = 0, h_dup = 0, h_type = CONNECT\<rparr>) (buf, 0);
             w \<leftarrow> mqtt_put (MQTTPacket_encode len) w;
             w \<leftarrow> (if MQTTVersion options = 4
                  then do { w \<leftarrow> mqtt_writeCString MQTT_name w; mqtt_writeChar 4 w }
                  else do { w \<leftarrow> mqtt_writeCString MQIsdp_name w; mqtt_writeChar 3 w });
             w \<leftarrow> mqtt_writeChar (flags_byte (connect_flags options)) w;
             w \<leftarrow> mqtt_writeInt (uint (keepAliveInterval options)) w;
             w \<leftarrow> mqtt_writeMQTTString (clientID options) w;
             w \<leftarrow> (if willFlag options \<noteq> 0
                  then do { w \<leftarrow> mqtt_writeMQTTString (will_topicName (will options)) w;
                            mqtt_writeMQTTString (will_message (will options)) w }
                  else Some w);
             w \<leftarrow> (if ms_present (username options) then mqtt_writeMQTTString (username options) w else Some w);
             w \<leftarrow> (if ms_present (password options) then mqtt_writeMQTTString (password options) w else Some w);
             Some (int (snd w), fst w) })"

text \<open>The code, the session-present flag and the return code of a CONNACK.\<close>

definition MQTTDeserialize_connack :: "byte \<times> byte \<Rightarrow> byte list \<Rightarrow> (int \<times> byte \<times> byte) option" where
  "MQTTDeserialize_connack out buf =
     do { (b, cur) \<leftarrow> mqtt_readChar buf 0;
          if h_type (header_bits b) \<noteq> CONNACK then Some (0, out)
          else
            do { (rc, mylen) \<leftarrow> MQTTPacket_decodeBuf buf cur;
                 let cur = cur + rc;
                 if mylen < 2 then Some (int rc, out)
                 else
                   do { (flags, cur) \<leftarrow> mqtt_readChar buf cur;
                        (connack_rc, cur) \<leftarrow> mqtt_readChar buf cur;
                        Some (1, flags AND 1, connack_rc) } } }"

definition MQTTSerialize_zero :: "byte list \<Rightarrow> int \<Rightarrow> byte \<Rightarrow> (int \<times> byte list) option" where
  "MQTTSerialize_zero buf buflen packettype =
     (if buflen < 2 then Some (MQTTPACKET_BUFFER_TOO_SHORT, buf)
      else
        do { w \<leftarrow> mqtt_writeChar (header_byte \<lparr>h_retain = 0, h_qos = 0, h_dup = 0, h_type = packettype\<rparr>) (buf, 0);
             w \<leftarrow> mqtt_put (MQTTPacket_encode 0) w;
             Some (int (snd w), fst w) })"

definition MQTTSerialize_disconnect :: "byte list \<Rightarrow> int \<Rightarrow> (int \<times> byte list) option" where
  "MQTTSerialize_disconnect buf buflen = MQTTSerialize_zero buf buflen DISCONNECT"

definition MQTTSerialize_pingreq :: "byte list \<Rightarrow> int \<Rightarrow> (int \<times> byte list) option" where
  "MQTTSerialize_pingreq buf buflen = MQTTSerialize_zero buf buflen PINGREQ"

text \<open>\<open>memcmp\<close> of the first \<open>min(k, len)\<close> bytes; \<^const>\<open>None\<close> is a read past the data.\<close>

definition memcmp_prefix :: "MQTTString \<Rightarrow> byte list \<Rightarrow> bool option" where
  "memcmp_prefix protocol name =
     do { data \<leftarrow> lenstring_data protocol;
          let n = min (length name) (nat (lenstring_len protocol));
          if n \<le> length data then Some (take n data = take n name) else None }"

definition MQTTPacket_checkVersion :: "MQTTString \<Rightarrow> int \<Rightarrow> bool option" where
  "MQTTPacket_checkVersion protocol version =
     (if version = 3 then memcmp_prefix protocol MQIsdp_name
      else if version = 4 then memcmp_prefix protocol MQTT_name
      else Some False)"

text \<open>The strings of a CONNECT after the client identifier: the will and the credentials.\<close>

definition connect_will ::
    "MQTTConnectFlags \<Rightarrow> MQTTPacket_connectData \<Rightarrow> byte list \<Rightarrow> nat \<Rightarrow> nat \<Rightarrow> (bool \<times> MQTTPacket_connectData \<times> nat) option" where
  "connect_will flags data buf cur enddata =
     (if f_will flags \<noteq> 0 then
        do { let data = data\<lparr>will := (will data)\<lparr>will_qos := f_willQoS flags, will_retained := f_willRetain flags\<rparr>\<rparr>;
             (rc, s, cur) \<leftarrow> mqtt_readMQTTLenString (will_topicName (will data)) buf cur enddata;
             let data = data\<lparr>will := (will data)\<lparr>will_topicName := s\<rparr>\<rparr>;
             if rc = 0 then Some (False, data, cur)
             else
               do { (rc, s, cur) \<leftarrow> mqtt_readMQTTLenString (will_message (will data)) buf cur enddata;
                    Some (rc \<noteq> 0, data\<lparr>will := (will data)\<lparr>will_message := s\<rparr>\<rparr>, cur) } }
      else Some (True, data, cur))"

definition connect_credentials ::
    "MQTTConnectFlags \<Rightarrow> MQTTPacket_connectData \<Rightarrow> byte list \<Rightarrow> nat \<Rightarrow> nat \<Rightarrow> (int \<times> MQTTPacket_connectData) option" where
  "connect_credentials flags data buf cur enddata =
     (if f_username flags \<noteq> 0 then
        if int enddata - int cur < 3 then Some (0, data)
        else
          do { (rc, s, cur) \<leftarrow> mqtt_readMQTTLenString (username data) buf cur enddata;
               let data = data\<lparr>username := s\<rparr>;
               if rc = 0 then Some (0, data)
               else if f_password flags \<noteq> 0 then
                 if int enddata - int cur < 3 then Some (0, data)
                 else
                   do { (rc, s, cur) \<leftarrow> mqtt_readMQTTLenString (password data) buf cur enddata;
                        Some (if rc = 0 then 0 else 1, data\<lparr>password := s\<rparr>) }
               else Some (1, data) }
      else if f_password flags \<noteq> 0 then Some (0, data)
      else Some (1, data))"

definition MQTTDeserialize_connect ::
    "MQTTString \<Rightarrow> MQTTPacket_connectData \<Rightarrow> byte list \<Rightarrow> nat \<Rightarrow> (int \<times> MQTTPacket_connectData) option" where
  "MQTTDeserialize_connect Protocol data buf len =
     do { let enddata = len;
          (b, cur) \<leftarrow> mqtt_readChar buf 0;
          if h_type (header_bits b) \<noteq> CONNECT then Some (0, data)
          else
            do { (n, mylen) \<leftarrow> MQTTPacket_decodeBuf buf cur;
                 let cur = cur + n;
                 (rc, Protocol, cur) \<leftarrow> mqtt_readMQTTLenString Protocol buf cur enddata;
                 if rc = 0 \<or> int enddata - int cur < 0 then Some (0, data)
                 else
                   do { (v, cur) \<leftarrow> mqtt_readChar buf cur;
                        ok \<leftarrow> MQTTPacket_checkVersion Protocol (uint v);
                        if \<not> ok then Some (0, data)
                        else
                          do { (all, cur) \<leftarrow> mqtt_readChar buf cur;
                               let flags = flags_bits all;
                               let data = data\<lparr>cleansession := f_cleansession flags\<rparr>;
                               (ka, cur) \<leftarrow> mqtt_readInt buf cur;
                               let data = data\<lparr>keepAliveInterval := word_of_int ka\<rparr>;
                               (rc, s, cur) \<leftarrow> mqtt_readMQTTLenString (clientID data) buf cur enddata;
                               let data = data\<lparr>clientID := s\<rparr>;
                               if rc = 0 then Some (0, data)
                               else
                                 do { let data = data\<lparr>willFlag := f_will flags\<rparr>;
                                      (ok, data, cur) \<leftarrow> connect_will flags data buf cur enddata;
                                      if \<not> ok then Some (0, data)
                                      else connect_credentials flags data buf cur enddata } } } } }"

definition MQTTSerialize_connack :: "byte list \<Rightarrow> int \<Rightarrow> byte \<Rightarrow> byte \<Rightarrow> (int \<times> byte list) option" where
  "MQTTSerialize_connack buf buflen connack_rc sessionPresent =
     (if buflen < 2 then Some (MQTTPACKET_BUFFER_TOO_SHORT, buf)
      else
        do { w \<leftarrow> mqtt_writeChar (header_byte \<lparr>h_retain = 0, h_qos = 0, h_dup = 0, h_type = CONNACK\<rparr>) (buf, 0);
             w \<leftarrow> mqtt_put (MQTTPacket_encode 2) w;
             w \<leftarrow> mqtt_writeChar (sessionPresent AND 1) w;
             w \<leftarrow> mqtt_writeChar connack_rc w;
             Some (int (snd w), fst w) })"

section \<open>Publish\<close>

record mqtt_publish =
  pub_dup :: byte
  pub_qos :: int
  pub_retained :: byte
  pub_packetid :: u16
  pub_topicName :: MQTTString
  pub_payload :: "byte list"
  pub_payloadlen :: int

text \<open>The code and the outputs; the payload points into the buffer.\<close>

definition MQTTDeserialize_publish :: "mqtt_publish \<Rightarrow> byte list \<Rightarrow> (int \<times> mqtt_publish) option" where
  "MQTTDeserialize_publish out buf =
     do { (b, cur) \<leftarrow> mqtt_readChar buf 0;
          let header = header_bits b;
          if h_type header \<noteq> PUBLISH then Some (0, out)
          else
            do { let out = out\<lparr>pub_dup := h_dup header, pub_qos := uint (h_qos header), pub_retained := h_retain header\<rparr>;
                 (rc, mylen) \<leftarrow> MQTTPacket_decodeBuf buf cur;
                 let cur = cur + rc;
                 let enddata = cur + nat mylen;
                 (ok, s, cur) \<leftarrow> mqtt_readMQTTLenString (pub_topicName out) buf cur enddata;
                 let out = out\<lparr>pub_topicName := s\<rparr>;
                 if ok = 0 \<or> int enddata - int cur < 0 then Some (int rc, out)
                 else
                   do { (out, cur) \<leftarrow>
                          (if pub_qos out > 0
                           then do { (i, cur) \<leftarrow> mqtt_readInt buf cur; Some (out\<lparr>pub_packetid := word_of_int i\<rparr>, cur) }
                           else Some (out, cur));
                        Some (1, out\<lparr>pub_payloadlen := int enddata - int cur, pub_payload := drop cur buf\<rparr>) } } }"

text \<open>The code, the packet type, the dup flag and the packet identifier.\<close>

definition MQTTDeserialize_ack :: "byte \<times> byte \<times> u16 \<Rightarrow> byte list \<Rightarrow> (int \<times> byte \<times> byte \<times> u16) option" where
  "MQTTDeserialize_ack out buf =
     do { (b, cur) \<leftarrow> mqtt_readChar buf 0;
          let header = header_bits b;
          let out = (h_type header, h_dup header, snd (snd out));
          (rc, mylen) \<leftarrow> MQTTPacket_decodeBuf buf cur;
          let cur = cur + rc;
          if mylen < 2 then Some (int rc, out)
          else do { (i, cur) \<leftarrow> mqtt_readInt buf cur; Some (1, fst out, fst (snd out), word_of_int i) } }"

definition MQTTSerialize_publishLength :: "int \<Rightarrow> MQTTString \<Rightarrow> int \<Rightarrow> int" where
  "MQTTSerialize_publishLength qos topicName payloadlen =
     2 + MQTTstrlen topicName + payloadlen + (if qos > 0 then 2 else 0)"

definition MQTTSerialize_publish :: "byte list \<Rightarrow> int \<Rightarrow> mqtt_publish \<Rightarrow> (int \<times> byte list) option" where
  "MQTTSerialize_publish buf buflen p =
     (let rem_len = MQTTSerialize_publishLength (pub_qos p) (pub_topicName p) (pub_payloadlen p) in
      if MQTTPacket_len rem_len > buflen then Some (MQTTPACKET_BUFFER_TOO_SHORT, buf)
      else
        do { w \<leftarrow> mqtt_writeChar (header_byte \<lparr>h_retain = pub_retained p, h_qos = word_of_int (pub_qos p),
                    h_dup = pub_dup p, h_type = PUBLISH\<rparr>) (buf, 0);
             w \<leftarrow> mqtt_put (MQTTPacket_encode rem_len) w;
             w \<leftarrow> mqtt_writeMQTTString (pub_topicName p) w;
             w \<leftarrow> (if pub_qos p > 0 then mqtt_writeInt (uint (pub_packetid p)) w else Some w);
             if 0 \<le> pub_payloadlen p \<and> nat (pub_payloadlen p) \<le> length (pub_payload p)
             then do { w \<leftarrow> mqtt_put (take (nat (pub_payloadlen p)) (pub_payload p)) w; Some (int (snd w), fst w) }
             else None })"

definition MQTTSerialize_ack :: "byte list \<Rightarrow> int \<Rightarrow> byte \<Rightarrow> byte \<Rightarrow> u16 \<Rightarrow> (int \<times> byte list) option" where
  "MQTTSerialize_ack buf buflen packettype dup packetid =
     (if buflen < 4 then Some (MQTTPACKET_BUFFER_TOO_SHORT, buf)
      else
        do { w \<leftarrow> mqtt_writeChar (header_byte \<lparr>h_retain = 0, h_qos = (if packettype = PUBREL then 1 else 0),
                    h_dup = dup, h_type = packettype\<rparr>) (buf, 0);
             w \<leftarrow> mqtt_put (MQTTPacket_encode 2) w;
             w \<leftarrow> mqtt_writeInt (uint packetid) w;
             Some (int (snd w), fst w) })"

definition MQTTSerialize_puback :: "byte list \<Rightarrow> int \<Rightarrow> u16 \<Rightarrow> (int \<times> byte list) option" where
  "MQTTSerialize_puback buf buflen packetid = MQTTSerialize_ack buf buflen PUBACK 0 packetid"

definition MQTTSerialize_pubrel :: "byte list \<Rightarrow> int \<Rightarrow> byte \<Rightarrow> u16 \<Rightarrow> (int \<times> byte list) option" where
  "MQTTSerialize_pubrel buf buflen dup packetid = MQTTSerialize_ack buf buflen PUBREL dup packetid"

definition MQTTSerialize_pubcomp :: "byte list \<Rightarrow> int \<Rightarrow> u16 \<Rightarrow> (int \<times> byte list) option" where
  "MQTTSerialize_pubcomp buf buflen packetid = MQTTSerialize_ack buf buflen PUBCOMP 0 packetid"

section \<open>Subscribe\<close>

definition MQTTSerialize_subscribeLength :: "MQTTString list \<Rightarrow> int" where
  "MQTTSerialize_subscribeLength topicFilters = foldl (\<lambda>len s. len + (2 + MQTTstrlen s + 1)) 2 topicFilters"

fun write_filters :: "(MQTTString \<times> int) list \<Rightarrow> writer \<Rightarrow> writer option" where
  "write_filters [] w = Some w"
| "write_filters ((s, qos) # fs) w =
     do { w \<leftarrow> mqtt_writeMQTTString s w; w \<leftarrow> mqtt_writeChar (word_of_int qos) w; write_filters fs w }"

text \<open>The \<open>count\<close> entries of the two arrays are a list of pairs.\<close>

definition MQTTSerialize_subscribe ::
    "byte list \<Rightarrow> int \<Rightarrow> byte \<Rightarrow> u16 \<Rightarrow> (MQTTString \<times> int) list \<Rightarrow> (int \<times> byte list) option" where
  "MQTTSerialize_subscribe buf buflen dup packetid filters =
     (let rem_len = MQTTSerialize_subscribeLength (map fst filters) in
      if MQTTPacket_len rem_len > buflen then Some (MQTTPACKET_BUFFER_TOO_SHORT, buf)
      else
        do { w \<leftarrow> mqtt_writeChar (header_byte \<lparr>h_retain = 0, h_qos = 1, h_dup = dup, h_type = SUBSCRIBE\<rparr>) (buf, 0);
             w \<leftarrow> mqtt_put (MQTTPacket_encode rem_len) w;
             w \<leftarrow> mqtt_writeInt (uint packetid) w;
             w \<leftarrow> write_filters filters w;
             Some (int (snd w), fst w) })"

text \<open>The loop of \<open>MQTTDeserialize_suback\<close>: the code, the count and the array.\<close>

function suback_loop :: "byte list \<Rightarrow> nat \<Rightarrow> int \<Rightarrow> nat \<Rightarrow> nat \<Rightarrow> int list \<Rightarrow> (int \<times> nat \<times> int list) option" where
  "suback_loop buf enddata maxcount cur count grantedQoSs =
     (if cur < enddata then
        if int count > maxcount then Some (- 1, count, grantedQoSs)
        else
          do { (c, cur') \<leftarrow> mqtt_readChar buf cur;
               if count < length grantedQoSs
               then suback_loop buf enddata maxcount (cur + 1) (count + 1) (grantedQoSs[count := uint c])
               else None }
      else Some (1, count, grantedQoSs))"
  by auto
termination
  by (relation "measure (\<lambda>(_, enddata, _, cur, _, _). enddata - cur)") auto

declare suback_loop.simps [simp del]

definition MQTTDeserialize_suback ::
    "u16 \<times> nat \<times> int list \<Rightarrow> int \<Rightarrow> byte list \<Rightarrow> (int \<times> u16 \<times> nat \<times> int list) option" where
  "MQTTDeserialize_suback out maxcount buf =
     do { (b, cur) \<leftarrow> mqtt_readChar buf 0;
          if h_type (header_bits b) \<noteq> SUBACK then Some (0, out)
          else
            do { (rc, mylen) \<leftarrow> MQTTPacket_decodeBuf buf cur;
                 let cur = cur + rc;
                 let enddata = cur + nat mylen;
                 if mylen < 2 then Some (int rc, out)
                 else
                   do { (i, cur) \<leftarrow> mqtt_readInt buf cur;
                        (rc, count, grantedQoSs) \<leftarrow> suback_loop buf enddata maxcount cur 0 (snd (snd out));
                        Some (rc, word_of_int i, count, grantedQoSs) } } }"

record mqtt_subscribe =
  sub_dup :: byte
  sub_packetid :: u16
  sub_count :: nat
  sub_topicFilters :: "MQTTString list"
  sub_requestedQoSs :: "int list"

text \<open>The loop of \<open>MQTTDeserialize_subscribe\<close>: whether the end was reached, and the arrays.\<close>

function subscribe_loop :: "byte list \<Rightarrow> nat \<Rightarrow> nat \<Rightarrow> mqtt_subscribe \<Rightarrow> (bool \<times> mqtt_subscribe) option" where
  "subscribe_loop buf enddata cur out =
     (if cur < enddata then
        if sub_count out \<ge> length (sub_topicFilters out) then None
        else
          case mqtt_readMQTTLenString (sub_topicFilters out ! sub_count out) buf cur enddata of
            None \<Rightarrow> None
          | Some (rc, s, cur') \<Rightarrow>
              let out = out\<lparr>sub_topicFilters := (sub_topicFilters out)[sub_count out := s]\<rparr> in
              if rc = 0 \<or> cur' \<ge> enddata then Some (False, out)
              else
                do { (c, _) \<leftarrow> mqtt_readChar buf cur';
                     if sub_count out \<ge> length (sub_requestedQoSs out) then None
                     else subscribe_loop buf enddata (cur' + 1)
                       (out\<lparr>sub_requestedQoSs := (sub_requestedQoSs out)[sub_count out := uint c], sub_count := sub_count out + 1\<rparr>) }
      else Some (True, out))"
  by auto
termination
proof (relation "measure (\<lambda>(_, enddata, cur, _). enddata - cur)")
  fix buf :: "byte list" and enddata cur cur' :: nat and out x :: mqtt_subscribe and rc :: int and s :: MQTTString
    and p q r y c z
  assume a: "cur < enddata" and r: "mqtt_readMQTTLenString (sub_topicFilters out ! sub_count out) buf cur enddata = Some p"
    "(rc, q) = p" "(s, cur') = q" and "\<not> (rc = 0 \<or> enddata \<le> cur')"
  then have "cur \<le> cur'"
    by (auto simp: mqtt_readMQTTLenString_def mqtt_readInt_def Let_def bind_eq_Some_conv split: if_splits)
  with a show "((buf, enddata, cur' + 1, x\<lparr>sub_requestedQoSs := (sub_requestedQoSs x)[sub_count x := uint c],
      sub_count := sub_count x + 1\<rparr>), buf, enddata, cur, out) \<in> measure (\<lambda>(_, enddata, cur, _). enddata - cur)" by simp
qed simp

declare subscribe_loop.simps [simp del]

definition MQTTDeserialize_subscribe :: "mqtt_subscribe \<Rightarrow> byte list \<Rightarrow> (int \<times> mqtt_subscribe) option" where
  "MQTTDeserialize_subscribe out buf =
     do { (b, cur) \<leftarrow> mqtt_readChar buf 0;
          let header = header_bits b;
          if h_type header \<noteq> SUBSCRIBE then Some (- 1, out)
          else
            do { let out = out\<lparr>sub_dup := h_dup header\<rparr>;
                 (rc, mylen) \<leftarrow> MQTTPacket_decodeBuf buf cur;
                 let cur = cur + rc;
                 let enddata = cur + nat mylen;
                 (i, cur) \<leftarrow> mqtt_readInt buf cur;
                 (ok, out) \<leftarrow> subscribe_loop buf enddata cur (out\<lparr>sub_packetid := word_of_int i, sub_count := 0\<rparr>);
                 Some (if ok then 1 else int rc, out) } }"

definition MQTTSerialize_suback :: "byte list \<Rightarrow> int \<Rightarrow> u16 \<Rightarrow> int list \<Rightarrow> (int \<times> byte list) option" where
  "MQTTSerialize_suback buf buflen packetid grantedQoSs =
     (let count = int (length grantedQoSs) in
      if buflen < 2 + count then Some (MQTTPACKET_BUFFER_TOO_SHORT, buf)
      else
        do { w \<leftarrow> mqtt_writeChar (header_byte \<lparr>h_retain = 0, h_qos = 0, h_dup = 0, h_type = SUBACK\<rparr>) (buf, 0);
             w \<leftarrow> mqtt_put (MQTTPacket_encode (2 + count)) w;
             w \<leftarrow> mqtt_writeInt (uint packetid) w;
             w \<leftarrow> foldl (\<lambda>w q. w \<bind> mqtt_writeChar (word_of_int q)) (Some w) grantedQoSs;
             Some (int (snd w), fst w) })"

section \<open>Unsubscribe\<close>

definition MQTTSerialize_unsubscribeLength :: "MQTTString list \<Rightarrow> int" where
  "MQTTSerialize_unsubscribeLength topicFilters = foldl (\<lambda>len s. len + (2 + MQTTstrlen s)) 2 topicFilters"

fun write_topics :: "MQTTString list \<Rightarrow> writer \<Rightarrow> writer option" where
  "write_topics [] w = Some w"
| "write_topics (s # ss) w = do { w \<leftarrow> mqtt_writeMQTTString s w; write_topics ss w }"

definition MQTTSerialize_unsubscribe ::
    "byte list \<Rightarrow> int \<Rightarrow> byte \<Rightarrow> u16 \<Rightarrow> MQTTString list \<Rightarrow> (int \<times> byte list) option" where
  "MQTTSerialize_unsubscribe buf buflen dup packetid topicFilters =
     (let rem_len = MQTTSerialize_unsubscribeLength topicFilters in
      if MQTTPacket_len rem_len > buflen then Some (MQTTPACKET_BUFFER_TOO_SHORT, buf)
      else
        do { w \<leftarrow> mqtt_writeChar (header_byte \<lparr>h_retain = 0, h_qos = 1, h_dup = dup, h_type = UNSUBSCRIBE\<rparr>) (buf, 0);
             w \<leftarrow> mqtt_put (MQTTPacket_encode rem_len) w;
             w \<leftarrow> mqtt_writeInt (uint packetid) w;
             w \<leftarrow> write_topics topicFilters w;
             Some (int (snd w), fst w) })"

definition MQTTDeserialize_unsuback :: "u16 \<Rightarrow> byte list \<Rightarrow> (int \<times> u16) option" where
  "MQTTDeserialize_unsuback packetid buf =
     do { (rc, type, dup, packetid) \<leftarrow> MQTTDeserialize_ack (0, 0, packetid) buf;
          Some (if type = UNSUBACK then 1 else rc, packetid) }"

function unsubscribe_loop :: "byte list \<Rightarrow> nat \<Rightarrow> nat \<Rightarrow> mqtt_subscribe \<Rightarrow> (bool \<times> mqtt_subscribe) option" where
  "unsubscribe_loop buf enddata cur out =
     (if cur < enddata then
        if sub_count out \<ge> length (sub_topicFilters out) then None
        else
          case mqtt_readMQTTLenString (sub_topicFilters out ! sub_count out) buf cur enddata of
            None \<Rightarrow> None
          | Some (rc, s, cur') \<Rightarrow>
              let out = out\<lparr>sub_topicFilters := (sub_topicFilters out)[sub_count out := s]\<rparr> in
              if rc = 0 then Some (False, out)
              else unsubscribe_loop buf enddata cur' (out\<lparr>sub_count := sub_count out + 1\<rparr>)
      else Some (True, out))"
  by auto
termination
proof (relation "measure (\<lambda>(_, enddata, cur, _). enddata - cur)")
  fix buf :: "byte list" and enddata cur cur' :: nat and out x :: mqtt_subscribe and rc :: int and s :: MQTTString and p q
  assume a: "cur < enddata" and r: "mqtt_readMQTTLenString (sub_topicFilters out ! sub_count out) buf cur enddata = Some p"
    "(rc, q) = p" "(s, cur') = q" and "rc \<noteq> 0"
  then have "cur < cur'"
    by (auto simp: mqtt_readMQTTLenString_def mqtt_readInt_def Let_def bind_eq_Some_conv split: if_splits)
  with a show "((buf, enddata, cur', x\<lparr>sub_count := sub_count x + 1\<rparr>), buf, enddata, cur, out)
      \<in> measure (\<lambda>(_, enddata, cur, _). enddata - cur)" by simp
qed simp

declare unsubscribe_loop.simps [simp del]

text \<open>The outputs are those of a subscribe packet without the array of requested QoS values.\<close>

definition MQTTDeserialize_unsubscribe :: "mqtt_subscribe \<Rightarrow> byte list \<Rightarrow> (int \<times> mqtt_subscribe) option" where
  "MQTTDeserialize_unsubscribe out buf =
     do { (b, cur) \<leftarrow> mqtt_readChar buf 0;
          let header = header_bits b;
          if h_type header \<noteq> UNSUBSCRIBE then Some (0, out)
          else
            do { let out = out\<lparr>sub_dup := h_dup header\<rparr>;
                 (rc, mylen) \<leftarrow> MQTTPacket_decodeBuf buf cur;
                 let cur = cur + rc;
                 let enddata = cur + nat mylen;
                 (i, cur) \<leftarrow> mqtt_readInt buf cur;
                 (ok, out) \<leftarrow> unsubscribe_loop buf enddata cur (out\<lparr>sub_packetid := word_of_int i, sub_count := 0\<rparr>);
                 Some (if ok then 1 else int rc, out) } }"

definition MQTTSerialize_unsuback :: "byte list \<Rightarrow> int \<Rightarrow> u16 \<Rightarrow> (int \<times> byte list) option" where
  "MQTTSerialize_unsuback buf buflen packetid =
     (if buflen < 2 then Some (MQTTPACKET_BUFFER_TOO_SHORT, buf)
      else
        do { w \<leftarrow> mqtt_writeChar (header_byte \<lparr>h_retain = 0, h_qos = 0, h_dup = 0, h_type = UNSUBACK\<rparr>) (buf, 0);
             w \<leftarrow> mqtt_put (MQTTPacket_encode 2) w;
             w \<leftarrow> mqtt_writeInt (uint packetid) w;
             Some (int (snd w), fst w) })"

section \<open>Wire forms\<close>

lemma header_roundtrip:
  "header_bits (header_byte h) = \<lparr>h_retain = h_retain h AND 1, h_qos = h_qos h AND 3, h_dup = h_dup h AND 1, h_type = h_type h AND 15\<rparr>"
proof -
  have m: "1 = (mask 1 :: byte)" "3 = (mask 2 :: byte)" "15 = (mask 4 :: byte)" by (simp_all add: mask_eq_exp_minus_1)
  have "b = header_byte h \<Longrightarrow> b AND 1 = h_retain h AND 1 \<and> drop_bit 1 b AND 3 = h_qos h AND 3 \<and> drop_bit 3 b AND 1 = h_dup h AND 1 \<and>
      drop_bit 4 b = h_type h AND 15" for b
    unfolding header_byte_def m
    by (intro conjI bit_word_eqI) (auto simp: bit_simps simp del: push_bit_Suc drop_bit_Suc One_nat_def)
  then show ?thesis by (simp add: header_bits_def)
qed

definition int_wire :: "int \<Rightarrow> byte list" where
  "int_wire i = [word_of_int (i div 256), word_of_int (i mod 256)]"

definition str_wire :: "byte list \<Rightarrow> byte list" where
  "str_wire bs = int_wire (int (length bs)) @ bs"

text \<open>The contents of a string, and the strings whose two representations do not disagree.\<close>

definition ms_bytes :: "MQTTString \<Rightarrow> byte list" where
  "ms_bytes s = (if lenstring_len s > 0 then take (nat (lenstring_len s)) (the (lenstring_data s))
     else case cstring s of Some c \<Rightarrow> c | None \<Rightarrow> [])"

definition ms_wf :: "MQTTString \<Rightarrow> bool" where
  "ms_wf s \<longleftrightarrow> length (ms_bytes s) < 65536 \<and>
     (if lenstring_len s > 0 then cstring s = None \<and> (\<exists>d. lenstring_data s = Some d \<and> nat (lenstring_len s) \<le> length d)
      else cstring s \<noteq> None \<or> lenstring_len s = 0)"

lemma MQTTstrlen_wf: "ms_wf s \<Longrightarrow> MQTTstrlen s = int (length (ms_bytes s))"
  by (auto simp: ms_wf_def ms_bytes_def MQTTstrlen_def split: if_splits option.splits)

lemma writeInt_wire: "0 \<le> i \<Longrightarrow> mqtt_writeInt i w = mqtt_put (int_wire i) w"
  by (simp add: mqtt_writeInt_def mqtt_writeChar_def int_wire_def mqtt_put_append [of "[_]" w, simplified]
      signed_divide_int_def signed_modulo_int_def sgn_if)

lemma writeMQTTString_wire: "ms_wf s \<Longrightarrow> mqtt_writeMQTTString s w = mqtt_put (str_wire (ms_bytes s)) w"
  by (auto simp: ms_wf_def ms_bytes_def mqtt_writeMQTTString_def mqtt_writeCString_def writeInt_wire str_wire_def
      mqtt_put_append split: option.splits if_splits)

lemma field_1: "bit (push_bit k (x AND 1) :: byte) n \<longleftrightarrow> n = k \<and> k < 8 \<and> bit x 0"
  unfolding bit_push_bit_iff bit_and_iff bit_1_iff by auto

lemma bit_3: "bit (3 :: byte) i \<longleftrightarrow> i < 2"
proof -
  have m: "3 = (mask 2 :: byte)" by (simp add: mask_eq_exp_minus_1)
  show ?thesis unfolding m bit_mask_iff by auto
qed

lemma field_2: "bit (push_bit k (x AND 3) :: byte) n \<longleftrightarrow> n < 8 \<and> (n = k \<and> bit x 0 \<or> n = k + 1 \<and> bit x 1)"
  unfolding bit_push_bit_iff bit_and_iff bit_3
  using le_add_diff_inverse [of k n] by (cases "n - k = 0"; cases "n - k = 1") (auto simp: not_le)

lemma bit_and_1: "w AND 1 = (if bit w 0 then 1 else 0 :: byte)"
  by (simp add: and_one_eq odd_iff_mod_2_eq_one bit_0)

lemma flags_roundtrip:
  "flags_bits (flags_byte f) = \<lparr>f_cleansession = f_cleansession f AND 1, f_will = f_will f AND 1, f_willQoS = f_willQoS f AND 3,
     f_willRetain = f_willRetain f AND 1, f_password = f_password f AND 1, f_username = f_username f AND 1\<rparr>"
proof -
  define b where "b = flags_byte f"
  have bit: "bit b n \<longleftrightarrow> n = 1 \<and> bit (f_cleansession f) 0 \<or> n = 2 \<and> bit (f_will f) 0 \<or>
      n = 3 \<and> bit (f_willQoS f) 0 \<or> n = 4 \<and> bit (f_willQoS f) 1 \<or> n = 5 \<and> bit (f_willRetain f) 0 \<or>
      n = 6 \<and> bit (f_password f) 0 \<or> n = 7 \<and> bit (f_username f) 0" for n
    unfolding b_def flags_byte_def bit_or_iff field_1 field_2 by auto
  have "drop_bit 3 b AND 3 = f_willQoS f AND 3"
  proof (rule bit_word_eqI)
    fix n
    have "bit (push_bit 0 (drop_bit 3 b AND 3)) n = bit (push_bit 0 (f_willQoS f AND 3)) n"
      unfolding field_2 by (auto simp: bit_drop_bit_eq bit)
    then show "bit (drop_bit 3 b AND 3) n = bit (f_willQoS f AND 3) n" by simp
  qed
  then show ?thesis
    unfolding b_def [symmetric] by (simp add: flags_bits_def bit_and_1 bit_drop_bit_eq bit)
qed

text \<open>Reading back: the position behind a piece of the buffer.\<close>

lemma drop_append_next: "drop p buf = xs @ ys \<Longrightarrow> drop (p + length xs) buf = ys"
  by (metis add.commute append_eq_conv_conj drop_drop)

lemma readChar_drop: "drop p buf = c # rest \<Longrightarrow> mqtt_readChar buf p = Some (c, p + 1)"
  by (simp add: mqtt_readChar_def drop_Cons_iff)

lemma int_wire_value:
  "0 \<le> i \<Longrightarrow> i < 65536 \<Longrightarrow> 256 * uint (word_of_int (i div 256) :: byte) + uint (word_of_int (i mod 256) :: byte) = i"
  by (simp add: uint_word_of_int)

lemma readInt_drop:
  "drop p buf = int_wire i @ rest \<Longrightarrow> 0 \<le> i \<Longrightarrow> i < 65536 \<Longrightarrow> mqtt_readInt buf p = Some (i, p + 2)"
  using int_wire_value [of i] by (simp add: mqtt_readInt_def int_wire_def drop_Cons_iff)

lemma length_int_wire [simp]: "length (int_wire i) = 2"
  by (simp add: int_wire_def)

lemma length_str_wire [simp]: "length (str_wire bs) = 2 + length bs"
  by (simp add: str_wire_def)

definition lenstring :: "byte list \<Rightarrow> MQTTString" where
  "lenstring bs = \<lparr>cstring = None, lenstring_len = int (length bs), lenstring_data = Some bs\<rparr>"

lemma readLenString_drop:
  assumes "drop p buf = str_wire bs @ rest" "length bs < 65536" "p + 2 + length bs \<le> enddata"
  shows "mqtt_readMQTTLenString s buf p enddata = Some (1, lenstring bs, p + (2 + length bs))"
proof -
  have d: "drop p buf = int_wire (int (length bs)) @ bs @ rest" using assms(1) by (simp add: str_wire_def)
  from drop_append_next [OF d] have "drop (p + 2) buf = bs @ rest" by simp
  then show ?thesis
    using readInt_drop [OF d] assms(2,3) by (simp add: mqtt_readMQTTLenString_def lenstring_def Let_def)
qed

lemma ms_bytes_lenstring [simp]: "ms_bytes (lenstring bs) = bs"
  by (simp add: ms_bytes_def lenstring_def)

text \<open>The header byte and the remaining length of a received packet.\<close>

lemma frame_read:
  assumes "drop 0 buf = mqtt_frame c body @ rest" "int (length body) < 2 ^ 28"
  shows "mqtt_readChar buf 0 = Some (c, 1)"
    "MQTTPacket_decodeBuf buf (Suc 0) = Some (length (MQTTPacket_encode (int (length body))), int (length body))"
    "drop (Suc (length (MQTTPacket_encode (int (length body))))) buf = body @ rest"
proof -
  let ?lb = "MQTTPacket_encode (int (length body))"
  have 1: "drop 0 buf = c # ?lb @ body @ rest" using assms(1) by (simp add: mqtt_frame_def)
  then show "mqtt_readChar buf 0 = Some (c, 1)" by (simp add: readChar_drop)
  have 2: "drop (Suc 0) buf = ?lb @ body @ rest" using 1 by (simp add: drop_Cons_iff)
  then show "MQTTPacket_decodeBuf buf (Suc 0) = Some (length ?lb, int (length body))"
    using assms(2) by (intro decodeBuf_encode) simp_all
  from drop_append_next [OF 2] show "drop (Suc (length ?lb)) buf = body @ rest" by simp
qed

text \<open>Writing a packet whose size the caller's check covers.\<close>

lemma frame_write:
  assumes "MQTTPacket_len (int (length body)) \<le> buflen" "buflen \<le> int (length buf)" "int (length body) < 2 ^ 28"
  shows "mqtt_put (mqtt_frame c body) (buf, 0) =
    Some (mqtt_frame c body @ drop (length (mqtt_frame c body)) buf, length (mqtt_frame c body))"
proof (rule mqtt_put_start)
  have "int (length (mqtt_frame c body)) \<le> MQTTPacket_len (int (length body))"
    using assms(3) by (simp add: mqtt_frame_def MQTTPacket_len_def length_encode Let_def)
  with assms(1,2) show "length (mqtt_frame c body) \<le> length buf" by linarith
qed

lemma writeChar_then: "mqtt_writeChar c w \<bind> mqtt_put ys = mqtt_put (c # ys) w"
  by (simp add: mqtt_writeChar_def mqtt_put_append)

section \<open>The publish round trip\<close>

definition publish_header :: "mqtt_publish \<Rightarrow> byte" where
  "publish_header p = header_byte \<lparr>h_retain = pub_retained p, h_qos = word_of_int (pub_qos p), h_dup = pub_dup p, h_type = 3\<rparr>"

definition publish_body :: "mqtt_publish \<Rightarrow> byte list" where
  "publish_body p = str_wire (ms_bytes (pub_topicName p)) @
     (if pub_qos p > 0 then int_wire (uint (pub_packetid p)) else []) @ take (nat (pub_payloadlen p)) (pub_payload p)"

definition publish_wf :: "mqtt_publish \<Rightarrow> bool" where
  "publish_wf p \<longleftrightarrow> ms_wf (pub_topicName p) \<and> pub_dup p < 2 \<and> pub_qos p \<in> {0, 1, 2} \<and> pub_retained p < 2 \<and>
     0 \<le> pub_payloadlen p \<and> nat (pub_payloadlen p) \<le> length (pub_payload p) \<and> int (length (publish_body p)) < 2 ^ 28"

lemma publishLength_body:
  "publish_wf p \<Longrightarrow> MQTTSerialize_publishLength (pub_qos p) (pub_topicName p) (pub_payloadlen p) = int (length (publish_body p))"
  by (auto simp: publish_wf_def MQTTSerialize_publishLength_def publish_body_def MQTTstrlen_wf)

lemma uint_u16_bounds: "0 \<le> uint (w :: u16)" "uint (w :: u16) < 65536"
  using uint_bounded [of w] by simp_all

lemma serialize_publish:
  assumes "publish_wf p" "MQTTPacket_len (int (length (publish_body p))) \<le> buflen" "buflen \<le> int (length buf)"
  shows "MQTTSerialize_publish buf buflen p =
    Some (int (length (mqtt_frame (publish_header p) (publish_body p))),
      mqtt_frame (publish_header p) (publish_body p) @ drop (length (mqtt_frame (publish_header p) (publish_body p))) buf)"
proof -
  let ?len = "int (length (publish_body p))"
  have ms: "ms_wf (pub_topicName p)" and pl: "0 \<le> pub_payloadlen p" "nat (pub_payloadlen p) \<le> length (pub_payload p)"
    and n: "?len < 2 ^ 28" using assms(1) by (simp_all add: publish_wf_def)
  have "MQTTSerialize_publish buf buflen p =
      mqtt_put (mqtt_frame (publish_header p) (publish_body p)) (buf, 0) \<bind> (\<lambda>w. Some (int (snd w), fst w))"
    using assms(2) ms pl unfolding MQTTSerialize_publish_def Let_def publishLength_body [OF assms(1)]
    by (simp add: writeMQTTString_wire writeInt_wire mqtt_frame_def publish_body_def publish_header_def
        mqtt_put_append mqtt_writeChar_def flip: bind_assoc)
  then show ?thesis using frame_write [OF assms(2,3) n] by simp
qed

definition same_publish :: "mqtt_publish \<Rightarrow> mqtt_publish \<Rightarrow> bool" where
  "same_publish p q \<longleftrightarrow> pub_dup q = pub_dup p \<and> pub_qos q = pub_qos p \<and> pub_retained q = pub_retained p \<and>
     (pub_qos p > 0 \<longrightarrow> pub_packetid q = pub_packetid p) \<and> ms_bytes (pub_topicName q) = ms_bytes (pub_topicName p) \<and>
     pub_payloadlen q = pub_payloadlen p \<and>
     take (nat (pub_payloadlen q)) (pub_payload q) = take (nat (pub_payloadlen p)) (pub_payload p)"

lemma and_1_less_2: "(b :: byte) < 2 \<Longrightarrow> b AND 1 = b"
proof -
  assume "b < 2"
  then have "uint b < 2" by (simp add: word_less_def)
  then have "uint b = 0 \<or> uint b = 1" using uint_ge_0 [of b] by linarith
  then have "b = 0 \<or> b = 1" by (auto intro: word_uint_eqI)
  then show ?thesis by auto
qed

lemma publish_header_bits:
  "publish_wf p \<Longrightarrow> header_bits (publish_header p) =
     \<lparr>h_retain = pub_retained p, h_qos = word_of_int (pub_qos p), h_dup = pub_dup p, h_type = 3\<rparr>"
  by (auto simp: publish_wf_def publish_header_def header_roundtrip and_1_less_2)

lemma deserialize_publish:
  assumes wf: "publish_wf p" and buf: "drop 0 buf = mqtt_frame (publish_header p) (publish_body p) @ rest"
  shows "\<exists>q. MQTTDeserialize_publish out buf = Some (1, q) \<and> same_publish p q"
proof -
  let ?topic = "ms_bytes (pub_topicName p)" let ?pay = "take (nat (pub_payloadlen p)) (pub_payload p)"
  let ?id = "if pub_qos p > 0 then int_wire (uint (pub_packetid p)) else []"
  define L where "L = length (publish_body p)"
  define cur where "cur = Suc (length (MQTTPacket_encode (int L)))"
  have n: "int (length (publish_body p)) < 2 ^ 28" using wf by (simp add: publish_wf_def)
  note fr = frame_read [OF buf n, folded L_def, folded cur_def]
  have cur_L: "Suc (length (MQTTPacket_encode (int L))) = cur" "Suc (length (MQTTPacket_encode (int L)) + L) = cur + L"
    by (simp_all add: cur_def)
  have qos: "uint (word_of_int (pub_qos p) :: byte) = pub_qos p" using wf by (auto simp: publish_wf_def)
  have d1: "drop cur buf = str_wire ?topic @ (?id @ ?pay @ rest)" using fr(3) by (simp add: publish_body_def)
  have d2: "drop (cur + (2 + length ?topic)) buf = ?id @ ?pay @ rest" using drop_append_next [OF d1] by simp
  have len: "length ?topic < 65536" using wf by (simp add: publish_wf_def ms_wf_def)
  have rd: "mqtt_readMQTTLenString s buf cur (cur + L) = Some (1, lenstring ?topic, cur + (2 + length ?topic))" for s
    by (rule readLenString_drop [OF d1 len]) (simp add: L_def publish_body_def)
  have pay: "length ?pay = nat (pub_payloadlen p)" "0 \<le> pub_payloadlen p" using wf by (simp_all add: publish_wf_def)
  show ?thesis
  proof (cases "pub_qos p > 0")
    case True
    with d2 have d3: "drop (cur + (2 + length ?topic)) buf = int_wire (uint (pub_packetid p)) @ ?pay @ rest" by simp
    from drop_append_next [OF this] have d4: "drop (cur + (2 + length ?topic) + 2) buf = ?pay @ rest" by simp
    have pl: "int (cur + L) - int (cur + (2 + length ?topic) + 2) = pub_payloadlen p" "\<not> int (cur + L) - int (cur + (2 + length ?topic)) < 0"
      using pay True by (simp_all add: L_def publish_body_def)
    have "MQTTDeserialize_publish out buf = Some (1, out\<lparr>pub_dup := pub_dup p, pub_qos := pub_qos p, pub_retained := pub_retained p,
        pub_topicName := lenstring ?topic, pub_packetid := pub_packetid p, pub_payloadlen := pub_payloadlen p,
        pub_payload := drop (cur + (2 + length ?topic) + 2) buf\<rparr>)"
      using pl True qos readInt_drop [OF d3 uint_u16_bounds] unfolding MQTTDeserialize_publish_def
      by (simp add: fr rd Let_def publish_header_bits [OF wf] cur_L)
    then show ?thesis using d4 pay by (simp add: same_publish_def)
  next
    case False
    with wf have q: "pub_qos p = 0" by (auto simp: publish_wf_def)
    with d2 have d3: "drop (cur + (2 + length ?topic)) buf = ?pay @ rest" by simp
    have pl: "int (cur + L) - int (cur + (2 + length ?topic)) = pub_payloadlen p"
      using pay q by (simp add: L_def publish_body_def)
    have "MQTTDeserialize_publish out buf = Some (1, out\<lparr>pub_dup := pub_dup p, pub_qos := pub_qos p, pub_retained := pub_retained p,
        pub_topicName := lenstring ?topic, pub_payloadlen := pub_payloadlen p, pub_payload := drop (cur + (2 + length ?topic)) buf\<rparr>)"
      using pl q pay unfolding MQTTDeserialize_publish_def
      by (simp add: fr rd Let_def publish_header_bits [OF wf] cur_L)
    then show ?thesis using d3 pay q by (simp add: same_publish_def)
  qed
qed

end
