(* ===== verification/Mqtt_Codec.thy ===== *)
theory Mqtt_Codec
  imports Mqtt_Messages
begin

unbundle bit_operations_syntax

text \<open>
  What the MQTT messages have in common: a serializer writes one framed packet, a deserializer reads
  it back.  The locale states this contract and draws the consequences once: the round trip through
  a buffer, and the delivery over a fragmented stream with the non-blocking reader in between.  It
  is interpreted for PUBLISH, SUBSCRIBE and CONNECT.  The second part shows where the code breaks the
  contract: codes of failed reads that mean success, and writes past the checked size.
\<close>

section \<open>The contract\<close>

locale packet_codec =
  fixes serialize :: "byte list \<Rightarrow> int \<Rightarrow> 'm \<Rightarrow> (int \<times> byte list) option"
    and deserialize :: "byte list \<Rightarrow> (int \<times> 'r) option"
    and header :: "'m \<Rightarrow> byte" and contents :: "'m \<Rightarrow> byte list"
    and valid :: "'m \<Rightarrow> bool" and same :: "'m \<Rightarrow> 'r \<Rightarrow> bool"
  assumes writes: "valid m \<Longrightarrow> MQTTPacket_len (int (length (contents m))) \<le> buflen \<Longrightarrow> buflen \<le> int (length buf) \<Longrightarrow>
      serialize buf buflen m = Some (int (length (mqtt_frame (header m) (contents m))),
        mqtt_frame (header m) (contents m) @ drop (length (mqtt_frame (header m) (contents m))) buf)"
    and reads: "valid m \<Longrightarrow> drop 0 buf = mqtt_frame (header m) (contents m) @ rest \<Longrightarrow>
      \<exists>r. deserialize buf = Some (1, r) \<and> same m r"
    and size: "valid m \<Longrightarrow> int (length (contents m)) < 2 ^ 28"
    and typed: "valid m \<Longrightarrow> h_type (header_bits (header m)) \<noteq> 0"
begin

lemma roundtrip:
  assumes "valid m" "MQTTPacket_len (int (length (contents m))) \<le> buflen" "buflen \<le> int (length buf)"
  shows "\<exists>n buf' r. serialize buf buflen m = Some (n, buf') \<and> 0 < n \<and> n \<le> buflen \<and> length buf' = length buf \<and>
    deserialize buf' = Some (1, r) \<and> same m r"
proof -
  let ?f = "mqtt_frame (header m) (contents m)"
  from writes [OF assms] have w: "serialize buf buflen m = Some (int (length ?f), ?f @ drop (length ?f) buf)" .
  have n: "int (length ?f) \<le> buflen"
    using assms(2) size [OF assms(1)] by (simp add: mqtt_frame_def MQTTPacket_len_def length_encode Let_def split: if_splits)
  with assms(3) have "length ?f \<le> length buf" by linarith
  moreover from reads [OF assms(1), of "?f @ drop (length ?f) buf" "drop (length ?f) buf"]
  obtain r where "deserialize (?f @ drop (length ?f) buf) = Some (1, r)" "same m r" by auto
  moreover have "0 < int (length ?f)" by (simp add: mqtt_frame_def)
  ultimately show ?thesis using w n by auto
qed

lemma delivery:
  assumes "valid m" "serialize buf buflen m = Some (n, buf')"
    and "MQTTPacket_len (int (length (contents m))) \<le> buflen" "buflen \<le> int (length buf)"
    and "mqtt_stream getfn inbox delay" "inbox (sck trp) = take (nat n) buf' @ rest" "state trp = 0"
    and "n \<le> rbuflen" "rbuflen \<le> int (length rbuf)"
  shows "\<exists>k rbuf' trp' r. readnb_poll k getfn rbuf rbuflen trp = Some (uint (h_type (header_bits (header m))), rbuf', trp') \<and>
    deserialize rbuf' = Some (1, r) \<and> same m r \<and> inbox (sck trp') = rest \<and> state trp' = 0"
proof -
  let ?f = "mqtt_frame (header m) (contents m)"
  from writes [OF assms(1,3,4)] assms(2) have n: "n = int (length ?f)" and b: "buf' = ?f @ drop (length ?f) buf" by auto
  have "nb_ready inbox (header m) (contents m) rest rbuf trp"
    using assms(6,7) by (simp add: nb_ready_def n b)
  moreover have "length ?f \<le> length rbuf" "int (length ?f) \<le> rbuflen" using assms(8,9) n by auto
  ultimately obtain k rbuf' trp' where
    k: "readnb_poll k getfn rbuf rbuflen trp = Some (uint (h_type (header_bits (header m))), rbuf', trp')"
      "nb_done inbox (header m) (contents m) rest rbuf' trp'"
    using readnb_poll_ok [OF assms(5) size [OF assms(1)] typed [OF assms(1)]] by blast
  have "drop 0 rbuf' = ?f @ drop (length ?f) rbuf'"
    using k(2) append_take_drop_id [of "length ?f" rbuf'] by (simp add: nb_done_def)
  from reads [OF assms(1) this] k show ?thesis by (auto simp: nb_done_def)
qed

end

section \<open>Publish\<close>

interpretation pub: packet_codec MQTTSerialize_publish "MQTTDeserialize_publish out" publish_header publish_body publish_wf same_publish
  for out
proof unfold_locales
  fix m buflen and buf :: "byte list"
  assume "publish_wf m" "MQTTPacket_len (int (length (publish_body m))) \<le> buflen" "buflen \<le> int (length buf)"
  then show "MQTTSerialize_publish buf buflen m = Some (int (length (mqtt_frame (publish_header m) (publish_body m))),
      mqtt_frame (publish_header m) (publish_body m) @ drop (length (mqtt_frame (publish_header m) (publish_body m))) buf)"
    by (rule serialize_publish)
next
  fix m and buf rest :: "byte list"
  assume "publish_wf m" "drop 0 buf = mqtt_frame (publish_header m) (publish_body m) @ rest"
  then show "\<exists>r. MQTTDeserialize_publish out buf = Some (1, r) \<and> same_publish m r" by (rule deserialize_publish)
qed (auto simp: publish_wf_def publish_header_bits)

text \<open>
  Property C25. A published message arrives: what \<open>MQTTSerialize_publish\<close> wrote into a buffer of
  sufficient size, sent over a transport that may cut the stream anywhere, is reassembled by
  finitely many calls of \<open>MQTTPacket_readnb\<close> and read back by \<open>MQTTDeserialize_publish\<close> with its flags, its
  packet identifier, its topic and its payload, and the stream stands at the next packet.
\<close>

theorem mqtt_publish_delivered:
  assumes "publish_wf p" "MQTTSerialize_publish buf buflen p = Some (n, buf')"
    and "MQTTPacket_len (int (length (publish_body p))) \<le> buflen" "buflen \<le> int (length buf)"
    and "mqtt_stream getfn inbox delay" "inbox (sck trp) = take (nat n) buf' @ rest" "state trp = 0"
    and "n \<le> rbuflen" "rbuflen \<le> int (length rbuf)"
  shows "\<exists>k rbuf' trp' q. readnb_poll k getfn rbuf rbuflen trp = Some (3, rbuf', trp') \<and>
    MQTTDeserialize_publish out rbuf' = Some (1, q) \<and> same_publish p q \<and> inbox (sck trp') = rest \<and> state trp' = 0"
  using pub.delivery [OF assms, of out] assms(1) by (simp add: publish_header_bits)

definition sample_publish :: mqtt_publish where
  "sample_publish = \<lparr>pub_dup = 0, pub_qos = 1, pub_retained = 0, pub_packetid = 7,
     pub_topicName = \<lparr>cstring = Some [0x61, 0x2f, 0x62], lenstring_len = 0, lenstring_data = None\<rparr>,
     pub_payload = [1, 2], pub_payloadlen = 2\<rparr>"

lemma sample_publish_wf [simp]: "publish_wf sample_publish"
  by (simp add: publish_wf_def sample_publish_def ms_wf_def ms_bytes_def publish_body_def)

theorem mqtt_publish_delivered_witness:
  "\<exists>n buf' k rbuf' trp' q. MQTTSerialize_publish (replicate 16 0) 16 sample_publish = Some (n, buf') \<and>
     readnb_poll k drip (replicate 16 0) 16 \<lparr>sck = (True, take (nat n) buf'), multiplier = 0, rem_len = 0, trp_len = 0, state = 0\<rparr> =
       Some (3, rbuf', trp') \<and>
     MQTTDeserialize_publish sample_publish rbuf' = Some (1, q) \<and> same_publish sample_publish q"
proof -
  have len: "length (publish_body sample_publish) = 9"
    by (simp add: publish_body_def sample_publish_def ms_bytes_def)
  have room: "MQTTPacket_len (int (length (publish_body sample_publish))) \<le> 16" by (simp add: len MQTTPacket_len_def)
  have "int (length (mqtt_frame (publish_header sample_publish) (publish_body sample_publish))) = 11"
    by (simp add: mqtt_frame_def len length_encode)
  with serialize_publish [OF sample_publish_wf room, of "replicate 16 0"] obtain buf' where
    s: "MQTTSerialize_publish (replicate 16 0) 16 sample_publish = Some (11, buf')" by simp
  from mqtt_publish_delivered [OF sample_publish_wf s room _ drip_stream,
      of "\<lparr>sck = (True, take (nat 11) buf'), multiplier = 0, rem_len = 0, trp_len = 0, state = 0\<rparr>" "[]" 16 "replicate 16 0" sample_publish]
  show ?thesis using s by auto
qed

section \<open>Subscribe\<close>

definition filters_wire :: "(MQTTString \<times> int) list \<Rightarrow> byte list" where
  "filters_wire fs = concat (map (\<lambda>(s, q). str_wire (ms_bytes s) @ [word_of_int q]) fs)"

text \<open>The dup flag, the packet identifier and the filters.\<close>

type_synonym subscription = "byte \<times> u16 \<times> (MQTTString \<times> int) list"

definition subscribe_header :: "subscription \<Rightarrow> byte" where
  "subscribe_header m = header_byte \<lparr>h_retain = 0, h_qos = 1, h_dup = fst m, h_type = 8\<rparr>"

definition subscribe_body :: "subscription \<Rightarrow> byte list" where
  "subscribe_body m = int_wire (uint (fst (snd m))) @ filters_wire (snd (snd m))"

definition subscribe_wf :: "mqtt_subscribe \<Rightarrow> subscription \<Rightarrow> bool" where
  "subscribe_wf out m \<longleftrightarrow> fst m < 2 \<and> (\<forall>(s, q) \<in> set (snd (snd m)). ms_wf s \<and> 0 \<le> q \<and> q < 256) \<and>
     int (length (subscribe_body m)) < 2 ^ 28 \<and>
     length (snd (snd m)) \<le> length (sub_topicFilters out) \<and> length (snd (snd m)) \<le> length (sub_requestedQoSs out)"

definition same_subscribe :: "subscription \<Rightarrow> mqtt_subscribe \<Rightarrow> bool" where
  "same_subscribe m r \<longleftrightarrow> sub_dup r = fst m \<and> sub_packetid r = fst (snd m) \<and> sub_count r = length (snd (snd m)) \<and>
     map ms_bytes (take (sub_count r) (sub_topicFilters r)) = map (ms_bytes \<circ> fst) (snd (snd m)) \<and>
     take (sub_count r) (sub_requestedQoSs r) = map snd (snd (snd m))"

lemma filters_wire_Nil [simp]: "filters_wire [] = []"
  by (simp add: filters_wire_def)

lemma filters_wire_Cons [simp]: "filters_wire ((s, q) # fs) = str_wire (ms_bytes s) @ word_of_int q # filters_wire fs"
  by (simp add: filters_wire_def)

lemma subscribeLength_wire:
  "\<forall>(s, q) \<in> set fs. ms_wf s \<Longrightarrow> foldl (\<lambda>len s. len + (2 + MQTTstrlen s + 1)) k (map fst fs) = k + int (length (filters_wire fs))"
  by (induction fs arbitrary: k) (auto simp: MQTTstrlen_wf)

lemma write_filters_wire:
  "\<forall>(s, q) \<in> set fs. ms_wf s \<Longrightarrow> mqtt_put xs w \<bind> write_filters fs = mqtt_put (xs @ filters_wire fs) w"
proof (induction fs arbitrary: xs)
  case Nil
  show ?case by (cases "mqtt_put xs w") simp_all
next
  case (Cons f fs)
  obtain s q where f: "f = (s, q)" by (cases f)
  with Cons.prems have "write_filters (f # fs) =
      (\<lambda>w. mqtt_put (str_wire (ms_bytes s)) w \<bind> (\<lambda>w. mqtt_put [word_of_int q] w \<bind> write_filters fs))"
    by (intro ext) (simp add: writeMQTTString_wire mqtt_writeChar_def)
  then have "mqtt_put xs w \<bind> write_filters (f # fs) =
      mqtt_put xs w \<bind> mqtt_put (str_wire (ms_bytes s)) \<bind> mqtt_put [word_of_int q] \<bind> write_filters fs"
    by (simp only: bind_assoc)
  also have "\<dots> = mqtt_put (xs @ str_wire (ms_bytes s) @ [word_of_int q]) w \<bind> write_filters fs"
    by (simp add: mqtt_put_append)
  finally show ?case using Cons.IH Cons.prems f by (simp del: write_filters.simps)
qed

lemma serialize_subscribe:
  assumes "subscribe_wf out m" "MQTTPacket_len (int (length (subscribe_body m))) \<le> buflen" "buflen \<le> int (length buf)"
  shows "MQTTSerialize_subscribe buf buflen (fst m) (fst (snd m)) (snd (snd m)) =
    Some (int (length (mqtt_frame (subscribe_header m) (subscribe_body m))),
      mqtt_frame (subscribe_header m) (subscribe_body m) @ drop (length (mqtt_frame (subscribe_header m) (subscribe_body m))) buf)"
proof -
  have ms: "\<forall>(s, q) \<in> set (snd (snd m)). ms_wf s" and n: "int (length (subscribe_body m)) < 2 ^ 28"
    using assms(1) by (auto simp: subscribe_wf_def)
  have len: "MQTTSerialize_subscribeLength (map fst (snd (snd m))) = int (length (subscribe_body m))"
    unfolding MQTTSerialize_subscribeLength_def subscribeLength_wire [OF ms] by (simp add: subscribe_body_def)
  have "MQTTSerialize_subscribe buf buflen (fst m) (fst (snd m)) (snd (snd m)) =
      mqtt_put (mqtt_frame (subscribe_header m) (subscribe_body m)) (buf, 0) \<bind> (\<lambda>w. Some (int (snd w), fst w))"
    using assms(2) unfolding MQTTSerialize_subscribe_def Let_def len
    by (simp add: writeInt_wire mqtt_frame_def subscribe_body_def subscribe_header_def
        mqtt_put_append mqtt_writeChar_def write_filters_wire [OF ms] flip: bind_assoc)
  then show ?thesis using frame_write [OF assms(2,3) n] by simp
qed

lemma subscribe_loop_ok:
  "drop cur buf = filters_wire fs @ rest \<Longrightarrow> \<forall>(s, q) \<in> set fs. ms_wf s \<and> 0 \<le> q \<and> q < 256 \<Longrightarrow>
   sub_count out + length fs \<le> length (sub_topicFilters out) \<Longrightarrow> sub_count out + length fs \<le> length (sub_requestedQoSs out) \<Longrightarrow>
   subscribe_loop buf (cur + length (filters_wire fs)) cur out =
     Some (True, out\<lparr>sub_count := sub_count out + length fs,
       sub_topicFilters := take (sub_count out) (sub_topicFilters out) @ map (lenstring \<circ> ms_bytes \<circ> fst) fs @
         drop (sub_count out + length fs) (sub_topicFilters out),
       sub_requestedQoSs := take (sub_count out) (sub_requestedQoSs out) @ map snd fs @
         drop (sub_count out + length fs) (sub_requestedQoSs out)\<rparr>)"
proof (induction fs arbitrary: cur out)
  case Nil
  then show ?case by (subst subscribe_loop.simps) simp
next
  case (Cons f fs)
  obtain s q where f: "f = (s, q)" by (cases f)
  let ?n = "sub_count out" let ?e = "cur + length (filters_wire (f # fs))" let ?p = "cur + (2 + length (ms_bytes s))"
  define out' where "out' = out\<lparr>sub_topicFilters := (sub_topicFilters out)[?n := lenstring (ms_bytes s)],
    sub_requestedQoSs := (sub_requestedQoSs out)[?n := q], sub_count := ?n + 1\<rparr>"
  have d1: "drop cur buf = str_wire (ms_bytes s) @ word_of_int q # filters_wire fs @ rest" using Cons.prems(1) f by simp
  have d2: "drop ?p buf = word_of_int q # filters_wire fs @ rest" using drop_append_next [OF d1] by simp
  have d3: "drop (?p + 1) buf = filters_wire fs @ rest" using d2 by (simp only: drop_Cons_iff)
  have ms: "length (ms_bytes s) < 65536" "0 \<le> q" "q < 256" using Cons.prems(2) f by (auto simp: ms_wf_def)
  have rd: "mqtt_readMQTTLenString x buf cur ?e = Some (1, lenstring (ms_bytes s), ?p)" for x
    by (rule readLenString_drop [OF d1 ms(1)]) (simp add: f)
  have q: "uint (word_of_int q :: byte) = q" using ms(2,3) by (simp add: uint_word_of_int)
  have step0: "subscribe_loop buf ?e cur out = subscribe_loop buf ?e (?p + 1) out'"
    using Cons.prems(3,4) rd q readChar_drop [OF d2] by (subst subscribe_loop.simps) (simp add: f out'_def Let_def)
  have e: "?e = (?p + 1) + length (filters_wire fs)" by (simp add: f)
  have step: "subscribe_loop buf ?e cur out = subscribe_loop buf ((?p + 1) + length (filters_wire fs)) (?p + 1) out'"
    using step0 unfolding e .
  have IH: "subscribe_loop buf ((?p + 1) + length (filters_wire fs)) (?p + 1) out' =
     Some (True, out'\<lparr>sub_count := sub_count out' + length fs,
       sub_topicFilters := take (sub_count out') (sub_topicFilters out') @ map (lenstring \<circ> ms_bytes \<circ> fst) fs @
         drop (sub_count out' + length fs) (sub_topicFilters out'),
       sub_requestedQoSs := take (sub_count out') (sub_requestedQoSs out') @ map snd fs @
         drop (sub_count out' + length fs) (sub_requestedQoSs out')\<rparr>)"
    by (rule Cons.IH [OF d3]) (use Cons.prems f in \<open>auto simp: out'_def\<close>)
  show ?case
    unfolding step IH using Cons.prems(3,4)
    by (simp add: out'_def f take_Suc_conv_app_nth take_update_cancel)
qed

lemma subscribe_header_bits:
  "fst m < 2 \<Longrightarrow> header_bits (subscribe_header m) = \<lparr>h_retain = 0, h_qos = 1, h_dup = fst m, h_type = 8\<rparr>"
  by (simp add: subscribe_header_def header_roundtrip and_1_less_2)

lemma deserialize_subscribe:
  assumes wf: "subscribe_wf out m" and buf: "drop 0 buf = mqtt_frame (subscribe_header m) (subscribe_body m) @ rest"
  shows "\<exists>r. MQTTDeserialize_subscribe out buf = Some (1, r) \<and> same_subscribe m r"
proof -
  obtain dup ident fs where m: "m = (dup, ident, fs)" by (cases m)
  define L where "L = length (subscribe_body m)"
  define cur where "cur = Suc (length (MQTTPacket_encode (int L)))"
  have n: "int (length (subscribe_body m)) < 2 ^ 28" and dup: "dup < 2" using wf m by (simp_all add: subscribe_wf_def)
  note fr = frame_read [OF buf n, folded L_def, folded cur_def]
  have cur_L: "Suc (length (MQTTPacket_encode (int L))) = cur" "Suc (length (MQTTPacket_encode (int L)) + L) = cur + L"
    by (simp_all add: cur_def)
  have d1: "drop cur buf = int_wire (uint ident) @ (filters_wire fs @ rest)" using fr(3) m by (simp add: subscribe_body_def)
  have d2: "drop (cur + 2) buf = filters_wire fs @ rest" using drop_append_next [OF d1] by simp
  have e: "cur + L = (cur + 2) + length (filters_wire fs)" using m by (simp add: L_def subscribe_body_def)
  define o1 where "o1 = out\<lparr>sub_dup := dup, sub_packetid := ident, sub_count := 0\<rparr>"
  define r where "r = o1\<lparr>sub_count := length fs,
    sub_topicFilters := map (lenstring \<circ> ms_bytes \<circ> fst) fs @ drop (length fs) (sub_topicFilters out),
    sub_requestedQoSs := map snd fs @ drop (length fs) (sub_requestedQoSs out)\<rparr>"
  have loop: "subscribe_loop buf (cur + L) (cur + 2) o1 = Some (True, r)"
    unfolding e using subscribe_loop_ok [OF d2, of o1] wf m by (simp add: subscribe_wf_def o1_def r_def)
  have bits: "header_bits (subscribe_header m) = \<lparr>h_retain = 0, h_qos = 1, h_dup = dup, h_type = 8\<rparr>"
    using subscribe_header_bits [of m] m dup by simp
  have "MQTTDeserialize_subscribe out buf = Some (1, r)"
    using loop readInt_drop [OF d1 uint_u16_bounds] unfolding MQTTDeserialize_subscribe_def o1_def
    by (simp add: fr Let_def bits cur_L)
  moreover have "same_subscribe m r" by (simp add: same_subscribe_def r_def o1_def m comp_def)
  ultimately show ?thesis by blast
qed

interpretation sub: packet_codec "\<lambda>buf buflen m. MQTTSerialize_subscribe buf buflen (fst m) (fst (snd m)) (snd (snd m))"
    "MQTTDeserialize_subscribe out" subscribe_header subscribe_body "subscribe_wf out" same_subscribe
  for out
proof unfold_locales
  fix m buflen and buf :: "byte list"
  assume "subscribe_wf out m" "MQTTPacket_len (int (length (subscribe_body m))) \<le> buflen" "buflen \<le> int (length buf)"
  then show "MQTTSerialize_subscribe buf buflen (fst m) (fst (snd m)) (snd (snd m)) =
      Some (int (length (mqtt_frame (subscribe_header m) (subscribe_body m))),
        mqtt_frame (subscribe_header m) (subscribe_body m) @ drop (length (mqtt_frame (subscribe_header m) (subscribe_body m))) buf)"
    by (rule serialize_subscribe)
next
  fix m and buf rest :: "byte list"
  assume "subscribe_wf out m" "drop 0 buf = mqtt_frame (subscribe_header m) (subscribe_body m) @ rest"
  then show "\<exists>r. MQTTDeserialize_subscribe out buf = Some (1, r) \<and> same_subscribe m r" by (rule deserialize_subscribe)
qed (simp_all add: subscribe_wf_def subscribe_header_bits)

text \<open>
  Property C29. A subscription round-trips: for filters that fit the arrays of the receiver and a
  buffer of the size \<open>MQTTPacket_len\<close> asks for, \<open>MQTTSerialize_subscribe\<close> writes a packet that
  \<open>MQTTDeserialize_subscribe\<close> reads back as the same identifier, dup flag, filters and QoS values, in order.
\<close>

theorem mqtt_subscribe_roundtrip:
  assumes "subscribe_wf out (dup, ident, fs)" "MQTTPacket_len (int (length (subscribe_body (dup, ident, fs)))) \<le> buflen"
    and "buflen \<le> int (length buf)"
  shows "\<exists>n buf' r. MQTTSerialize_subscribe buf buflen dup ident fs = Some (n, buf') \<and> 0 < n \<and> n \<le> buflen \<and>
    length buf' = length buf \<and> MQTTDeserialize_subscribe out buf' = Some (1, r) \<and> same_subscribe (dup, ident, fs) r"
  using sub.roundtrip [OF assms] by simp

theorem mqtt_subscribe_roundtrip_witness:
  "\<exists>n buf' r. MQTTSerialize_subscribe (replicate 16 0) 16 0 9 [(lenstring [0x61, 0x2f], 1), (lenstring [0x62], 0)] = Some (n, buf') \<and>
     MQTTDeserialize_subscribe \<lparr>sub_dup = 0, sub_packetid = 0, sub_count = 0, sub_topicFilters = replicate 2 (lenstring []),
       sub_requestedQoSs = [0, 0]\<rparr> buf' = Some (1, r) \<and> sub_count r = 2"
  using mqtt_subscribe_roundtrip [of "\<lparr>sub_dup = 0, sub_packetid = 0, sub_count = 0, sub_topicFilters = replicate 2 (lenstring []),
       sub_requestedQoSs = [0, 0]\<rparr>" 0 9 "[(lenstring [0x61, 0x2f], 1), (lenstring [0x62], 0)]" 16 "replicate 16 0"]
  by (auto simp: subscribe_wf_def ms_wf_def lenstring_def ms_bytes_def subscribe_body_def MQTTPacket_len_def same_subscribe_def)

section \<open>Connect\<close>








lemma length_names [simp]: "length MQTT_name = 4" "length MQIsdp_name = 6"
  by (simp_all add: MQTT_name_def MQIsdp_name_def)















section \<open>Where the contract breaks\<close>

text \<open>
  Property C30. A CONNACK that is too short is accepted: when its remaining length is 0 or 1, the code
  that \<open>MQTTDeserialize_connack\<close> returns is the count of its length bytes, 1, which is the code of
  success, and the session flag and the return code are left at whatever the caller's memory held.
\<close>

theorem mqtt_short_connack_accepted:
  assumes "h_type (header_bits c) = 2" "length body < 2"
  shows "MQTTDeserialize_connack out (mqtt_frame c body @ rest) = Some (1, out)"
proof -
  have n: "int (length body) < 2 ^ 28" using assms(2) by simp
  have b: "drop 0 (mqtt_frame c body @ rest) = mqtt_frame c body @ rest" by simp
  show ?thesis
    using assms frame_read [OF b n] by (simp add: MQTTDeserialize_connack_def length_encode)
qed

theorem mqtt_short_connack_accepted_witness:
  "MQTTDeserialize_connack (0, 0) [0x20, 0] = Some (1, 0, 0)"
proof -
  have "h_type (header_bits 0x20) = 2" by code_simp
  from mqtt_short_connack_accepted [OF this, of "[]" "(0, 0)" "[]"] show ?thesis by (simp add: mqtt_frame_def encode_small)
qed

text \<open>
  Property C31. \<open>MQTTDeserialize_suback\<close> writes past the caller's array: with room for \<open>maxcount\<close> values, a
  SUBACK with more than \<open>maxcount\<close> return codes makes it store one value behind the end, because the
  count is compared with \<open>>\<close> after the last free place is used.
\<close>

lemma suback_loop_overruns:
  "length xs = nat maxcount - count \<Longrightarrow> count \<le> nat maxcount \<Longrightarrow> 0 \<le> maxcount \<Longrightarrow> length granted = nat maxcount \<Longrightarrow>
   drop cur buf = xs @ x # ys \<Longrightarrow> cur + length xs < enddata \<Longrightarrow> suback_loop buf enddata maxcount cur count granted = None"
proof (induction xs arbitrary: cur count granted)
  case Nil
  then have "mqtt_readChar buf cur = Some (x, cur + 1)" by (simp add: readChar_drop)
  with Nil show ?case by (subst suback_loop.simps) simp
next
  case (Cons y xs)
  then have "mqtt_readChar buf cur = Some (y, cur + 1)" "drop (cur + 1) buf = xs @ x # ys"
    by (simp_all add: readChar_drop drop_Cons_iff)
  moreover have "count < nat maxcount" "\<not> maxcount < int count" "cur < enddata" using Cons.prems(1,3,6) by auto
  moreover have "suback_loop buf enddata maxcount (cur + 1) (Suc count) (granted[count := uint y]) = None"
    by (rule Cons.IH) (use Cons.prems calculation in auto)
  ultimately show ?case using Cons.prems(4) by (subst suback_loop.simps) simp
qed

theorem mqtt_suback_overruns:
  assumes "h_type (header_bits c) = 9" "length codes = Suc maxcount" "length granted = maxcount" "length codes < 1000"
  shows "MQTTDeserialize_suback (pid, n, granted) (int maxcount) (mqtt_frame c (int_wire (uint (ident :: u16)) @ codes) @ rest) = None"
proof -
  let ?body = "int_wire (uint ident) @ codes" let ?buf = "mqtt_frame c ?body @ rest"
  define L where "L = length ?body"
  define cur where "cur = Suc (length (MQTTPacket_encode (int L)))"
  have n: "int (length ?body) < 2 ^ 28" using assms(4) by simp
  have b: "drop 0 ?buf = mqtt_frame c ?body @ rest" by simp
  note fr = frame_read [OF b n, folded L_def, folded cur_def]
  have cur_L: "Suc (length (MQTTPacket_encode (int L))) = cur" "Suc (length (MQTTPacket_encode (int L)) + L) = cur + L"
    by (simp_all add: cur_def)
  obtain xs x where codes: "codes = xs @ [x]" "length xs = maxcount" using assms(2) by (cases codes rule: rev_cases) auto
  have d1: "drop cur ?buf = int_wire (uint ident) @ (xs @ x # rest)" using fr(3) codes(1) by simp
  have d2: "drop (cur + 2) ?buf = xs @ x # rest" using drop_append_next [OF d1] by simp
  have L: "int L \<ge> 2" "cur + 2 + length xs < cur + L" using codes by (simp_all add: L_def)
  have "suback_loop ?buf (cur + L) (int maxcount) (cur + 2) 0 granted = None"
    by (rule suback_loop_overruns [OF _ _ _ _ d2 L(2)]) (use codes assms(3) in simp_all)
  then show ?thesis
    using L(1) readInt_drop [OF d1 uint_u16_bounds] assms(1) unfolding MQTTDeserialize_suback_def
    by (simp add: fr Let_def cur_L)
qed

theorem mqtt_suback_overruns_witness:
  "MQTTDeserialize_suback (0, 0, [0]) 1 (mqtt_frame 0x90 (int_wire 7 @ [1, 1])) = None"
proof -
  have "h_type (header_bits 0x90) = 9" by code_simp
  from mqtt_suback_overruns [OF this, of "[1, 1]" 1 "[0]" 0 0 7 "[]"] show ?thesis by simp
qed

end
