(* ===== verification/Http_Client.thy ===== *)
theory Http_Client
  imports Stdio "HOL-Library.Monad_Syntax"
begin

unbundle bit_operations_syntax

text \<open>
  The HTTP client (components/http/src/http_client.c).  The handle and the response record are the C
  structures; the receive buffer is the list of its 1461 bytes and \<open>resp->recv_buf\<close> an offset into it.
  An access outside of a buffer or through a null pointer has no result (\<^const>\<open>None\<close>).  Sockets,
  name resolution and the TLS wrapper are parameters, the record \<open>transport\<close>; the response callback is
  a parameter too, a function on the caller's context.  Heap failures come from the \<open>env\<close> of
  \<^theory_text>\<open>Stdio\<close>.
\<close>

section \<open>Constants, state and transport\<close>

definition MAX_RECV_BUF_SIZE :: nat where "MAX_RECV_BUF_SIZE = 1460"
definition MAX_SEND_BUF_SIZE :: nat where "MAX_SEND_BUF_SIZE = 1460"
definition MAX_SEGMENT_SIZE :: nat where "MAX_SEGMENT_SIZE = 1460"
definition HTTP_CLIENT_HOST_NAME_LEN_MAX :: nat where "HTTP_CLIENT_HOST_NAME_LEN_MAX = 255"
definition HTTP_MAX_CHUNK_SIZE_ASCII_LEN :: nat where "HTTP_MAX_CHUNK_SIZE_ASCII_LEN = 8"
definition HTTP_MAX_REQ_HDRS :: nat where "HTTP_MAX_REQ_HDRS = 10"
definition HTTP_MAX_RESP_HDRS :: nat where "HTTP_MAX_RESP_HDRS = 32"

definition HTTP_CR_LF_STR :: string where "HTTP_CR_LF_STR = [CHR 0x0D, CHR 0x0A]"
definition HTTP_2_CR_LF_STR :: string where "HTTP_2_CR_LF_STR = [CHR 0x0D, CHR 0x0A, CHR 0x0D, CHR 0x0A]"
definition HTTP_VER_STR :: string where "HTTP_VER_STR = ''HTTP/1.1''"
definition HTTP_HDR_DELIM :: string where "HTTP_HDR_DELIM = '': ''"

definition HTTP_CLIENT_CONTINUE_POST :: int where "HTTP_CLIENT_CONTINUE_POST = 1"
definition HTTP_CLIENT_CLOSE_CONNECTION :: int where "HTTP_CLIENT_CLOSE_CONNECTION = 2"

datatype http_client_method = HTTP_GET | HTTP_HEAD | HTTP_POST | HTTP_PUT | HTTP_DELETE | HTTP_CONNECT

fun http_method_table :: "http_client_method \<Rightarrow> string" where
  "http_method_table HTTP_GET = ''GET''"
| "http_method_table HTTP_HEAD = ''HEAD''"
| "http_method_table HTTP_POST = ''POST''"
| "http_method_table HTTP_PUT = ''PUT''"
| "http_method_table HTTP_DELETE = ''DELETE''"
| "http_method_table HTTP_CONNECT = ''CONNECT''"

datatype http_client_state =
  HTTP_STATE_IDE | HTTP_STATE_REQ_SEND | HTTP_STATE_REQ_BODY_SEND | HTTP_STATE_RESP_SL_RECV | HTTP_STATE_RESP_HDR_RECV |
  HTTP_STATE_RESP_BODY_RECV | HTTP_STATE_RESP_CHUNK_HDR_RECV | HTTP_STATE_RESP_BODY_RECV_CHUNKED

definition HTTP_FLAG_KA :: u32 where "HTTP_FLAG_KA = 1"
definition HTTP_FLAG_SECURED :: u32 where "HTTP_FLAG_SECURED = 2"
definition HTTP_FLAG_HOST_HDR_PRESENT :: u32 where "HTTP_FLAG_HOST_HDR_PRESENT = 4"
definition HTTP_FLAG_CONTENT_LEN_HDR_PRESENT :: u32 where "HTTP_FLAG_CONTENT_LEN_HDR_PRESENT = 8"

record http_client_req =
  url :: string
  req_method :: http_client_method
  req_hdr_sent_cnt :: int
  body_buff :: string
  body_buff_len :: nat

text \<open>\<open>recv_ptr\<close> is \<open>resp->recv_buf - h->recv_buf\<close>; the unsigned counters wrap at 32 bits.\<close>

record http_client_resp =
  resp_time_out :: int
  recv_ptr :: nat
  recvd_len :: int
  bytes_available :: int
  total_len :: int
  body_received_len :: int
  chunk_len :: int
  chunked :: bool
  content_len_present :: bool
  hdr_cnt :: nat

text \<open>
  A request header is \<^const>\<open>None\<close> when its memory has been freed and the pointer kept: the table is
  its first \<open>req_hdr_index\<close> entries.  \<open>ssl_handle\<close> names the TLS session.
\<close>

record http_clent_handle =
  h_state :: http_client_state
  sock_fd :: int
  req_cnt :: int
  flags :: u32
  status_code :: int
  send_buf :: bool
  ssl_handle :: "nat option"
  req_hdrs :: "string option list"
  req_body_len :: int
  recv_buf :: "string option"
  resp_hdrs :: "string list"
  h_hostname :: string

record http_client_resp_info =
  info_status_code :: int
  info_resp_hdrs :: "string list"
  info_resp_total_len :: int
  info_resp_body :: string
  info_resp_len :: int
  info_more_data :: bool

definition u32_of :: "int \<Rightarrow> int" where
  "u32_of i = i mod 2 ^ 32"

definition HTTP_FLAG_IS_SET :: "http_clent_handle \<Rightarrow> u32 \<Rightarrow> bool" where
  "HTTP_FLAG_IS_SET h f \<longleftrightarrow> flags h AND f \<noteq> 0"

definition HTTP_FLAG_SET :: "http_clent_handle \<Rightarrow> u32 \<Rightarrow> http_clent_handle" where
  "HTTP_FLAG_SET h f = h\<lparr>flags := flags h OR f\<rparr>"

definition HTTP_FLAG_CLEAR :: "http_clent_handle \<Rightarrow> u32 \<Rightarrow> http_clent_handle" where
  "HTTP_FLAG_CLEAR h f = h\<lparr>flags := flags h AND NOT f\<rparr>"

datatype sockaddr = Resolved nat | Literal string int

record 'n transport =
  tr_getaddrinfo :: "string \<Rightarrow> string \<Rightarrow> 'n \<Rightarrow> int \<times> nat list \<times> 'n"
  tr_socket :: "'n \<Rightarrow> int \<times> 'n"
  tr_connect :: "int \<Rightarrow> sockaddr \<Rightarrow> 'n \<Rightarrow> int \<times> 'n"
  tr_close :: "int \<Rightarrow> 'n \<Rightarrow> 'n"
  tr_send :: "string \<Rightarrow> 'n \<Rightarrow> int \<times> 'n"
  tr_select :: "int \<Rightarrow> 'n \<Rightarrow> int \<times> 'n"
  tr_recv :: "nat \<Rightarrow> 'n \<Rightarrow> int \<times> string \<times> 'n"
  tr_ssl_connect :: "string \<Rightarrow> int \<Rightarrow> 'n \<Rightarrow> nat option \<times> 'n"
  tr_ssl_disconnect :: "nat option \<Rightarrow> 'n \<Rightarrow> 'n"
  tr_ssl_sock_fd :: "nat option \<Rightarrow> int"
  tr_ssl_write :: "string \<Rightarrow> 'n \<Rightarrow> int \<times> 'n"
  tr_ssl_read :: "nat \<Rightarrow> int \<Rightarrow> 'n \<Rightarrow> int \<times> string \<times> 'n"

section \<open>Connecting\<close>

fun valid_digit :: "string \<Rightarrow> bool" where
  "valid_digit [] = True"
| "valid_digit (c # cs) = (if isdigit c then valid_digit cs else False)"

text \<open>\<open>strtok\<close> with one delimiter: the token and the rest behind it.\<close>

definition strtok :: "char \<Rightarrow> string \<Rightarrow> (string \<times> string) option" where
  "strtok d s =
     (case dropWhile (\<lambda>c. c = d) s of
        [] \<Rightarrow> None
      | c # cs \<Rightarrow> Some (takeWhile (\<lambda>c. c \<noteq> d) (c # cs), drop 1 (dropWhile (\<lambda>c. c \<noteq> d) (c # cs))))"

lemma strtok_shorter: "strtok d s = Some (tok, rest) \<Longrightarrow> length rest < length s"
proof -
  assume s: "strtok d s = Some (tok, rest)"
  then obtain c cs where c: "dropWhile (\<lambda>c. c = d) s = c # cs" "rest = drop 1 (dropWhile (\<lambda>c. c \<noteq> d) (c # cs))"
    by (auto simp: strtok_def split: list.splits)
  have "c \<noteq> d" using hd_dropWhile [of "\<lambda>c. c = d" s] c(1) by simp
  then have "length rest \<le> length cs" using c(2) length_dropWhile_le [of "\<lambda>c. c \<noteq> d" cs] by simp
  moreover have "length (c # cs) \<le> length s" using length_dropWhile_le [of "\<lambda>c. c = d" s] c(1) by simp
  ultimately show ?thesis by simp
qed

function valid_ip_loop :: "(string \<times> string) option \<Rightarrow> nat \<Rightarrow> bool" where
  "valid_ip_loop None dots = (dots = 3)"
| "valid_ip_loop (Some (ptr, rest)) dots =
     (if \<not> valid_digit ptr then False
      else
        let num = atoi ptr in
        if num \<ge> 0 \<and> num \<le> 255 then
          let next = strtok (CHR ''.'') rest
          in valid_ip_loop next (if next \<noteq> None then dots + 1 else dots)
        else False)"
  by pat_completeness auto
termination
  by (relation "measure (\<lambda>(t, _). case t of None \<Rightarrow> 0 | Some (_, rest) \<Rightarrow> length rest + 1)")
    (auto split: option.splits dest: strtok_shorter)

definition is_valid_ip :: "string \<Rightarrow> bool" where
  "is_valid_ip ip_str_in =
     (if length ip_str_in > 15 then False
      else
        case strtok (CHR ''.'') ip_str_in of
          None \<Rightarrow> False
        | t \<Rightarrow> valid_ip_loop t 0)"

fun connect_any :: "'n transport \<Rightarrow> int \<Rightarrow> nat list \<Rightarrow> int \<Rightarrow> 'n \<Rightarrow> int \<times> 'n" where
  "connect_any tr fd [] status n = (status, n)"
| "connect_any tr fd (a # as) status n =
     (case tr_connect tr fd (Resolved a) n of
        (status, n) \<Rightarrow> if status = 0 then (status, n) else connect_any tr fd as status n)"

text \<open>The text of the port goes into eight bytes.\<close>

definition http_client_connect :: "'n transport \<Rightarrow> string \<Rightarrow> int \<Rightarrow> 'n \<Rightarrow> (int \<times> 'n) option" where
  "http_client_connect tr hostname port n =
     (if \<not> is_valid_ip hostname then
        if length (sprintf_d port) \<ge> 8 then None
        else
          case tr_getaddrinfo tr hostname (sprintf_d port) n of (status, list, n) \<Rightarrow>
            if status \<noteq> 0 then Some (- 1, n)
            else
              case tr_socket tr n of (fd, n) \<Rightarrow>
                if fd < 0 then Some (- 1, n)
                else
                  case connect_any tr fd list status n of (status, n) \<Rightarrow>
                    Some (if status < 0 then (- 1, tr_close tr fd n) else (fd, n))
      else
        case tr_socket tr n of (fd, n) \<Rightarrow>
          if fd = - 1 then Some (- 1, n)
          else
            case tr_connect tr fd (Literal hostname port) n of (status, n) \<Rightarrow>
              Some (if status < 0 then (- 1, tr_close tr fd n) else (fd, n)))"

section \<open>The request\<close>

text \<open>
  Appending to the send buffer: the text so far, whose terminator must fit too.  The result of
  \<open>http_client_req_create\<close> is its return code, the count of headers and the text of the buffer.
\<close>

definition sb_add :: "string \<Rightarrow> string \<Rightarrow> string option" where
  "sb_add s t = (if length s + length t < MAX_SEND_BUF_SIZE then Some (s @ t) else None)"

fun req_create_hdrs :: "string option list \<Rightarrow> nat \<Rightarrow> nat \<Rightarrow> string \<Rightarrow> (int \<times> int \<times> string) option" where
  "req_create_hdrs [] i max_len buf = do { buf \<leftarrow> sb_add buf HTTP_CR_LF_STR; Some (0, int i, buf) }"
| "req_create_hdrs (None # hds) i max_len buf = None"
| "req_create_hdrs (Some hdr # hds) i max_len buf =
     (if length buf + length hdr + length HTTP_2_CR_LF_STR \<ge> max_len then Some (1, int i, buf)
      else
        do { buf \<leftarrow> sb_add buf hdr;
             buf \<leftarrow> sb_add buf HTTP_CR_LF_STR;
             req_create_hdrs hds (i + 1) max_len buf })"

definition http_client_req_create ::
    "http_clent_handle \<Rightarrow> http_client_req \<Rightarrow> nat \<Rightarrow> (int \<times> http_client_req \<times> string) option" where
  "http_client_req_create h req max_len =
     do { (req, buf) \<leftarrow>
            (if req_hdr_sent_cnt req \<ge> 0 then Some (req, [])
             else
               do { let req = req\<lparr>req_hdr_sent_cnt := 0\<rparr>;
                    buf \<leftarrow> sb_add [] (http_method_table (req_method req) @ '' '');
                    buf \<leftarrow> sb_add buf (url req @ '' '');
                    buf \<leftarrow> sb_add buf (HTTP_VER_STR @ HTTP_CR_LF_STR);
                    Some (req, buf) });
          let i = nat (req_hdr_sent_cnt req);
          (ret, cnt, buf) \<leftarrow> req_create_hdrs (drop i (req_hdrs h)) i max_len buf;
          Some (ret, if ret = 1 then req\<lparr>req_hdr_sent_cnt := cnt\<rparr> else req, buf) }"

definition http_client_socket_send :: "'n transport \<Rightarrow> http_clent_handle \<Rightarrow> string \<Rightarrow> 'n \<Rightarrow> int \<times> 'n" where
  "http_client_socket_send tr h buff n =
     (if HTTP_FLAG_IS_SET h HTTP_FLAG_SECURED then tr_ssl_write tr buff n else tr_send tr buff n)"

text \<open>
  A loop that may not end runs on fuel.  The return values of the sends are kept in a \<open>size_t\<close>, so that
  no error is seen.
\<close>

datatype 'a outcome = Returned 'a | Fault | Out_of_fuel

fun req_send_hdrs ::
    "nat \<Rightarrow> 'n transport \<Rightarrow> http_clent_handle \<Rightarrow> http_client_req \<Rightarrow> 'n \<Rightarrow> (http_client_req \<times> 'n) outcome" where
  "req_send_hdrs 0 tr h req n = Out_of_fuel"
| "req_send_hdrs (Suc k) tr h req n =
     (case http_client_req_create h req MAX_SEND_BUF_SIZE of
        None \<Rightarrow> Fault
      | Some (ret, req, buf) \<Rightarrow>
          (case http_client_socket_send tr h buf n of (rval, n) \<Rightarrow>
             if ret = 1 then req_send_hdrs k tr h req n else Returned (req, n)))"

function req_send_body :: "'n transport \<Rightarrow> http_clent_handle \<Rightarrow> http_client_req \<Rightarrow> nat \<Rightarrow> 'n \<Rightarrow> 'n option" where
  "req_send_body tr h req sent_len n =
     (if sent_len < body_buff_len req then
        (let req_len = (if body_buff_len req > MAX_SEGMENT_SIZE then MAX_SEGMENT_SIZE else body_buff_len req)
         in if sent_len + req_len \<le> length (body_buff req)
            then
              (case http_client_socket_send tr h (take req_len (drop sent_len (body_buff req))) n of (rval, n) \<Rightarrow>
                 req_send_body tr h req (sent_len + req_len) n)
            else None)
      else Some n)"
  by auto
termination
  by (relation "measure (\<lambda>(tr, h, req, sent_len, n). body_buff_len req - sent_len)") (auto simp: MAX_SEGMENT_SIZE_def)

declare req_send_body.simps [simp del]

definition http_client_req_send ::
    "nat \<Rightarrow> 'n transport \<Rightarrow> http_clent_handle \<Rightarrow> http_client_req \<Rightarrow> 'n \<Rightarrow> (int \<times> http_clent_handle \<times> 'n) outcome" where
  "http_client_req_send k tr h req n =
     (case (if h_state h = HTTP_STATE_REQ_SEND
            then
              (case req_send_hdrs k tr h (req\<lparr>req_hdr_sent_cnt := - 1\<rparr>) n of
                 Returned (req, n) \<Rightarrow> Returned (h\<lparr>h_state := HTTP_STATE_REQ_BODY_SEND\<rparr>, n)
               | Fault \<Rightarrow> Fault
               | Out_of_fuel \<Rightarrow> Out_of_fuel)
            else Returned (h, n)) of
        Returned (h, n) \<Rightarrow>
          if h_state h = HTTP_STATE_REQ_BODY_SEND \<and> req_body_len h \<noteq> 0
          then
            (case req_send_body tr h req 0 n of
               None \<Rightarrow> Fault
             | Some n \<Rightarrow> Returned (0, h\<lparr>req_body_len := req_body_len h - int (body_buff_len req)\<rparr>, n))
          else Returned (0, h, n)
      | Fault \<Rightarrow> Fault
      | Out_of_fuel \<Rightarrow> Out_of_fuel)"

section \<open>The response\<close>

text \<open>Strings in the receive buffer: the string at an offset, a store, \<open>strtok_r\<close> and \<open>strcmp\<close>.\<close>

definition str_at :: "string \<Rightarrow> nat \<Rightarrow> string option" where
  "str_at buf p = (if NUL \<in> set (drop p buf) then Some (cstr (drop p buf)) else None)"

definition poke :: "string \<Rightarrow> nat \<Rightarrow> char \<Rightarrow> string option" where
  "poke buf i c = (if i < length buf then Some (buf[i := c]) else None)"

definition strtok_r :: "char \<Rightarrow> string \<Rightarrow> nat \<Rightarrow> (string option \<times> string \<times> nat) option" where
  "strtok_r d buf p =
     do { s \<leftarrow> str_at buf p;
          let lead = length (takeWhile (\<lambda>c. c = d) s);
          let t = takeWhile (\<lambda>c. c \<noteq> d) (drop lead s);
          let e = p + lead + length t;
          if t = [] then Some (None, buf, e)
          else if e < p + length s then Some (Some t, buf[e := NUL], e + 1)
          else Some (Some t, buf, e) }"

fun strcmp :: "string \<Rightarrow> string \<Rightarrow> int" where
  "strcmp [] [] = 0"
| "strcmp [] (d # ds) = - int (code d)"
| "strcmp (c # cs) [] = int (code c)"
| "strcmp (c # cs) (d # ds) = (if c = d then strcmp cs ds else int (code c) - int (code d))"

definition s16 :: "int \<Rightarrow> int" where
  "s16 i = sint (word_of_int i :: 16 word)"

definition advance :: "nat \<Rightarrow> http_client_resp \<Rightarrow> http_client_resp" where
  "advance k resp = resp\<lparr>recv_ptr := recv_ptr resp + k, bytes_available := u32_of (bytes_available resp - int k)\<rparr>"

definition http_client_status_line_parse ::
    "http_clent_handle \<Rightarrow> http_client_resp \<Rightarrow> (int \<times> http_clent_handle \<times> http_client_resp) option" where
  "http_client_status_line_parse h resp =
     do { buf \<leftarrow> recv_buf h;
          s \<leftarrow> str_at buf (recv_ptr resp);
          case strstr s HTTP_CR_LF_STR of
            None \<Rightarrow> Some (1, h, resp)
          | Some status_line_len \<Rightarrow>
              do { (tok, buf, rest) \<leftarrow> strtok_r (CHR '' '') buf (recv_ptr resp);
                   token \<leftarrow> tok;
                   let rval = strcmp token HTTP_VER_STR;
                   if rval \<noteq> 0 then Some (rval, h\<lparr>recv_buf := Some buf\<rparr>, resp)
                   else
                     do { (tok, buf, rest) \<leftarrow> strtok_r (CHR '' '') buf rest;
                          token \<leftarrow> tok;
                          Some (0, h\<lparr>status_code := s16 (atoi token), recv_buf := Some buf\<rparr>,
                            advance (status_line_len + length HTTP_CR_LF_STR) resp) } } }"

definition is_this_header :: "string \<Rightarrow> nat \<Rightarrow> string \<Rightarrow> string option \<Rightarrow> bool option" where
  "is_this_header buf header this_name this_val =
     (if header + length this_name > length buf then None
      else if \<not> strcasecmp_eq (cstr (take (length this_name) (drop header buf))) this_name then Some False
      else
        case this_val of
          None \<Rightarrow> Some True
        | Some v \<Rightarrow>
            do { s \<leftarrow> str_at buf header;
                 i \<leftarrow> strstr s '' '';
                 Some (strcasecmp_eq (dropWhile (\<lambda>c. c = CHR '' '') (drop i s)) v) })"

definition is_content_len_hdr :: "string \<Rightarrow> nat \<Rightarrow> bool option" where
  "is_content_len_hdr buf header = is_this_header buf header ''Content-Length'' None"

definition is_transfer_enco_chunk_hdr :: "string \<Rightarrow> nat \<Rightarrow> bool option" where
  "is_transfer_enco_chunk_hdr buf header = is_this_header buf header ''Transfer-Encoding'' (Some ''chunked'')"

definition is_connection_keep_alive_hdr :: "string \<Rightarrow> nat \<Rightarrow> bool option" where
  "is_connection_keep_alive_hdr buf header = is_this_header buf header ''Connection'' (Some ''keep-alive'')"

text \<open>One header: it is stored, and its effect on the handle and the response.\<close>

definition hdr_parse ::
    "env \<Rightarrow> http_clent_handle \<Rightarrow> http_client_resp \<Rightarrow> string \<Rightarrow> nat \<Rightarrow> (http_clent_handle \<times> http_client_resp) option" where
  "hdr_parse e h resp buf token =
     do { hdr \<leftarrow> str_at buf token;
          (h, resp) \<leftarrow>
            (if hdr_cnt resp < HTTP_MAX_RESP_HDRS then
               if os_alloc e (length hdr + 1)
               then Some (h\<lparr>resp_hdrs := resp_hdrs h @ [hdr]\<rparr>, resp\<lparr>hdr_cnt := hdr_cnt resp + 1\<rparr>)
               else None
             else Some (h, resp));
          cl \<leftarrow> is_content_len_hdr buf token;
          if cl then
            do { v \<leftarrow> str_at buf (token + length ''Content-Length:'');
                 Some (h, resp\<lparr>total_len := u32_of (atoi v), content_len_present := True\<rparr>) }
          else
            do { te \<leftarrow> is_transfer_enco_chunk_hdr buf token;
                 if te then Some (h, resp\<lparr>chunked := True\<rparr>)
                 else
                   do { ka \<leftarrow> is_connection_keep_alive_hdr buf token;
                        Some (if ka then HTTP_FLAG_SET h HTTP_FLAG_KA else h, resp) } } }"

function hdrs_loop ::
    "env \<Rightarrow> http_clent_handle \<Rightarrow> http_client_resp \<Rightarrow> string \<Rightarrow> nat \<Rightarrow> nat \<Rightarrow>
     (http_clent_handle \<times> http_client_resp \<times> string \<times> nat) option" where
  "hdrs_loop e h resp buf token bytes_parsed =
     (case str_at buf token of
        None \<Rightarrow> None
      | Some s \<Rightarrow>
          (case strstr s HTTP_CR_LF_STR of
             None \<Rightarrow> Some (h, resp, buf, bytes_parsed)
           | Some i \<Rightarrow>
               if int bytes_parsed < bytes_available resp then
                 do { let buf' = buf[token + i := NUL];
                      (h, resp) \<leftarrow> hdr_parse e h resp buf' token;
                      hdrs_loop e h resp buf' (token + i + 2) (bytes_parsed + i + 2) }
               else Some (h, resp, buf, bytes_parsed)))"
  by pat_completeness auto
termination
proof (relation "measure (\<lambda>(_, _, _, buf, token, _). length buf - token)")
  fix e h resp buf token bytes_parsed s i buf' x h' resp'
  assume "str_at buf token = Some s" "strstr s HTTP_CR_LF_STR = Some i" and b: "buf' = buf[token + i := NUL]"
  then have "i + 2 \<le> length s" "length s \<le> length buf - token" "token < length buf"
    using strstr_Some_take [of s HTTP_CR_LF_STR i] length_takeWhile_le [of "\<lambda>c. c \<noteq> NUL" "drop token buf"]
    by (auto simp: str_at_def HTTP_CR_LF_STR_def cstr_def not_le split: if_splits intro: ccontr)
  then show "((e, h', resp', buf', token + i + 2, bytes_parsed + i + 2), e, h, resp, buf, token, bytes_parsed)
      \<in> measure (\<lambda>(_, _, _, buf, token, _). length buf - token)" by (simp add: b)
qed simp

declare hdrs_loop.simps [simp del]

definition http_client_hdrs_parse ::
    "env \<Rightarrow> http_clent_handle \<Rightarrow> http_client_resp \<Rightarrow> (int \<times> http_clent_handle \<times> http_client_resp) option" where
  "http_client_hdrs_parse e h resp =
     do { buf \<leftarrow> recv_buf h;
          let p = recv_ptr resp;
          if p \<ge> length buf \<or> buf ! p = CHR 0x0D \<and> p + 1 \<ge> length buf then None
          else if buf ! p = CHR 0x0D \<and> buf ! (p + 1) = CHR 0x0A
          then Some (0, h, advance (length HTTP_CR_LF_STR) resp)
          else
            do { s \<leftarrow> str_at buf p;
                 let end = strstr s HTTP_2_CR_LF_STR;
                 let buf = (case end of None \<Rightarrow> buf | Some i \<Rightarrow> buf[p + i + 2 := NUL]);
                 (h, resp, buf, bytes_parsed) \<leftarrow> hdrs_loop e h resp buf p 0;
                 let bytes_parsed = (if end \<noteq> None then bytes_parsed + length HTTP_CR_LF_STR else bytes_parsed);
                 Some (if end = None then 1 else 0, h\<lparr>recv_buf := Some buf\<rparr>, advance bytes_parsed resp) } }"

fun chunk_digits :: "int \<Rightarrow> string \<Rightarrow> int" where
  "chunk_digits chunk_size [] = chunk_size"
| "chunk_digits chunk_size (ch # chs) =
     (let chunk_size = s32 (chunk_size * 16); c = int (code ch)
      in if 48 \<le> c \<and> c \<le> 57 then chunk_digits (s32 (chunk_size + (c - 48))) chs
         else if 97 \<le> c \<and> c \<le> 102 then chunk_digits (s32 (chunk_size + ((c - 97) + 10))) chs
         else if 65 \<le> c \<and> c \<le> 70 then chunk_digits (s32 (chunk_size + ((chunk_size - 65) + 10))) chs
         else - 1)"

definition http_client_chunk_len_get ::
    "http_clent_handle \<Rightarrow> http_client_resp \<Rightarrow> (int \<times> http_clent_handle \<times> http_client_resp) option" where
  "http_client_chunk_len_get h resp =
     do { buf \<leftarrow> recv_buf h;
          let p = recv_ptr resp;
          s \<leftarrow> str_at buf p;
          case strstr s HTTP_CR_LF_STR of
            None \<Rightarrow> Some (1, h, resp)
          | Some i \<Rightarrow>
              let buf = buf[p + i := NUL];
                  line = take i s;
                  size = takeWhile (\<lambda>c. c \<noteq> CHR '';'') line;
                  buf = (if length size < length line then buf[p + length size := NUL] else buf);
                  h = h\<lparr>recv_buf := Some buf\<rparr>
              in if length size > HTTP_MAX_CHUNK_SIZE_ASCII_LEN then Some (- 1, h, resp)
                 else
                   let chunk_size = chunk_digits 0 size;
                       resp = (if chunk_size \<ge> 0 then resp\<lparr>chunk_len := chunk_size\<rparr> else resp)
                   in Some (0, h, advance (i + 2) resp) }"

section \<open>Receiving\<close>

text \<open>
  The bytes go behind the unconsumed ones, which are moved to the front.  The terminator is stored at
  \<open>bytes_available + recv_len\<close>, where \<open>recv_len\<close> already counts \<open>bytes_available\<close>.
\<close>

definition http_client_socket_recv ::
    "'n transport \<Rightarrow> http_clent_handle \<Rightarrow> http_client_resp \<Rightarrow> 'n \<Rightarrow> (int \<times> http_clent_handle \<times> 'n) option" where
  "http_client_socket_recv tr h resp n =
     do { buf \<leftarrow> recv_buf h;
          let avail = nat (bytes_available resp);
          if recv_ptr resp + avail > length buf \<or> avail > MAX_RECV_BUF_SIZE then None
          else
            do { let buf = take avail (drop (recv_ptr resp) buf) @ drop avail buf;
                 let len = nat (int MAX_RECV_BUF_SIZE - bytes_available resp);
                 let (timed_out, rc, bs, n) =
                   (if HTTP_FLAG_IS_SET h HTTP_FLAG_SECURED
                    then (case tr_ssl_read tr len (resp_time_out resp * 1000) n of (rc, bs, n) \<Rightarrow> (False, rc, bs, n))
                    else
                      case tr_select tr (resp_time_out resp) n of (readfds, n) \<Rightarrow>
                        if readfds \<le> 0 then (True, - 1, [], n)
                        else (case tr_recv tr len n of (rc, bs, n) \<Rightarrow> (False, rc, bs, n)));
                 if timed_out then Some (- 1, h\<lparr>recv_buf := Some buf\<rparr>, n)
                 else if avail + length bs > length buf then None
                 else
                   do { let buf = take avail buf @ bs @ drop (avail + length bs) buf;
                        let recv_len = rc + bytes_available resp;
                        buf \<leftarrow> (if recv_len \<ge> 0 then poke buf (nat (bytes_available resp + recv_len)) NUL else Some buf);
                        Some (recv_len, h\<lparr>recv_buf := Some buf\<rparr>, n) } } }"

definition resp_info_set :: "http_clent_handle \<Rightarrow> http_client_resp \<Rightarrow> bool \<Rightarrow> http_client_resp_info" where
  "resp_info_set h resp more_data =
     \<lparr>info_status_code = status_code h, info_resp_hdrs = resp_hdrs h,
      info_resp_total_len = (if content_len_present resp then total_len resp else 0),
      info_resp_body = drop (recv_ptr resp) (case recv_buf h of None \<Rightarrow> [] | Some buf \<Rightarrow> buf),
      info_resp_len = (if chunked resp then min (chunk_len resp) (bytes_available resp) else bytes_available resp),
      info_more_data = more_data\<rparr>"

text \<open>
  One turn of the loop behind the receive: it goes on, leaves the loop, or returns from the function.
  \<open>'c\<close> is the context of the callback.
\<close>

datatype 'c turn =
  Again http_clent_handle http_client_resp 'c | Leave http_clent_handle http_client_resp 'c | Quit int http_clent_handle 'c

definition body_turn ::
    "('c \<Rightarrow> http_client_resp_info \<Rightarrow> 'c) \<Rightarrow> http_clent_handle \<Rightarrow> http_client_resp \<Rightarrow> 'c \<Rightarrow> 'c turn" where
  "body_turn cb h resp c =
     (if h_state h = HTTP_STATE_RESP_BODY_RECV then
        (let resp = resp\<lparr>body_received_len := u32_of (body_received_len resp + bytes_available resp)\<rparr>;
             more_data = (body_received_len resp < total_len resp);
             c = cb c (resp_info_set h resp more_data);
             resp = resp\<lparr>recv_ptr := recv_ptr resp + nat (bytes_available resp), bytes_available := 0\<rparr>
         in if total_len resp \<noteq> 0 \<and> body_received_len resp \<ge> total_len resp then Leave h resp c
            else Again h resp c)
      else if h_state h = HTTP_STATE_RESP_BODY_RECV_CHUNKED then
        (let c = cb c (resp_info_set h resp True);
             bytes_consumed = min (chunk_len resp) (bytes_available resp);
             resp = resp\<lparr>chunk_len := u32_of (chunk_len resp - bytes_consumed), recv_ptr := recv_ptr resp + nat bytes_consumed,
                         bytes_available := u32_of (bytes_available resp - bytes_consumed)\<rparr>;
             h = (if chunk_len resp = 0 then h\<lparr>h_state := HTTP_STATE_RESP_CHUNK_HDR_RECV\<rparr> else h)
         in Again h resp c)
      else Again h resp c)"

definition chunk_turn ::
    "('c \<Rightarrow> http_client_resp_info \<Rightarrow> 'c) \<Rightarrow> http_clent_handle \<Rightarrow> http_client_resp \<Rightarrow> 'c \<Rightarrow> 'c turn option" where
  "chunk_turn cb h resp c =
     (if h_state h = HTTP_STATE_RESP_CHUNK_HDR_RECV then
        do { (rval, h, resp) \<leftarrow> http_client_chunk_len_get h resp;
             Some (if rval < 0 then Quit rval h c
                   else if rval > 0 then Again h resp c
                   else if chunk_len resp = 0 then Leave h resp (cb c (resp_info_set h resp False))
                   else body_turn cb (h\<lparr>h_state := HTTP_STATE_RESP_BODY_RECV_CHUNKED\<rparr>) resp c) }
      else Some (body_turn cb h resp c))"

definition hdr_turn ::
    "env \<Rightarrow> ('c \<Rightarrow> http_client_resp_info \<Rightarrow> 'c) \<Rightarrow> http_clent_handle \<Rightarrow> http_client_resp \<Rightarrow> 'c \<Rightarrow> 'c turn option" where
  "hdr_turn e cb h resp c =
     (if h_state h = HTTP_STATE_RESP_HDR_RECV then
        do { (rval, h, resp) \<leftarrow> http_client_hdrs_parse e h resp;
             if rval < 0 then Some (Quit rval h c)
             else if rval > 0 then Some (Again h resp c)
             else if status_code h > 100 \<and> status_code h < 200 \<or> status_code h = 204 \<or> status_code h = 304
             then Some (Leave h resp (cb c (resp_info_set h resp False)))
             else chunk_turn cb
               (h\<lparr>h_state := (if chunked resp then HTTP_STATE_RESP_CHUNK_HDR_RECV else HTTP_STATE_RESP_BODY_RECV)\<rparr>) resp c }
      else chunk_turn cb h resp c)"

definition resp_turn ::
    "env \<Rightarrow> ('c \<Rightarrow> http_client_resp_info \<Rightarrow> 'c) \<Rightarrow> http_clent_handle \<Rightarrow> http_client_resp \<Rightarrow> 'c \<Rightarrow> 'c turn option" where
  "resp_turn e cb h resp c =
     (if h_state h = HTTP_STATE_RESP_SL_RECV then
        do { (rval, h, resp) \<leftarrow> http_client_status_line_parse h resp;
             if rval > 0 then Some (Again h resp c)
             else hdr_turn e cb (h\<lparr>h_state := HTTP_STATE_RESP_HDR_RECV\<rparr>) resp c }
      else hdr_turn e cb h resp c)"

fun http_client_resp_recv ::
    "nat \<Rightarrow> env \<Rightarrow> 'n transport \<Rightarrow> ('c \<Rightarrow> http_client_resp_info \<Rightarrow> 'c) \<Rightarrow> http_clent_handle \<Rightarrow> http_client_resp \<Rightarrow> 'c \<Rightarrow> 'n \<Rightarrow>
     (int \<times> http_clent_handle \<times> 'c \<times> 'n) outcome" where
  "http_client_resp_recv 0 e tr cb h resp c n = Out_of_fuel"
| "http_client_resp_recv (Suc k) e tr cb h resp c n =
     (case http_client_socket_recv tr h resp n of
        None \<Rightarrow> Fault
      | Some (bytes_rcvd, h, n) \<Rightarrow>
          if bytes_rcvd < 0 then Returned (- 1, h, c, n)
          else
            case resp_turn e cb h (resp\<lparr>recv_ptr := 0, recvd_len := bytes_rcvd, bytes_available := u32_of bytes_rcvd\<rparr>) c of
              None \<Rightarrow> Fault
            | Some (Quit rval h c) \<Rightarrow> Returned (rval, h, c, n)
            | Some (Leave h resp c) \<Rightarrow> Returned (0, h, c, n)
            | Some (Again h resp c) \<Rightarrow>
                if bytes_rcvd > 0 then http_client_resp_recv k e tr cb h resp c n else Returned (0, h, c, n))"

definition resp_init :: "int \<Rightarrow> http_client_resp" where
  "resp_init time_out = \<lparr>resp_time_out = time_out, recv_ptr = 0, recvd_len = 0, bytes_available = 0, total_len = 0,
     body_received_len = 0, chunk_len = 0, chunked = False, content_len_present = False, hdr_cnt = 0\<rparr>"

text \<open>The memory of a new receive buffer is \<open>fresh\<close>.\<close>

definition http_client_send_recv ::
    "nat \<Rightarrow> env \<Rightarrow> string \<Rightarrow> 'n transport \<Rightarrow> ('c \<Rightarrow> http_client_resp_info \<Rightarrow> 'c) \<Rightarrow> http_clent_handle \<Rightarrow> http_client_req \<Rightarrow>
     int \<Rightarrow> 'c \<Rightarrow> 'n \<Rightarrow> (int \<times> http_clent_handle \<times> 'c \<times> 'n) outcome" where
  "http_client_send_recv k e fresh tr cb h req time_out c n =
     (if \<not> send_buf h \<and> \<not> os_alloc e MAX_SEND_BUF_SIZE then Returned (- 1, h, c, n)
      else
        case http_client_req_send k tr (h\<lparr>send_buf := True\<rparr>) req n of
          Fault \<Rightarrow> Fault
        | Out_of_fuel \<Rightarrow> Out_of_fuel
        | Returned (rval, h, n) \<Rightarrow>
            if rval < 0 then Returned (rval, h, c, n)
            else if req_body_len h \<noteq> 0 then Returned (HTTP_CLIENT_CONTINUE_POST, h, c, n)
            else
              let h = h\<lparr>req_cnt := req_cnt h + 1, h_state := HTTP_STATE_RESP_SL_RECV\<rparr> in
              if recv_buf h = None \<and> \<not> os_alloc e (MAX_RECV_BUF_SIZE + 1) then Returned (- 1, h, c, n)
              else
                let h = (if recv_buf h = None then h\<lparr>recv_buf := Some fresh\<rparr> else h) in
                case http_client_resp_recv k e tr cb h (resp_init time_out) c n of
                  Fault \<Rightarrow> Fault
                | Out_of_fuel \<Rightarrow> Out_of_fuel
                | Returned (rval, h, c, n) \<Rightarrow>
                    let h = h\<lparr>resp_hdrs := []\<rparr>;
                        rval = (if rval \<ge> 0 \<and> \<not> HTTP_FLAG_IS_SET h HTTP_FLAG_KA then HTTP_CLIENT_CLOSE_CONNECTION else rval)
                    in Returned (rval, h\<lparr>h_state := HTTP_STATE_IDE\<rparr>, c, n))"

section \<open>The interface\<close>

definition http_handle_default_init :: http_clent_handle where
  "http_handle_default_init = \<lparr>h_state = HTTP_STATE_IDE, sock_fd = - 1, req_cnt = 0, flags = 0, status_code = 0,
     send_buf = False, ssl_handle = None, req_hdrs = [], req_body_len = 0, recv_buf = None, resp_hdrs = [],
     h_hostname = []\<rparr>"

text \<open>
  The search for a header line that begins with the name: the index found, or the length of the table.
  The header found is freed before the new line is allocated.
\<close>

fun hdr_search :: "string option list \<Rightarrow> string \<Rightarrow> nat \<Rightarrow> nat option" where
  "hdr_search [] hdr_name index = Some index"
| "hdr_search (None # hdrs) hdr_name index = None"
| "hdr_search (Some line # hdrs) hdr_name index =
     (if strncasecmp_eq line hdr_name then Some index else hdr_search hdrs hdr_name (index + 1))"

definition set_req_hdr :: "env \<Rightarrow> http_clent_handle \<Rightarrow> string \<Rightarrow> string \<Rightarrow> (int \<times> http_clent_handle) option" where
  "set_req_hdr e h hdr_name hdr_val =
     (if length (req_hdrs h) \<ge> HTTP_MAX_REQ_HDRS then Some (- 1, h)
      else
        do { index \<leftarrow> hdr_search (req_hdrs h) hdr_name 0;
             let line = hdr_name @ HTTP_HDR_DELIM @ hdr_val;
             if \<not> os_alloc e (length line + 4) then Some (- 1, h\<lparr>req_hdrs := (req_hdrs h)[index := None]\<rparr>)
             else
               let h = h\<lparr>req_hdrs := (if index < length (req_hdrs h) then (req_hdrs h)[index := Some line]
                                       else req_hdrs h @ [Some line])\<rparr>;
                   h = (if strcasecmp_eq hdr_name ''Host'' then HTTP_FLAG_SET h HTTP_FLAG_HOST_HDR_PRESENT else h);
                   h = (if strcasecmp_eq hdr_name ''Content-Length''
                        then (HTTP_FLAG_SET h HTTP_FLAG_CONTENT_LEN_HDR_PRESENT)\<lparr>req_body_len := atoi hdr_val\<rparr> else h)
               in Some (0, h) })"

definition http_client_set_req_hdr ::
    "env \<Rightarrow> http_clent_handle option \<Rightarrow> string option \<Rightarrow> string option \<Rightarrow> (int \<times> http_clent_handle option) option" where
  "http_client_set_req_hdr e handle hdr_name hdr_val =
     (case (handle, hdr_name, hdr_val) of
        (Some h, Some name, Some val) \<Rightarrow> map_option (\<lambda>(rval, h). (rval, Some h)) (set_req_hdr e h name val)
      | _ \<Rightarrow> Some (- 1, handle))"

definition http_client_del_req_hdrs_all :: "http_clent_handle option \<Rightarrow> http_clent_handle option option" where
  "http_client_del_req_hdrs_all handle =
     (case handle of
        None \<Rightarrow> Some None
      | Some h \<Rightarrow>
          if None \<in> set (req_hdrs h) then None
          else Some (Some (HTTP_FLAG_CLEAR (h\<lparr>req_hdrs := []\<rparr>) HTTP_FLAG_HOST_HDR_PRESENT)))"

text \<open>
  The code and, where the caller's buffers are filled, the host, the path and the port; the buffers
  have the given sizes.
\<close>

definition http_client_url_to_host :: "string option \<Rightarrow> nat \<Rightarrow> nat \<Rightarrow> int \<times> (string \<times> string \<times> int) option" where
  "http_client_url_to_host urlp host_max_len path_max_len =
     (case urlp of
        None \<Rightarrow> (0, None)
      | Some uri \<Rightarrow>
          let https = strncmp_eq uri ''https'' \<or> strncmp_eq uri ''wss'';
              http = strncmp_eq uri ''http'' \<or> strncmp_eq uri ''ws''
          in if \<not> https \<and> \<not> http then (- 1, None)
             else
               case strstr uri ''//'' of
                 None \<Rightarrow> (- 1, None)
               | Some i \<Rightarrow>
                   let p = drop (i + 2) uri;
                       path = (case strstr p ''/'' of Some j \<Rightarrow> drop j p | None \<Rightarrow> ''/'');
                       len = (case strstr p ''/'' of Some j \<Rightarrow> j | None \<Rightarrow> length p)
                   in if length path \<ge> path_max_len then (- 1, None)
                      else if len \<ge> host_max_len then (- 1, None)
                      else
                        let host = take len p;
                            default_port = (if https then 443 else 80)
                        in case strstr host '':'' of
                             None \<Rightarrow> (0, Some (host, path, default_port))
                           | Some j \<Rightarrow> (0, Some (take j host, path, atoi (drop (j + 1) host))))"

record http_client_config =
  cfg_hostname :: "string option"
  cfg_port :: int
  cfg_secured :: bool

text \<open>
  The name is measured before the configuration and the name are compared with \<open>NULL\<close>.  The handle has
  232 bytes where \<open>int\<close> and pointers have four.
\<close>

definition http_client_open ::
    "env \<Rightarrow> 'n transport \<Rightarrow> http_client_config option \<Rightarrow> 'n \<Rightarrow> (http_clent_handle option \<times> 'n) option" where
  "http_client_open e tr cfgp n =
     do { cfg \<leftarrow> cfgp;
          name \<leftarrow> cfg_hostname cfg;
          if name = [] \<or> length name \<ge> HTTP_CLIENT_HOST_NAME_LEN_MAX then Some (None, n)
          else if \<not> os_alloc e 232 then Some (None, n)
          else
            do { let h = http_handle_default_init;
                 let h = (if cfg_secured cfg then HTTP_FLAG_SET h HTTP_FLAG_SECURED else h);
                 (ok, h, n) \<leftarrow>
                   (if HTTP_FLAG_IS_SET h HTTP_FLAG_SECURED
                    then (case tr_ssl_connect tr name (cfg_port cfg) n of (ssl, n) \<Rightarrow>
                            Some (ssl \<noteq> None, h\<lparr>ssl_handle := ssl\<rparr>, n))
                    else do { (fd, n) \<leftarrow> http_client_connect tr name (cfg_port cfg) n; Some (fd \<ge> 0, h\<lparr>sock_fd := fd\<rparr>, n) });
                 if \<not> ok then Some (None, n)
                 else if \<not> os_alloc e (length name + 1) then Some (None, n)
                 else Some (Some (h\<lparr>h_hostname := name, h_state := HTTP_STATE_IDE\<rparr>), n) } }"

text \<open>What \<open>http_client_get\<close> and \<open>http_client_post\<close> share behind their checks.\<close>

definition http_client_request ::
    "nat \<Rightarrow> env \<Rightarrow> string \<Rightarrow> 'n transport \<Rightarrow> ('c \<Rightarrow> http_client_resp_info \<Rightarrow> 'c) \<Rightarrow> http_clent_handle \<Rightarrow> http_client_req \<Rightarrow>
     int \<Rightarrow> 'c \<Rightarrow> 'n \<Rightarrow> (int \<times> http_clent_handle \<times> 'c \<times> 'n) outcome" where
  "http_client_request k e fresh tr cb h req time_out c n =
     (let h = (if h_state h = HTTP_STATE_IDE then h\<lparr>h_state := HTTP_STATE_REQ_SEND\<rparr> else h)
      in case (if \<not> HTTP_FLAG_IS_SET h HTTP_FLAG_HOST_HDR_PRESENT then set_req_hdr e h ''Host'' (h_hostname h)
               else Some (0, h)) of
           None \<Rightarrow> Fault
         | Some (_, h) \<Rightarrow> http_client_send_recv k e fresh tr cb h req time_out c n)"

definition with_handle :: "(int \<times> http_clent_handle \<times> 'c \<times> 'n) outcome \<Rightarrow> (int \<times> http_clent_handle option \<times> 'c \<times> 'n) outcome" where
  "with_handle r =
     (case r of Returned (rval, h, c, n) \<Rightarrow> Returned (rval, Some h, c, n) | Fault \<Rightarrow> Fault | Out_of_fuel \<Rightarrow> Out_of_fuel)"

definition http_client_get ::
    "nat \<Rightarrow> env \<Rightarrow> string \<Rightarrow> 'n transport \<Rightarrow> ('c \<Rightarrow> http_client_resp_info \<Rightarrow> 'c) \<Rightarrow> http_clent_handle option \<Rightarrow> string option \<Rightarrow>
     int \<Rightarrow> 'c \<Rightarrow> 'n \<Rightarrow> (int \<times> http_clent_handle option \<times> 'c \<times> 'n) outcome" where
  "http_client_get k e fresh tr cb handle urip time_out c n =
     (case (handle, urip) of
        (Some h, Some uri) \<Rightarrow>
          if uri = [] then Returned (- 1, handle, c, n)
          else with_handle (http_client_request k e fresh tr cb h
            \<lparr>url = uri, req_method = HTTP_GET, req_hdr_sent_cnt = 0, body_buff = [], body_buff_len = 0\<rparr> time_out c n)
      | _ \<Rightarrow> Returned (- 1, handle, c, n))"

definition http_client_post ::
    "nat \<Rightarrow> env \<Rightarrow> string \<Rightarrow> 'n transport \<Rightarrow> ('c \<Rightarrow> http_client_resp_info \<Rightarrow> 'c) \<Rightarrow> http_clent_handle option \<Rightarrow> string option \<Rightarrow>
     string \<Rightarrow> nat \<Rightarrow> int \<Rightarrow> 'c \<Rightarrow> 'n \<Rightarrow> (int \<times> http_clent_handle option \<times> 'c \<times> 'n) outcome" where
  "http_client_post k e fresh tr cb handle urip buff buff_len time_out c n =
     (case (handle, urip) of
        (Some h, Some uri) \<Rightarrow>
          if uri = [] then Returned (- 1, handle, c, n)
          else if \<not> HTTP_FLAG_IS_SET h HTTP_FLAG_CONTENT_LEN_HDR_PRESENT then Returned (- 1, handle, c, n)
          else with_handle (http_client_request k e fresh tr cb h
            \<lparr>url = uri, req_method = HTTP_POST, req_hdr_sent_cnt = 0, body_buff = buff, body_buff_len = buff_len\<rparr> time_out c n)
      | _ \<Rightarrow> Returned (- 1, handle, c, n))"

text \<open>Closing frees the handle; a header freed before is freed twice.\<close>

definition http_client_close :: "'n transport \<Rightarrow> http_clent_handle option \<Rightarrow> 'n \<Rightarrow> (int \<times> 'n) option" where
  "http_client_close tr handle n =
     do { h \<leftarrow> handle;
          if None \<in> set (req_hdrs h) then None
          else Some (0, if HTTP_FLAG_IS_SET h HTTP_FLAG_SECURED then tr_ssl_disconnect tr (ssl_handle h) n
                        else tr_close tr (sock_fd h) n) }"

definition http_client_sock_fd_get :: "'n transport \<Rightarrow> http_clent_handle option \<Rightarrow> int" where
  "http_client_sock_fd_get tr handle =
     (case handle of
        None \<Rightarrow> - 1
      | Some h \<Rightarrow> if HTTP_FLAG_IS_SET h HTTP_FLAG_SECURED then tr_ssl_sock_fd tr (ssl_handle h) else sock_fd h)"

definition http_client_ssl_context_get :: "http_clent_handle option \<Rightarrow> nat option" where
  "http_client_ssl_context_get handle = Option.bind handle ssl_handle"

end
