(* ===== verification/Http_Response.thy ===== *)
theory Http_Response
  imports Http_Client
begin

text \<open>
  Theorems on the response side of the HTTP client (components/http/src/http_client.c).  The parser works
  in place, on the bytes of the receive buffer, cutting it with NULs; the lemmas of the first sections show
  that on a well-formed response it computes what the lines of the response say (\<open>hdr_effect\<close>).  The
  properties are on the delivery of a body that arrives in many segments, on the bound of the receive
  buffer, and on a peer that closes early.
\<close>

section \<open>Strings in the buffer\<close>

abbreviation crlf :: string where
  "crlf \<equiv> [CHR 0x0D, CHR 0x0A]"

definition plain_text :: "string \<Rightarrow> bool" where
  "plain_text s \<longleftrightarrow> NUL \<notin> set s \<and> CHR 0x0D \<notin> set s"

lemma plain_text_simps [simp]:
  "plain_text []" "plain_text (c # s) \<longleftrightarrow> c \<noteq> NUL \<and> c \<noteq> CHR 0x0D \<and> plain_text s"
  "plain_text (s @ t) \<longleftrightarrow> plain_text s \<and> plain_text t"
  by (auto simp: plain_text_def)

lemma strstr_skip:
  "plain_text s \<Longrightarrow> pat \<noteq> [] \<Longrightarrow> hd pat = CHR 0x0D \<Longrightarrow> strstr (s @ t) pat = map_option (\<lambda>i. length s + i) (strstr t pat)"
proof (induction s)
  case Nil
  then show ?case by (simp add: option.map_ident)
next
  case (Cons c s)
  then have "take (length pat) ((c # s) @ t) \<noteq> pat" by (cases pat) auto
  with Cons show ?case by (simp add: option.map_comp comp_def)
qed

lemma strstr_at_start: "strstr (pat @ t) pat = Some 0"
  by (cases pat) (cases t, simp_all)

lemma strstr_crlf: "plain_text s \<Longrightarrow> strstr (s @ crlf @ t) crlf = Some (length s)"
  using strstr_at_start [of crlf t] by (simp add: strstr_skip)

lemma strstr_none: "plain_text s \<Longrightarrow> strstr s crlf = None"
  using strstr_skip [of s crlf "[]"] by simp

text \<open>The header section of the lines \<open>hs\<close>.\<close>

definition hdr_lines :: "string list \<Rightarrow> string" where
  "hdr_lines hs = concat (map (\<lambda>l. l @ crlf) hs)"

lemma hdr_lines_simps [simp]: "hdr_lines [] = []" "hdr_lines (l # hs) = l @ crlf @ hdr_lines hs"
  by (simp_all add: hdr_lines_def)

lemma length_hdr_lines: "length (hdr_lines (hs @ gs)) = length (hdr_lines hs) + length (hdr_lines gs)"
  by (simp add: hdr_lines_def)

text \<open>The blank line is the first place where two line ends meet.\<close>

lemma strstr_blank_line:
  assumes "hs \<noteq> []" "\<And>l. l \<in> set hs \<Longrightarrow> plain_text l \<and> l \<noteq> []"
  shows "strstr (hdr_lines hs @ crlf @ t) (crlf @ crlf) = Some (length (hdr_lines hs) - 2)"
  using assms
proof (induction hs)
  case Nil
  then show ?case by simp
next
  case (Cons l hs)
  then have l: "plain_text l" by simp
  show ?case
  proof (cases hs)
    case Nil
    then show ?thesis
      using strstr_at_start [of "crlf @ crlf" t] strstr_skip [OF l, of "crlf @ crlf" "crlf @ crlf @ t"] by simp
  next
    case (Cons g gs)
    then obtain c g' where g: "g = c # g'" "c \<noteq> CHR 0x0D" using Cons.prems(2) [of g] by (cases g) auto
    have "strstr (hdr_lines hs @ crlf @ t) (crlf @ crlf) = Some (length (hdr_lines hs) - 2)"
      using Cons.IH Cons.prems Cons by simp
    then have "strstr (crlf @ hdr_lines hs @ crlf @ t) (crlf @ crlf) = Some (2 + (length (hdr_lines hs) - 2))"
      using Cons g by simp
    then show ?thesis using strstr_skip [OF l, of "crlf @ crlf" "crlf @ hdr_lines hs @ crlf @ t"] Cons by simp
  qed
qed

section \<open>The header lines\<close>

text \<open>
  What a header line says, without the buffer: a line whose name has a value to look at has a space, and
  a length is behind \<open>Content-Length:\<close>.
\<close>

definition line_is :: "string \<Rightarrow> string \<Rightarrow> bool" where
  "line_is l name \<longleftrightarrow> strcasecmp_eq (take (length name) l) name"

definition line_value_is :: "string \<Rightarrow> string \<Rightarrow> bool" where
  "line_value_is l v \<longleftrightarrow> strcasecmp_eq (dropWhile (\<lambda>c. c = CHR '' '') (dropWhile (\<lambda>c. c \<noteq> CHR '' '') l)) v"

definition hdr_ok :: "string \<Rightarrow> bool" where
  "hdr_ok l \<longleftrightarrow> plain_text l \<and> l \<noteq> [] \<and> (line_is l ''Content-Length'' \<longrightarrow> length l \<ge> 15) \<and>
     (line_is l ''Transfer-Encoding'' \<or> line_is l ''Connection'' \<longrightarrow> CHR '' '' \<in> set l)"

definition hdr_effect :: "string \<Rightarrow> http_clent_handle \<times> http_client_resp \<Rightarrow> http_clent_handle \<times> http_client_resp" where
  "hdr_effect l = (\<lambda>(h, resp).
     let (h, resp) = (if hdr_cnt resp < HTTP_MAX_RESP_HDRS
                      then (h\<lparr>resp_hdrs := resp_hdrs h @ [l]\<rparr>, resp\<lparr>hdr_cnt := hdr_cnt resp + 1\<rparr>) else (h, resp))
     in if line_is l ''Content-Length''
        then (h, resp\<lparr>total_len := u32_of (atoi (drop 15 l)), content_len_present := True\<rparr>)
        else if line_is l ''Transfer-Encoding'' \<and> line_value_is l ''chunked'' then (h, resp\<lparr>chunked := True\<rparr>)
        else if line_is l ''Connection'' \<and> line_value_is l ''keep-alive'' then (HTTP_FLAG_SET h HTTP_FLAG_KA, resp)
        else (h, resp))"

lemma str_at_line: "NUL \<notin> set s \<Longrightarrow> str_at (pre @ s @ NUL # t) (length pre) = Some s"
  by (simp add: str_at_def cstr_append_NUL)

lemma cstr_skip: "NUL \<notin> set s \<Longrightarrow> cstr (s @ t) = s @ cstr t"
  by (induction s) (auto simp: cstr_def)

lemma cstr_crlf [simp]: "cstr (CHR 0x0D # CHR 0x0A # t) = crlf @ cstr t"
  by (simp add: cstr_def)

lemma cstr_take_line:
  "NUL \<notin> set l \<Longrightarrow> n \<le> length l + Suc (length t) \<Longrightarrow> cstr (take n (l @ NUL # t)) = take n l"
  by (cases "n \<le> length l") (auto simp: cstr_def takeWhile_append take_Cons' dest: in_set_takeD)

lemma strstr_space:
  "CHR '' '' \<in> set l \<Longrightarrow> \<exists>i. strstr l '' '' = Some i \<and> drop i l = dropWhile (\<lambda>c. c \<noteq> CHR '' '') l"
  by (induction l) auto

lemma is_this_header_line:
  assumes "NUL \<notin> set l" "length name \<le> length l + Suc (length t)" "v \<noteq> None \<Longrightarrow> line_is l name \<Longrightarrow> CHR '' '' \<in> set l"
  shows "is_this_header (pre @ l @ NUL # t) (length pre) name v =
    Some (line_is l name \<and> (case v of None \<Rightarrow> True | Some w \<Rightarrow> line_value_is l w))"
proof (cases "line_is l name \<and> v \<noteq> None")
  case True
  then obtain i where i: "strstr l '' '' = Some i" "drop i l = dropWhile (\<lambda>c. c \<noteq> CHR '' '') l"
    using assms(3) strstr_space by blast
  with True show ?thesis
    using assms(1,2) by (auto simp: is_this_header_def cstr_take_line line_is_def [symmetric] str_at_line line_value_is_def simp del: take_append)
next
  case False
  then show ?thesis
    using assms(1,2) by (auto simp: is_this_header_def cstr_take_line line_is_def [symmetric] simp del: take_append)
qed

lemma hdr_parse_line:
  assumes ok: "hdr_ok l" and t: "length t \<ge> 16" and e: "\<And>n. os_alloc e n"
  shows "hdr_parse e h resp (pre @ l @ NUL # t) (length pre) = Some (hdr_effect l (h, resp))"
proof -
  have nul: "NUL \<notin> set l" using ok by (simp add: hdr_ok_def plain_text_def)
  have v: "str_at (pre @ l @ NUL # t) (length pre + length ''Content-Length:'') = Some (drop 15 l)" if "line_is l ''Content-Length''"
  proof -
    have "length l \<ge> 15" using ok that by (simp add: hdr_ok_def)
    then have "pre @ l @ NUL # t = (pre @ take 15 l) @ drop 15 l @ NUL # t" "length (pre @ take 15 l) = length pre + 15"
      by simp_all
    then have "str_at (pre @ l @ NUL # t) (length pre + 15) = Some (drop 15 l)"
      using str_at_line [of "drop 15 l" "pre @ take 15 l" t] nul by (metis in_set_dropD)
    moreover have "length ''Content-Length:'' = 15" by simp
    ultimately show ?thesis by (simp only:)
  qed
  have "is_content_len_hdr (pre @ l @ NUL # t) (length pre) = Some (line_is l ''Content-Length'')"
    "is_transfer_enco_chunk_hdr (pre @ l @ NUL # t) (length pre) =
       Some (line_is l ''Transfer-Encoding'' \<and> line_value_is l ''chunked'')"
    "is_connection_keep_alive_hdr (pre @ l @ NUL # t) (length pre) =
       Some (line_is l ''Connection'' \<and> line_value_is l ''keep-alive'')"
    unfolding is_content_len_hdr_def is_transfer_enco_chunk_hdr_def is_connection_keep_alive_hdr_def
    using is_this_header_line [OF nul, of "''Content-Length''" t None pre]
      is_this_header_line [OF nul, of "''Transfer-Encoding''" t "Some ''chunked''" pre]
      is_this_header_line [OF nul, of "''Connection''" t "Some ''keep-alive''" pre] t ok
    by (simp_all add: hdr_ok_def)
  with v e nul show ?thesis
    by (simp add: hdr_parse_def hdr_effect_def str_at_line Let_def)
qed

definition cut_lines :: "string list \<Rightarrow> string" where
  "cut_lines hs = concat (map (\<lambda>l. l @ [NUL, CHR 0x0A]) hs)"

lemma cut_lines_simps [simp]: "cut_lines [] = []" "cut_lines (l # hs) = l @ [NUL, CHR 0x0A] @ cut_lines hs"
  by (simp_all add: cut_lines_def)

lemma length_cut_lines [simp]: "length (cut_lines hs) = length (hdr_lines hs)"
  by (induction hs) simp_all

lemma bytes_available_hdr_effect [simp]: "bytes_available (snd (hdr_effect l x)) = bytes_available (snd x)"
  by (cases x) (simp add: hdr_effect_def Let_def split: if_splits prod.splits)

lemma NUL_hdr_lines: "(\<And>l. l \<in> set hs \<Longrightarrow> hdr_ok l) \<Longrightarrow> NUL \<notin> set (hdr_lines hs)"
  by (induction hs) (auto simp: hdr_ok_def plain_text_def)

lemma hdrs_loop_lines:
  assumes "\<And>l. l \<in> set hs \<Longrightarrow> hdr_ok l" "length t \<ge> 16" "\<And>n. os_alloc e n"
    "int bp + int (length (hdr_lines hs)) \<le> bytes_available resp"
  shows "hdrs_loop e h resp (pre @ hdr_lines hs @ NUL # t) (length pre) bp =
    (case fold hdr_effect hs (h, resp) of
       (h', resp') \<Rightarrow> Some (h', resp', pre @ cut_lines hs @ NUL # t, bp + length (hdr_lines hs)))"
  using assms(1,4)
proof (induction hs arbitrary: pre h resp bp)
  case Nil
  then show ?case using str_at_line [of "[]" pre t] by (subst hdrs_loop.simps) (simp add: HTTP_CR_LF_STR_def)
next
  case (Cons l hs)
  let ?t = "CHR 0x0A # hdr_lines hs @ NUL # t"
  let ?buf = "pre @ hdr_lines (l # hs) @ NUL # t"
  have l: "hdr_ok l" "plain_text l" and nul: "NUL \<notin> set (hdr_lines (l # hs))"
    using Cons.prems NUL_hdr_lines [of "l # hs"] by (auto simp: hdr_ok_def)
  have at: "str_at ?buf (length pre) = Some (l @ crlf @ hdr_lines hs)"
    using str_at_line [OF nul, of pre t] by simp
  have cut: "?buf[length pre + length l := NUL] = pre @ l @ NUL # ?t" by (simp add: list_update_append)
  obtain h' resp' where e: "hdr_effect l (h, resp) = (h', resp')" by fastforce
  then have "bytes_available resp' = bytes_available resp" using bytes_available_hdr_effect [of l "(h, resp)"] by simp
  then have "hdrs_loop e h' resp' ((pre @ l @ [NUL, CHR 0x0A]) @ hdr_lines hs @ NUL # t)
      (length (pre @ l @ [NUL, CHR 0x0A])) (bp + length l + 2) =
    (case fold hdr_effect hs (h', resp') of
       (h', resp') \<Rightarrow> Some (h', resp', (pre @ l @ [NUL, CHR 0x0A]) @ cut_lines hs @ NUL # t,
         bp + length l + 2 + length (hdr_lines hs)))"
    using Cons.IH [of "bp + length l + 2" resp' h' "pre @ l @ [NUL, CHR 0x0A]"] Cons.prems by simp
  moreover have "hdr_parse e h resp (pre @ l @ NUL # ?t) (length pre) = Some (h', resp')"
    using hdr_parse_line [OF l(1), of ?t e h resp pre] assms(2,3) e by simp
  ultimately show ?case
    using at strstr_crlf [OF l(2), of "hdr_lines hs"] cut Cons.prems(2) e
    by (subst hdrs_loop.simps) (simp add: HTTP_CR_LF_STR_def add_ac)
qed

lemma http_client_hdrs_parse_lines:
  assumes hs: "hs \<noteq> []" "\<And>l. l \<in> set hs \<Longrightarrow> hdr_ok l" and e: "\<And>n. os_alloc e n"
    and buf: "recv_buf h = Some (pre @ hdr_lines hs @ crlf @ rest)" "recv_ptr resp = length pre"
    and rest: "NUL \<in> set rest" "length rest \<ge> 16" and av: "int (length (hdr_lines hs)) \<le> bytes_available resp"
  shows "http_client_hdrs_parse e h resp =
    (case fold hdr_effect hs (h, resp) of (h', resp') \<Rightarrow>
       Some (0, h'\<lparr>recv_buf := Some (pre @ cut_lines hs @ NUL # CHR 0x0A # rest)\<rparr>, advance (length (hdr_lines hs) + 2) resp'))"
proof -
  let ?buf = "pre @ hdr_lines hs @ crlf @ rest"
  obtain l0 gs where g: "hs = l0 # gs" using hs(1) by (cases hs) auto
  then have "hdr_ok l0" using hs(2) by simp
  then obtain c l where c: "hs = (c # l) # gs" "c \<noteq> CHR 0x0D" "c \<noteq> NUL" using g by (cases l0) (auto simp: hdr_ok_def)
  have nul: "NUL \<notin> set (hdr_lines hs)" by (rule NUL_hdr_lines) (rule hs(2))
  have pos: "length pre + (length (hdr_lines hs) - 2) + 2 = length pre + length (hdr_lines hs)" using c by simp
  have s: "str_at ?buf (length pre) = Some (hdr_lines hs @ crlf @ cstr rest)"
    using nul rest(1) by (simp add: str_at_def cstr_skip)
  have "strstr (hdr_lines hs @ crlf @ cstr rest) HTTP_2_CR_LF_STR = Some (length (hdr_lines hs) - 2)"
    using strstr_blank_line [OF hs(1), of "cstr rest"] hs(2) by (simp add: HTTP_2_CR_LF_STR_def hdr_ok_def)
  moreover have "?buf[length pre + (length (hdr_lines hs) - 2) + 2 := NUL] = pre @ hdr_lines hs @ NUL # CHR 0x0A # rest"
    unfolding pos by (simp add: list_update_append)
  moreover have "?buf ! length pre = c" "length pre < length ?buf" using c(1) by (simp_all add: nth_append)
  moreover have "hdrs_loop e h resp (pre @ hdr_lines hs @ NUL # CHR 0x0A # rest) (length pre) 0 =
    (case fold hdr_effect hs (h, resp) of
       (h', resp') \<Rightarrow> Some (h', resp', pre @ cut_lines hs @ NUL # CHR 0x0A # rest, length (hdr_lines hs)))"
    using hdrs_loop_lines [of hs "CHR 0x0A # rest" e 0 resp h pre] hs e rest av by simp
  ultimately show ?thesis
    using buf s c(2) unfolding http_client_hdrs_parse_def Let_def
    by (simp add: HTTP_CR_LF_STR_def split: prod.splits)
qed

section \<open>The status line\<close>

lemma strtok_r_token:
  assumes "t \<noteq> []" "d \<notin> set t" "NUL \<notin> set t" "d \<noteq> NUL" "NUL \<in> set rest"
  shows "strtok_r d (pre @ t @ d # rest) (length pre) = Some (Some t, pre @ t @ NUL # rest, length pre + length t + 1)"
proof -
  have "str_at (pre @ t @ d # rest) (length pre) = Some (t @ d # cstr rest)"
    using assms cstr_skip [of "t @ [d]" rest] by (simp add: str_at_def)
  moreover have "takeWhile (\<lambda>c. c = d) (t @ d # cstr rest) = []" using assms(1,2) by (cases t) auto
  moreover have "takeWhile (\<lambda>c. c \<noteq> d) (t @ d # cstr rest) = t" using assms(2) by (auto simp: takeWhile_append)
  ultimately show ?thesis using assms(1) by (simp add: strtok_r_def Let_def list_update_append)
qed

definition status_line :: "string \<Rightarrow> string \<Rightarrow> string" where
  "status_line cd reason = ''HTTP/1.1 '' @ cd @ '' '' @ reason"

definition cut_status_line :: "string \<Rightarrow> string \<Rightarrow> string" where
  "cut_status_line cd reason = ''HTTP/1.1'' @ NUL # cd @ NUL # reason"

definition status_ok :: "string \<Rightarrow> string \<Rightarrow> bool" where
  "status_ok cd reason \<longleftrightarrow> cd \<noteq> [] \<and> CHR '' '' \<notin> set cd \<and> plain_text cd \<and> plain_text reason"

lemma length_cut_status_line [simp]: "length (cut_status_line cd reason) = length (status_line cd reason)"
  by (simp add: cut_status_line_def status_line_def)

lemma http_client_status_line_parse_ok:
  assumes ok: "status_ok cd reason" and rest: "NUL \<in> set rest"
    and buf: "recv_buf h = Some (status_line cd reason @ crlf @ rest)" "recv_ptr resp = 0"
  shows "http_client_status_line_parse h resp =
    Some (0, h\<lparr>status_code := s16 (atoi cd), recv_buf := Some (cut_status_line cd reason @ crlf @ rest)\<rparr>,
      advance (length (status_line cd reason) + 2) resp)"
proof -
  have nul: "NUL \<notin> set (status_line cd reason)" and p: "plain_text (status_line cd reason)"
    using ok by (simp_all add: status_ok_def status_line_def plain_text_def)
  have s: "str_at (status_line cd reason @ crlf @ rest) 0 = Some (status_line cd reason @ crlf @ cstr rest)"
    using nul rest by (simp add: str_at_def cstr_skip)
  have "strtok_r (CHR '' '') (status_line cd reason @ crlf @ rest) 0 =
      Some (Some ''HTTP/1.1'', ''HTTP/1.1'' @ NUL # cd @ '' '' @ reason @ crlf @ rest, length ''HTTP/1.1 '')"
    using strtok_r_token [of "''HTTP/1.1''" "CHR '' ''" "cd @ '' '' @ reason @ crlf @ rest" "[]"] rest
    by (simp add: status_line_def)
  moreover have "strtok_r (CHR '' '') (''HTTP/1.1'' @ NUL # cd @ '' '' @ reason @ crlf @ rest) (length ''HTTP/1.1 '') =
      Some (Some cd, cut_status_line cd reason @ crlf @ rest, length ''HTTP/1.1 '' + length cd + 1)"
    using strtok_r_token [of cd "CHR '' ''" "reason @ crlf @ rest" "''HTTP/1.1'' @ [NUL]"] rest ok
    by (simp add: status_ok_def plain_text_def cut_status_line_def)
  moreover have "strcmp ''HTTP/1.1'' HTTP_VER_STR = 0" by (simp add: HTTP_VER_STR_def)
  ultimately show ?thesis
    using buf s strstr_crlf [OF p, of "cstr rest"] unfolding http_client_status_line_parse_def Let_def
    by (simp add: HTTP_CR_LF_STR_def del: strcmp.simps)
qed

section \<open>The body\<close>

text \<open>
  What the network hands over: the next read with an empty buffer gives the segment, from \<open>select\<close> and
  \<open>recv\<close> or from the TLS session.
\<close>

definition segment_arrives :: "bool \<Rightarrow> 'n transport \<Rightarrow> int \<Rightarrow> string \<Rightarrow> 'n \<Rightarrow> 'n \<Rightarrow> bool" where
  "segment_arrives secured tr t seg n n' \<longleftrightarrow>
     length seg \<le> MAX_RECV_BUF_SIZE \<and>
     (if secured then tr_ssl_read tr MAX_RECV_BUF_SIZE (t * 1000) n = (int (length seg), seg, n')
      else \<exists>r n1. tr_select tr t n = (r, n1) \<and> r > 0 \<and> tr_recv tr MAX_RECV_BUF_SIZE n1 = (int (length seg), seg, n'))"

fun segments_arrive :: "bool \<Rightarrow> 'n transport \<Rightarrow> int \<Rightarrow> string list \<Rightarrow> 'n \<Rightarrow> 'n \<Rightarrow> bool" where
  "segments_arrive secured tr t [] n n' \<longleftrightarrow> n = n'"
| "segments_arrive secured tr t (seg # segs) n n' \<longleftrightarrow>
     (\<exists>n1. segment_arrives secured tr t seg n n1 \<and> segments_arrive secured tr t segs n1 n')"

abbreviation secured :: "http_clent_handle \<Rightarrow> bool" where
  "secured h \<equiv> HTTP_FLAG_IS_SET h HTTP_FLAG_SECURED"

text \<open>A callback that writes down what it is called with.\<close>

definition log_resp :: "(int \<times> string \<times> bool) list \<Rightarrow> http_client_resp_info \<Rightarrow> (int \<times> string \<times> bool) list" where
  "log_resp c info = c @ [(info_status_code info, take (nat (info_resp_len info)) (info_resp_body info), info_more_data info)]"

definition delivery :: "int \<Rightarrow> string list \<Rightarrow> (int \<times> string \<times> bool) list" where
  "delivery st segs = map (\<lambda>s. (st, s, True)) (butlast segs) @ [(st, last segs, False)]"

lemma socket_recv_segment:
  assumes "recv_buf h = Some buf" "length buf = Suc MAX_RECV_BUF_SIZE" "bytes_available resp = 0"
    "recv_ptr resp \<le> Suc MAX_RECV_BUF_SIZE" "segment_arrives (secured h) tr (resp_time_out resp) seg n n'"
  shows "http_client_socket_recv tr h resp n =
    Some (int (length seg), h\<lparr>recv_buf := Some (seg @ NUL # drop (Suc (length seg)) buf)\<rparr>, n')"
proof -
  have d: "drop (length seg) buf = (drop (length seg) buf ! 0) # drop (Suc (length seg)) buf"
    using assms(2,5) by (subst Cons_nth_drop_Suc [symmetric]) (auto simp: segment_arrives_def)
  then have "(seg @ drop (length seg) buf)[length seg := NUL] = seg @ NUL # drop (Suc (length seg)) buf"
    by (metis list_update_length)
  moreover have "Suc (length seg) \<le> length buf" using assms(2,5) by (simp add: segment_arrives_def)
  ultimately have p: "poke (seg @ drop (length seg) buf) (length seg) NUL = Some (seg @ NUL # drop (Suc (length seg)) buf)"
    by (simp add: poke_def)
  show ?thesis
  proof (cases "secured h")
    case True
    then have "tr_ssl_read tr MAX_RECV_BUF_SIZE (resp_time_out resp * 1000) n = (int (length seg), seg, n')"
      using assms(5) by (simp add: segment_arrives_def)
    with True show ?thesis
      using assms(1-4) p \<open>Suc (length seg) \<le> length buf\<close> by (simp add: http_client_socket_recv_def)
  next
    case False
    then obtain r n1 where "tr_select tr (resp_time_out resp) n = (r, n1)" "r > 0"
        "tr_recv tr MAX_RECV_BUF_SIZE n1 = (int (length seg), seg, n')"
      using assms(5) by (auto simp: segment_arrives_def)
    with False show ?thesis
      using assms(1-4) p \<open>Suc (length seg) \<le> length buf\<close> by (simp add: http_client_socket_recv_def)
  qed
qed

lemma body_turn_log:
  assumes "h_state h = HTTP_STATE_RESP_BODY_RECV" "recv_buf h = Some (pre @ b @ t)" "recv_ptr resp = length pre"
    "bytes_available resp = int (length b)" "\<not> chunked resp"
    "0 \<le> body_received_len resp" "body_received_len resp + int (length b) < 2 ^ 32"
  shows "body_turn log_resp h resp c =
    (let r = body_received_len resp + int (length b);
         resp' = resp\<lparr>body_received_len := r, recv_ptr := length pre + length b, bytes_available := 0\<rparr>;
         c' = c @ [(status_code h, b, r < total_len resp)]
     in if total_len resp \<noteq> 0 \<and> r \<ge> total_len resp then Leave h resp' c' else Again h resp' c')"
  using assms by (simp add: body_turn_def Let_def resp_info_set_def log_resp_def u32_of_def)

lemma resp_turn_body:
  "h_state h = HTTP_STATE_RESP_BODY_RECV \<Longrightarrow> resp_turn e cb h resp c = Some (body_turn cb h resp c)"
  by (simp add: resp_turn_def hdr_turn_def chunk_turn_def)

lemma delivery_Cons: "segs \<noteq> [] \<Longrightarrow> delivery st (s # segs) = (st, s, True) # delivery st segs"
  by (simp add: delivery_def)

lemma length_concat_pos: "segs \<noteq> [] \<Longrightarrow> [] \<notin> set segs \<Longrightarrow> 0 < length (concat segs)"
  by (cases segs) auto

lemma u32_of_len: "n \<le> MAX_RECV_BUF_SIZE \<Longrightarrow> u32_of (int n) = int n"
  by (simp add: u32_of_def MAX_RECV_BUF_SIZE_def)

lemma resp_recv_body:
  assumes "h_state h = HTTP_STATE_RESP_BODY_RECV" "recv_buf h = Some buf" "length buf = Suc MAX_RECV_BUF_SIZE"
    "bytes_available resp = 0" "recv_ptr resp \<le> Suc MAX_RECV_BUF_SIZE" "\<not> chunked resp"
    "0 \<le> body_received_len resp" "body_received_len resp + int (length (concat segs)) = total_len resp"
    "total_len resp < 2 ^ 32" "segs \<noteq> []" "[] \<notin> set segs"
    "segments_arrive (secured h) tr (resp_time_out resp) segs n n'"
  shows "\<exists>buf'. length buf' = Suc MAX_RECV_BUF_SIZE \<and>
    http_client_resp_recv (length segs + k) e tr log_resp h resp c n =
      Returned (0, h\<lparr>recv_buf := Some buf'\<rparr>, c @ delivery (status_code h) segs, n')"
  using assms
proof (induction segs arbitrary: h buf resp c n)
  case Nil
  then show ?case by simp
next
  case (Cons seg segs)
  obtain n1 where n1: "segment_arrives (secured h) tr (resp_time_out resp) seg n n1"
      "segments_arrive (secured h) tr (resp_time_out resp) segs n1 n'"
    using Cons.prems(12) by auto
  let ?buf = "seg @ NUL # drop (Suc (length seg)) buf"
  let ?h = "h\<lparr>recv_buf := Some ?buf\<rparr>"
  let ?r = "body_received_len resp + int (length seg)"
  let ?resp = "resp\<lparr>recv_ptr := 0, recvd_len := int (length seg), bytes_available := int (length seg)\<rparr>"
  let ?resp' = "?resp\<lparr>body_received_len := ?r, recv_ptr := length seg, bytes_available := 0\<rparr>"
  have seg: "length seg \<le> MAX_RECV_BUF_SIZE" "seg \<noteq> []" using n1 Cons.prems by (auto simp: segment_arrives_def)
  have len: "length ?buf = Suc MAX_RECV_BUF_SIZE" using seg Cons.prems(3) by simp
  have recv: "http_client_socket_recv tr h resp n = Some (int (length seg), ?h, n1)"
    by (rule socket_recv_segment [OF Cons.prems(2-5) n1(1)])
  define L where "L = int (length (concat segs))"
  then have "?r + L = total_len resp" using Cons.prems(8) by simp
  moreover have "0 \<le> L" "0 < L \<longleftrightarrow> segs \<noteq> []"
    using length_concat_pos [of segs] Cons.prems(11) by (cases "segs = []", auto simp: L_def)
  moreover have "0 < ?r" using seg(2) Cons.prems(7) by (cases seg) auto
  ultimately have r: "total_len resp \<noteq> 0" "?r \<ge> total_len resp \<longleftrightarrow> segs = []" "?r < 2 ^ 32"
    using Cons.prems(9) by auto
  have turn: "resp_turn e log_resp ?h ?resp c =
      Some (if segs = [] then Leave ?h ?resp' (c @ [(status_code h, seg, False)])
            else Again ?h ?resp' (c @ [(status_code h, seg, True)]))"
    using body_turn_log [of ?h "[]" seg "NUL # drop (Suc (length seg)) buf" ?resp c] Cons.prems(1,6,7) r
    by (auto simp: resp_turn_body Let_def not_le [symmetric])
  show ?case
  proof (cases "segs = []")
    case True
    then show ?thesis using recv turn len n1 seg by (auto simp: u32_of_len delivery_def intro!: exI [of _ ?buf])
  next
    case False
    have "secured ?h = secured h" by (simp add: HTTP_FLAG_IS_SET_def)
    then obtain buf' where "length buf' = Suc MAX_RECV_BUF_SIZE"
        "http_client_resp_recv (length segs + k) e tr log_resp ?h ?resp' (c @ [(status_code h, seg, True)]) n1 =
          Returned (0, ?h\<lparr>recv_buf := Some buf'\<rparr>, (c @ [(status_code h, seg, True)]) @ delivery (status_code h) segs, n')"
      using Cons.IH [of ?h ?buf ?resp' n1 "c @ [(status_code h, seg, True)]"] Cons.prems n1 False len seg by auto
    then show ?thesis using recv turn False seg by (auto simp: u32_of_len delivery_Cons)
  qed
qed

section \<open>The whole response\<close>

text \<open>What the header lines announce: the last length, chunks, a connection that stays.\<close>

fun content_length :: "string list \<Rightarrow> int option" where
  "content_length [] = None"
| "content_length (l # hs) =
     (case content_length hs of
        Some N \<Rightarrow> Some N
      | None \<Rightarrow> if line_is l ''Content-Length'' then Some (u32_of (atoi (drop 15 l))) else None)"

definition says_chunked :: "string \<Rightarrow> bool" where
  "says_chunked l \<longleftrightarrow> \<not> line_is l ''Content-Length'' \<and> line_is l ''Transfer-Encoding'' \<and> line_value_is l ''chunked''"

definition says_keep_alive :: "string \<Rightarrow> bool" where
  "says_keep_alive l \<longleftrightarrow> \<not> line_is l ''Content-Length'' \<and> \<not> says_chunked l \<and>
     line_is l ''Connection'' \<and> line_value_is l ''keep-alive''"

lemma content_length_range: "content_length hs = Some N \<Longrightarrow> 0 \<le> N \<and> N < 2 ^ 32"
  by (induction hs) (auto simp: u32_of_def split: option.splits if_splits)

lemma FLAG_SET_simps [simp]:
  "secured (HTTP_FLAG_SET h HTTP_FLAG_KA) = secured h" "HTTP_FLAG_IS_SET (HTTP_FLAG_SET h HTTP_FLAG_KA) HTTP_FLAG_KA"
  by (simp_all add: HTTP_FLAG_IS_SET_def HTTP_FLAG_SET_def HTTP_FLAG_KA_def HTTP_FLAG_SECURED_def bit.conj_disj_distrib2)

lemma FLAG_IS_SET_frame [simp]:
  "HTTP_FLAG_IS_SET (h\<lparr>recv_buf := b\<rparr>) f = HTTP_FLAG_IS_SET h f" "HTTP_FLAG_IS_SET (h\<lparr>h_state := s\<rparr>) f = HTTP_FLAG_IS_SET h f"
  "HTTP_FLAG_IS_SET (h\<lparr>status_code := c\<rparr>) f = HTTP_FLAG_IS_SET h f" "HTTP_FLAG_IS_SET (h\<lparr>resp_hdrs := hs\<rparr>) f = HTTP_FLAG_IS_SET h f"
  "HTTP_FLAG_IS_SET (h\<lparr>send_buf := sb\<rparr>) f = HTTP_FLAG_IS_SET h f" "HTTP_FLAG_IS_SET (h\<lparr>req_cnt := r\<rparr>) f = HTTP_FLAG_IS_SET h f"
  "HTTP_FLAG_IS_SET (h\<lparr>req_hdrs := rs\<rparr>) f = HTTP_FLAG_IS_SET h f"
  by (simp_all add: HTTP_FLAG_IS_SET_def)

lemma hdr_effect_fields:
  assumes "hdr_effect l (h, resp) = (h', resp')"
  shows "status_code h' = status_code h" "h_state h' = h_state h" "secured h' = secured h" "send_buf h' = send_buf h"
    "HTTP_FLAG_IS_SET h' HTTP_FLAG_KA \<longleftrightarrow> HTTP_FLAG_IS_SET h HTTP_FLAG_KA \<or> says_keep_alive l"
    "resp_hdrs h' = resp_hdrs h @ take (HTTP_MAX_RESP_HDRS - hdr_cnt resp) [l]"
    "HTTP_MAX_RESP_HDRS - hdr_cnt resp' = HTTP_MAX_RESP_HDRS - hdr_cnt resp - 1"
    "total_len resp' = (case content_length [l] of None \<Rightarrow> total_len resp | Some N \<Rightarrow> N)"
    "chunked resp' \<longleftrightarrow> chunked resp \<or> says_chunked l" "recv_ptr resp' = recv_ptr resp"
    "bytes_available resp' = bytes_available resp" "body_received_len resp' = body_received_len resp"
    "resp_time_out resp' = resp_time_out resp"
  using assms
  by (auto simp: hdr_effect_def Let_def says_chunked_def says_keep_alive_def HTTP_FLAG_SET_def HTTP_FLAG_IS_SET_def
      HTTP_FLAG_KA_def HTTP_FLAG_SECURED_def bit.conj_disj_distrib2 split: if_splits)

lemma fold_hdr_effect_fields:
  assumes "fold hdr_effect hs (h, resp) = (h', resp')"
  shows "status_code h' = status_code h \<and> h_state h' = h_state h \<and> secured h' = secured h \<and> send_buf h' = send_buf h \<and>
    (HTTP_FLAG_IS_SET h' HTTP_FLAG_KA \<longleftrightarrow> HTTP_FLAG_IS_SET h HTTP_FLAG_KA \<or> (\<exists>l \<in> set hs. says_keep_alive l)) \<and>
    resp_hdrs h' = resp_hdrs h @ take (HTTP_MAX_RESP_HDRS - hdr_cnt resp) hs \<and>
    total_len resp' = (case content_length hs of None \<Rightarrow> total_len resp | Some N \<Rightarrow> N) \<and>
    (chunked resp' \<longleftrightarrow> chunked resp \<or> (\<exists>l \<in> set hs. says_chunked l)) \<and> recv_ptr resp' = recv_ptr resp \<and>
    bytes_available resp' = bytes_available resp \<and> body_received_len resp' = body_received_len resp \<and>
    resp_time_out resp' = resp_time_out resp"
  using assms
proof (induction hs arbitrary: h resp)
  case Nil
  then show ?case by simp
next
  case (Cons l hs)
  obtain h1 resp1 where l: "hdr_effect l (h, resp) = (h1, resp1)" by fastforce
  then have "fold hdr_effect hs (h1, resp1) = (h', resp')" using Cons.prems by simp
  from Cons.IH [OF this] show ?case
    using hdr_effect_fields [OF l]
    by (cases "HTTP_MAX_RESP_HDRS - hdr_cnt resp") (auto split: option.splits if_splits)
qed

definition response_head :: "string \<Rightarrow> string \<Rightarrow> string list \<Rightarrow> string" where
  "response_head cd reason hs = status_line cd reason @ crlf @ hdr_lines hs @ crlf"

definition has_body :: "int \<Rightarrow> bool" where
  "has_body st \<longleftrightarrow> \<not> (100 < st \<and> st < 200) \<and> st \<noteq> 204 \<and> st \<noteq> 304"

text \<open>A head the parser takes whole: its lines are sound, and sixteen bytes of the buffer are behind it.\<close>

definition head_ok :: "string \<Rightarrow> string \<Rightarrow> string list \<Rightarrow> bool" where
  "head_ok cd reason hs \<longleftrightarrow> status_ok cd reason \<and> hs \<noteq> [] \<and> list_all hdr_ok hs \<and>
     length (response_head cd reason hs) + 16 \<le> Suc MAX_RECV_BUF_SIZE"

text \<open>The first segment: the parser reaches the body, behind the cut head.\<close>

lemma resp_turn_head:
  fixes cb :: "'c \<Rightarrow> http_client_resp_info \<Rightarrow> 'c"
  assumes ok: "head_ok cd reason hs" and e: "\<And>n. os_alloc e n"
    and h: "h_state h = HTTP_STATE_RESP_SL_RECV" "recv_buf h = Some (response_head cd reason hs @ b @ NUL # t)"
    and len: "length (response_head cd reason hs @ b @ NUL # t) = Suc MAX_RECV_BUF_SIZE"
    and resp: "recv_ptr resp = 0" "bytes_available resp = int (length (response_head cd reason hs @ b))"
    and body: "has_body (s16 (atoi cd))" "content_length hs = Some N" "\<not> chunked resp" "\<forall>l \<in> set hs. \<not> says_chunked l"
  shows "\<exists>h' resp' pre. resp_turn e cb h resp c = Some (body_turn cb h' resp' c) \<and>
    h_state h' = HTTP_STATE_RESP_BODY_RECV \<and> recv_buf h' = Some (pre @ b @ NUL # t) \<and>
    length pre = length (response_head cd reason hs) \<and> status_code h' = s16 (atoi cd) \<and> secured h' = secured h \<and>
    resp_hdrs h' = resp_hdrs h @ take (HTTP_MAX_RESP_HDRS - hdr_cnt resp) hs \<and>
    (HTTP_FLAG_IS_SET h' HTTP_FLAG_KA \<longleftrightarrow> HTTP_FLAG_IS_SET h HTTP_FLAG_KA \<or> (\<exists>l \<in> set hs. says_keep_alive l)) \<and>
    recv_ptr resp' = length pre \<and> bytes_available resp' = int (length b) \<and> total_len resp' = N \<and> \<not> chunked resp' \<and>
    body_received_len resp' = body_received_len resp \<and> resp_time_out resp' = resp_time_out resp"
proof -
  let ?sl = "status_line cd reason" and ?csl = "cut_status_line cd reason"
  let ?h1 = "h\<lparr>status_code := s16 (atoi cd), recv_buf := Some (?csl @ crlf @ hdr_lines hs @ crlf @ b @ NUL # t),
      h_state := HTTP_STATE_RESP_HDR_RECV\<rparr>"
  let ?resp1 = "advance (length ?sl + 2) resp"
  obtain h2 resp2 where f: "fold hdr_effect hs (?h1, ?resp1) = (h2, resp2)" by fastforce
  let ?pre = "?csl @ crlf @ cut_lines hs @ [NUL, CHR 0x0A]"
  let ?h3 = "h2\<lparr>recv_buf := Some (?pre @ b @ NUL # t), h_state := HTTP_STATE_RESP_BODY_RECV\<rparr>"
  let ?resp3 = "advance (length (hdr_lines hs) + 2) resp2"
  have hl: "length (response_head cd reason hs) = length ?sl + 2 + length (hdr_lines hs) + 2"
    by (simp add: response_head_def)
  have av1: "bytes_available ?resp1 = int (length (hdr_lines hs) + 2 + length b)"
    using resp(2) len hl by (simp add: advance_def u32_of_def MAX_RECV_BUF_SIZE_def)
  note ff = fold_hdr_effect_fields [OF f]
  have av3: "bytes_available ?resp3 = int (length b)"
    using ff av1 len hl by (simp add: advance_def u32_of_def MAX_RECV_BUF_SIZE_def)
  have sl: "http_client_status_line_parse h resp =
      Some (0, h\<lparr>status_code := s16 (atoi cd), recv_buf := Some (?csl @ crlf @ hdr_lines hs @ crlf @ b @ NUL # t)\<rparr>, ?resp1)"
    using http_client_status_line_parse_ok [of cd reason "hdr_lines hs @ crlf @ b @ NUL # t" h resp] ok h(2) resp(1)
    by (simp add: head_ok_def response_head_def)
  have hp: "http_client_hdrs_parse e ?h1 ?resp1 = Some (0, h2\<lparr>recv_buf := Some (?pre @ b @ NUL # t)\<rparr>, ?resp3)"
    using http_client_hdrs_parse_lines [of hs e ?h1 "?csl @ crlf" "b @ NUL # t" ?resp1] ok e f av1 len hl resp(1)
    by (simp add: head_ok_def list_all_iff advance_def)
  have "status_code h2 = s16 (atoi cd)" using ff by simp
  then have nb: "\<not> (status_code h2 > 100 \<and> status_code h2 < 200 \<or> status_code h2 = 204 \<or> status_code h2 = 304)"
    using body(1) by (simp add: has_body_def)
  have "\<not> chunked ?resp3" using ff body by (simp add: advance_def)
  then have "resp_turn e cb h resp c = Some (body_turn cb ?h3 ?resp3 c)"
    using h(1) sl hp nb by (auto simp: resp_turn_def hdr_turn_def chunk_turn_def)
  moreover have "length ?pre = length (response_head cd reason hs)" using hl by simp
  ultimately show ?thesis
    using ff av3 hl body resp(1) by (intro exI [of _ ?h3] exI [of _ ?resp3] exI [of _ ?pre]) (simp add: advance_def HTTP_FLAG_IS_SET_def)
qed

text \<open>So the first turn of the loop leads to the body, with the announced length and an intact rest of the segment.\<close>

lemma resp_recv_first:
  fixes cb :: "'c \<Rightarrow> http_client_resp_info \<Rightarrow> 'c"
  assumes ok: "head_ok cd reason hs" and e: "\<And>n. os_alloc e n"
    and h: "h_state h = HTTP_STATE_RESP_SL_RECV" "recv_buf h = Some buf" "length buf = Suc MAX_RECV_BUF_SIZE"
    and body: "has_body (s16 (atoi cd))" "content_length hs = Some N" "\<forall>l \<in> set hs. \<not> says_chunked l"
    and net: "segment_arrives (secured h) tr t (response_head cd reason hs @ b) n n1"
  obtains h2 resp2 pre rest where
    "\<And>k. http_client_resp_recv (Suc k) e tr cb h (resp_init t) c n =
       (case body_turn cb h2 resp2 c of
          Quit rval h c \<Rightarrow> Returned (rval, h, c, n1)
        | Leave h resp c \<Rightarrow> Returned (0, h, c, n1)
        | Again h resp c \<Rightarrow> http_client_resp_recv k e tr cb h resp c n1)"
    "h_state h2 = HTTP_STATE_RESP_BODY_RECV" "recv_buf h2 = Some (pre @ b @ NUL # rest)"
    "length (pre @ b @ NUL # rest) = Suc MAX_RECV_BUF_SIZE" "status_code h2 = s16 (atoi cd)" "secured h2 = secured h"
    "resp_hdrs h2 = resp_hdrs h @ take HTTP_MAX_RESP_HDRS hs"
    "HTTP_FLAG_IS_SET h2 HTTP_FLAG_KA \<longleftrightarrow> HTTP_FLAG_IS_SET h HTTP_FLAG_KA \<or> (\<exists>l \<in> set hs. says_keep_alive l)"
    "recv_ptr resp2 = length pre" "bytes_available resp2 = int (length b)" "total_len resp2 = N" "\<not> chunked resp2"
    "body_received_len resp2 = 0" "resp_time_out resp2 = t"
proof -
  let ?seg = "response_head cd reason hs @ b"
  let ?t = "drop (Suc (length ?seg)) buf"
  let ?h1 = "h\<lparr>recv_buf := Some (?seg @ NUL # ?t)\<rparr>"
  let ?resp1 = "(resp_init t)\<lparr>recv_ptr := 0, recvd_len := int (length ?seg), bytes_available := u32_of (int (length ?seg))\<rparr>"
  have seg: "length ?seg \<le> MAX_RECV_BUF_SIZE" using net by (simp add: segment_arrives_def)
  have recv: "http_client_socket_recv tr h (resp_init t) n = Some (int (length ?seg), ?h1, n1)"
    using socket_recv_segment [OF h(2,3), of "resp_init t" tr ?seg n n1] net by (simp add: resp_init_def)
  have h1: "h_state ?h1 = HTTP_STATE_RESP_SL_RECV" "recv_buf ?h1 = Some (response_head cd reason hs @ b @ NUL # ?t)"
      "length (response_head cd reason hs @ b @ NUL # ?t) = Suc MAX_RECV_BUF_SIZE" using h seg by simp_all
  have resp1: "recv_ptr ?resp1 = 0" "bytes_available ?resp1 = int (length ?seg)" "\<not> chunked ?resp1"
    using u32_of_len [OF seg] by (simp_all add: resp_init_def)
  obtain h2 resp2 pre where p: "resp_turn e cb ?h1 ?resp1 c = Some (body_turn cb h2 resp2 c)"
      "h_state h2 = HTTP_STATE_RESP_BODY_RECV" "recv_buf h2 = Some (pre @ b @ NUL # ?t)"
      "length pre = length (response_head cd reason hs)" "status_code h2 = s16 (atoi cd)" "secured h2 = secured ?h1"
      "resp_hdrs h2 = resp_hdrs ?h1 @ take (HTTP_MAX_RESP_HDRS - hdr_cnt ?resp1) hs"
      "HTTP_FLAG_IS_SET h2 HTTP_FLAG_KA \<longleftrightarrow> HTTP_FLAG_IS_SET ?h1 HTTP_FLAG_KA \<or> (\<exists>l \<in> set hs. says_keep_alive l)"
      "recv_ptr resp2 = length pre" "bytes_available resp2 = int (length b)" "total_len resp2 = N" "\<not> chunked resp2"
      "body_received_len resp2 = body_received_len ?resp1" "resp_time_out resp2 = resp_time_out ?resp1"
    using resp_turn_head [OF ok e h1 resp1(1,2) body(1,2) resp1(3) body(3), of cb c] by (elim exE conjE)
  have "0 < int (length ?seg)" by (simp add: response_head_def)
  then have "http_client_resp_recv (Suc k) e tr cb h (resp_init t) c n =
       (case body_turn cb h2 resp2 c of
          Quit rval h c \<Rightarrow> Returned (rval, h, c, n1)
        | Leave h resp c \<Rightarrow> Returned (0, h, c, n1)
        | Again h resp c \<Rightarrow> http_client_resp_recv k e tr cb h resp c n1)" for k
    using recv p(1) by (simp split: turn.split)
  moreover have "length (pre @ b @ NUL # ?t) = Suc MAX_RECV_BUF_SIZE" using p(4) h1(3) by simp
  ultimately show ?thesis using that p by (simp add: resp_init_def)
qed

lemma resp_recv_response:
  assumes ok: "head_ok cd reason hs" and e: "\<And>n. os_alloc e n"
    and h: "h_state h = HTTP_STATE_RESP_SL_RECV" "recv_buf h = Some buf" "length buf = Suc MAX_RECV_BUF_SIZE" "resp_hdrs h = []"
    and body: "has_body (s16 (atoi cd))" "content_length hs = Some N" "\<forall>l \<in> set hs. \<not> says_chunked l"
    and N: "N = int (length (concat (b # segs)))" "0 < N" "[] \<notin> set segs"
    and net: "segments_arrive (secured h) tr t ((response_head cd reason hs @ b) # segs) n n'"
  shows "\<exists>h'. http_client_resp_recv (Suc (length segs) + k) e tr log_resp h (resp_init t) [] n =
      Returned (0, h', delivery (s16 (atoi cd)) (b # segs), n') \<and>
    status_code h' = s16 (atoi cd) \<and> resp_hdrs h' = take HTTP_MAX_RESP_HDRS hs \<and>
    (HTTP_FLAG_IS_SET h' HTTP_FLAG_KA \<longleftrightarrow> HTTP_FLAG_IS_SET h HTTP_FLAG_KA \<or> (\<exists>l \<in> set hs. says_keep_alive l))"
proof -
  obtain n1 where n1: "segment_arrives (secured h) tr t (response_head cd reason hs @ b) n n1"
      "segments_arrive (secured h) tr t segs n1 n'" using net by auto
  obtain h2 resp2 pre rest where p: "\<And>k. http_client_resp_recv (Suc k) e tr log_resp h (resp_init t) [] n =
       (case body_turn log_resp h2 resp2 [] of
          Quit rval h c \<Rightarrow> Returned (rval, h, c, n1)
        | Leave h resp c \<Rightarrow> Returned (0, h, c, n1)
        | Again h resp c \<Rightarrow> http_client_resp_recv k e tr log_resp h resp c n1)"
    and q: "h_state h2 = HTTP_STATE_RESP_BODY_RECV" "recv_buf h2 = Some (pre @ b @ NUL # rest)"
      "length (pre @ b @ NUL # rest) = Suc MAX_RECV_BUF_SIZE" "status_code h2 = s16 (atoi cd)" "secured h2 = secured h"
      "resp_hdrs h2 = resp_hdrs h @ take HTTP_MAX_RESP_HDRS hs"
      "HTTP_FLAG_IS_SET h2 HTTP_FLAG_KA \<longleftrightarrow> HTTP_FLAG_IS_SET h HTTP_FLAG_KA \<or> (\<exists>l \<in> set hs. says_keep_alive l)"
      "recv_ptr resp2 = length pre" "bytes_available resp2 = int (length b)" "total_len resp2 = N" "\<not> chunked resp2"
      "body_received_len resp2 = 0" "resp_time_out resp2 = t"
    by (rule resp_recv_first [OF ok e h(1-3) body n1(1), of log_resp "[]"]) (rule that, assumption+)
  let ?st = "s16 (atoi cd)"
  let ?resp3 = "resp2\<lparr>body_received_len := int (length b), recv_ptr := length pre + length b, bytes_available := 0\<rparr>"
  have r: "int (length b) \<ge> N \<longleftrightarrow> segs = []" "int (length b) < 2 ^ 32"
    using N length_concat_pos [of segs] content_length_range [OF body(2)] by (cases "segs = []", auto)
  have turn: "body_turn log_resp h2 resp2 [] =
      (if segs = [] then Leave h2 ?resp3 [(?st, b, False)] else Again h2 ?resp3 [(?st, b, True)])"
    using body_turn_log [OF q(1,2,8,9,11), of "[]"] q r N(2) by (auto simp: Let_def not_le [symmetric])
  show ?thesis
  proof (cases "segs = []")
    case True
    then show ?thesis using p turn n1 q(4,6,7) h(4) by (auto simp: delivery_def simp del: http_client_resp_recv.simps)
  next
    case False
    then obtain buf' where "http_client_resp_recv (length segs + k) e tr log_resp h2 ?resp3 [(?st, b, True)] n1 =
          Returned (0, h2\<lparr>recv_buf := Some buf'\<rparr>, [(?st, b, True)] @ delivery (status_code h2) segs, n')"
      using resp_recv_body [OF q(1-3), of ?resp3 segs tr n1 n' k e "[(?st, b, True)]"] q N r n1 content_length_range [OF body(2)]
      by auto
    then show ?thesis using p turn False q(4,6,7) h(4)
      by (auto simp: delivery_Cons simp del: http_client_resp_recv.simps intro!: exI [of _ "h2\<lparr>recv_buf := Some buf'\<rparr>"])
  qed
qed

section \<open>The whole exchange\<close>

definition request_text :: "string \<Rightarrow> string \<Rightarrow> string list \<Rightarrow> string" where
  "request_text method uri lines = method @ '' '' @ uri @ '' HTTP/1.1'' @ crlf @ hdr_lines lines @ crlf"

lemma req_create_hdrs_fit:
  "length buf + length (hdr_lines lines) + 2 < MAX_SEND_BUF_SIZE \<Longrightarrow>
   req_create_hdrs (map Some lines) i MAX_SEND_BUF_SIZE buf = Some (0, int (i + length lines), buf @ hdr_lines lines @ crlf)"
  by (induction lines arbitrary: buf i) (simp_all add: sb_add_def HTTP_CR_LF_STR_def HTTP_2_CR_LF_STR_def)

lemma http_client_req_create_fit:
  assumes "req_hdr_sent_cnt req = - 1" "req_hdrs h = map Some lines"
    "length (request_text (http_method_table (req_method req)) (url req) lines) < MAX_SEND_BUF_SIZE"
  shows "http_client_req_create h req MAX_SEND_BUF_SIZE =
    Some (0, req\<lparr>req_hdr_sent_cnt := 0\<rparr>, request_text (http_method_table (req_method req)) (url req) lines)"
  using assms req_create_hdrs_fit [of "http_method_table (req_method req) @ '' '' @ url req @ '' HTTP/1.1'' @ crlf" lines 0]
  by (simp add: http_client_req_create_def request_text_def sb_add_def HTTP_VER_STR_def HTTP_CR_LF_STR_def)

lemma hdr_search_absent:
  "(\<And>l. l \<in> set lines \<Longrightarrow> \<not> strncasecmp_eq l name) \<Longrightarrow> hdr_search (map Some lines) name i = Some (i + length lines)"
  by (induction lines arbitrary: i) auto

lemma set_req_hdr_host:
  assumes "req_hdrs h = map Some lines" "length lines < HTTP_MAX_REQ_HDRS" "\<And>l. l \<in> set lines \<Longrightarrow> \<not> strncasecmp_eq l ''Host''"
    "\<And>n. os_alloc e n"
  shows "set_req_hdr e h ''Host'' v =
    Some (0, HTTP_FLAG_SET (h\<lparr>req_hdrs := map Some (lines @ [''Host: '' @ v])\<rparr>) HTTP_FLAG_HOST_HDR_PRESENT)"
  using assms hdr_search_absent [of lines "''Host''" 0]
  by (simp add: set_req_hdr_def HTTP_HDR_DELIM_def strcasecmp_eq_def Let_def)

lemma host_flag_frame [simp]:
  "secured (HTTP_FLAG_SET h HTTP_FLAG_HOST_HDR_PRESENT) = secured h"
  "HTTP_FLAG_IS_SET (HTTP_FLAG_SET h HTTP_FLAG_HOST_HDR_PRESENT) HTTP_FLAG_KA = HTTP_FLAG_IS_SET h HTTP_FLAG_KA"
  by (simp_all add: HTTP_FLAG_IS_SET_def HTTP_FLAG_SET_def HTTP_FLAG_KA_def HTTP_FLAG_SECURED_def
      HTTP_FLAG_HOST_HDR_PRESENT_def bit.conj_disj_distrib2)

lemma HTTP_FLAG_SET_frame [simp]:
  "h_state (HTTP_FLAG_SET h f) = h_state h" "req_hdrs (HTTP_FLAG_SET h f) = req_hdrs h"
  "req_body_len (HTTP_FLAG_SET h f) = req_body_len h" "recv_buf (HTTP_FLAG_SET h f) = recv_buf h"
  "resp_hdrs (HTTP_FLAG_SET h f) = resp_hdrs h" "send_buf (HTTP_FLAG_SET h f) = send_buf h"
  "req_cnt (HTTP_FLAG_SET h f) = req_cnt h"
  by (simp_all add: HTTP_FLAG_SET_def)

text \<open>A request without a body is one write, whatever the write returns.\<close>

definition request_sent :: "bool \<Rightarrow> 'n transport \<Rightarrow> string \<Rightarrow> 'n \<Rightarrow> 'n \<Rightarrow> bool" where
  "request_sent tls tr text n n' \<longleftrightarrow> snd (if tls then tr_ssl_write tr text n else tr_send tr text n) = n'"

lemma req_send_fit:
  assumes "h_state h = HTTP_STATE_REQ_SEND" "req_body_len h = 0" "req_hdrs h = map Some lines"
    "length (request_text (http_method_table (req_method req)) (url req) lines) < MAX_SEND_BUF_SIZE"
    "request_sent (secured h) tr (request_text (http_method_table (req_method req)) (url req) lines) n n'"
  shows "http_client_req_send (Suc k) tr h req n = Returned (0, h\<lparr>h_state := HTTP_STATE_REQ_BODY_SEND\<rparr>, n')"
  using assms http_client_req_create_fit [of "req\<lparr>req_hdr_sent_cnt := - 1\<rparr>" h lines]
  by (auto simp: http_client_req_send_def http_client_socket_send_def request_sent_def split: prod.splits)

text \<open>An idle handle whose header table holds the lines, with room for the \<open>Host\<close> header.\<close>

definition handle_ready :: "http_clent_handle \<Rightarrow> string list \<Rightarrow> bool" where
  "handle_ready h lines \<longleftrightarrow>
     h_state h = HTTP_STATE_IDE \<and> \<not> HTTP_FLAG_IS_SET h HTTP_FLAG_HOST_HDR_PRESENT \<and> req_hdrs h = map Some lines \<and>
     length lines < HTTP_MAX_REQ_HDRS \<and> list_all (\<lambda>l. \<not> strncasecmp_eq l ''Host'') lines \<and> req_body_len h = 0 \<and>
     resp_hdrs h = [] \<and> (recv_buf h = None \<or> length (the (recv_buf h)) = Suc MAX_RECV_BUF_SIZE)"

text \<open>
  Property C32.  \<open>http_client_get\<close> is one exchange.  The request goes out as one write of the request line, the header
  lines and the \<open>Host\<close> header.  When the status line and the header lines of the response come with the first
  segment and announce a length, and the body then comes cut into segments in any way, the callback gets
  every byte of the body once and in order, each call with the status code of the response and with
  \<open>more_data\<close> set on all calls but the last; the function returns 0, or the request to close when no side
  keeps the connection, and leaves the handle idle.  It reads no more often than there are segments.
\<close>

declare http_client_resp_recv.simps [simp del]

theorem http_get_delivers:
  assumes "handle_ready h lines" "\<forall>n. os_alloc e n" "length fresh = Suc MAX_RECV_BUF_SIZE" "uri \<noteq> []"
    and "text = request_text ''GET'' uri (lines @ [''Host: '' @ h_hostname h])" "length text < MAX_SEND_BUF_SIZE"
    and "request_sent (secured h) tr text n n1"
    and "head_ok cd reason hs" "has_body (s16 (atoi cd))"
    and "content_length hs = Some (int (length (concat (b # segs))))" "\<forall>l \<in> set hs. \<not> says_chunked l"
    and "concat (b # segs) \<noteq> []" "[] \<notin> set segs"
    and "segments_arrive (secured h) tr t ((response_head cd reason hs @ b) # segs) n1 n2"
  shows "\<exists>h'. http_client_get (Suc (length segs) + k) e fresh tr log_resp (Some h) (Some uri) t [] n =
      Returned (if HTTP_FLAG_IS_SET h HTTP_FLAG_KA \<or> (\<exists>l \<in> set hs. says_keep_alive l) then 0 else HTTP_CLIENT_CLOSE_CONNECTION,
        Some h', delivery (s16 (atoi cd)) (b # segs), n2) \<and>
    h_state h' = HTTP_STATE_IDE \<and> status_code h' = s16 (atoi cd) \<and> resp_hdrs h' = []"
proof -
  let ?h1 = "HTTP_FLAG_SET (h\<lparr>h_state := HTTP_STATE_REQ_SEND, req_hdrs := map Some (lines @ [''Host: '' @ h_hostname h])\<rparr>)
      HTTP_FLAG_HOST_HDR_PRESENT"
  let ?h2 = "?h1\<lparr>send_buf := True\<rparr>"
  let ?req = "\<lparr>url = uri, req_method = HTTP_GET, req_hdr_sent_cnt = 0, body_buff = [], body_buff_len = 0\<rparr>"
  let ?h = "?h2\<lparr>req_cnt := req_cnt h + 1, h_state := HTTP_STATE_RESP_SL_RECV\<rparr>"
  let ?h3 = "if recv_buf h = None then ?h\<lparr>recv_buf := Some fresh\<rparr> else ?h"
  have pos: "0 < int (length (concat (b # segs)))"
    using assms(12) by (metis length_greater_0_conv of_nat_0_less_iff)
  note hd = assms(1) [unfolded handle_ready_def list_all_iff]
  have hdr: "set_req_hdr e (h\<lparr>h_state := HTTP_STATE_REQ_SEND\<rparr>) ''Host'' (h_hostname h) = Some (0, ?h1)"
    using set_req_hdr_host [of "h\<lparr>h_state := HTTP_STATE_REQ_SEND\<rparr>" lines e "h_hostname h"] hd assms(2) by simp
  have send: "http_client_req_send (Suc (length segs + k)) tr ?h2 ?req n =
      Returned (0, ?h2\<lparr>h_state := HTTP_STATE_REQ_BODY_SEND\<rparr>, n1)"
    using req_send_fit [of ?h2 "lines @ [''Host: '' @ h_hostname h]" ?req tr n n1] hd assms(5-7) by simp
  have "\<exists>h'. http_client_resp_recv (Suc (length segs) + k) e tr log_resp ?h3 (resp_init t) [] n1 =
        Returned (0, h', delivery (s16 (atoi cd)) (b # segs), n2) \<and>
      status_code h' = s16 (atoi cd) \<and> resp_hdrs h' = take HTTP_MAX_RESP_HDRS hs \<and>
      (HTTP_FLAG_IS_SET h' HTTP_FLAG_KA \<longleftrightarrow> HTTP_FLAG_IS_SET ?h3 HTTP_FLAG_KA \<or> (\<exists>l \<in> set hs. says_keep_alive l))"
    by (rule resp_recv_response [where buf = "case recv_buf h of None \<Rightarrow> fresh | Some buf \<Rightarrow> buf", OF assms(8) _ _ _ _ _ assms(9,10,11) refl pos assms(13)])
      (use hd assms(2,3,14) in \<open>auto split: option.splits\<close>)
  moreover have "HTTP_FLAG_IS_SET ?h3 HTTP_FLAG_KA = HTTP_FLAG_IS_SET h HTTP_FLAG_KA" by simp
  ultimately obtain h' where h': "http_client_resp_recv (Suc (length segs + k)) e tr log_resp ?h3 (resp_init t) [] n1 =
        Returned (0, h', delivery (s16 (atoi cd)) (b # segs), n2)" "status_code h' = s16 (atoi cd)"
      "HTTP_FLAG_IS_SET h' HTTP_FLAG_KA \<longleftrightarrow> HTTP_FLAG_IS_SET h HTTP_FLAG_KA \<or> (\<exists>l \<in> set hs. says_keep_alive l)"
    by (metis add_Suc)
  have "http_client_send_recv (Suc (length segs + k)) e fresh tr log_resp ?h1 ?req t [] n =
      Returned (if HTTP_FLAG_IS_SET h HTTP_FLAG_KA \<or> (\<exists>l \<in> set hs. says_keep_alive l) then 0 else HTTP_CLIENT_CLOSE_CONNECTION,
        h'\<lparr>resp_hdrs := [], h_state := HTTP_STATE_IDE\<rparr>, delivery (s16 (atoi cd)) (b # segs), n2)"
    using send h' hd assms(2) by (auto simp: http_client_send_recv_def Let_def)
  then show ?thesis
    using hd hdr h'(2) assms(4) by (simp add: http_client_get_def http_client_request_def with_handle_def)
qed

text \<open>A network that plays back a script of segments, and a server that answers in two of them.\<close>

definition script_net :: "string list transport" where
  "script_net = \<lparr>tr_getaddrinfo = (\<lambda>_ _ n. (0, [], n)), tr_socket = (\<lambda>n. (3, n)), tr_connect = (\<lambda>_ _ n. (0, n)),
     tr_close = (\<lambda>_ n. n), tr_send = (\<lambda>s n. (int (length s), n)),
     tr_select = (\<lambda>_ n. (if n = [] then 0 else 1, n)),
     tr_recv = (\<lambda>_ n. case n of [] \<Rightarrow> (- 1, [], []) | s # ss \<Rightarrow> (int (length s), s, ss)),
     tr_ssl_connect = (\<lambda>_ _ n. (None, n)), tr_ssl_disconnect = (\<lambda>_ n. n), tr_ssl_sock_fd = (\<lambda>_. - 1),
     tr_ssl_write = (\<lambda>_ n. (- 1, n)), tr_ssl_read = (\<lambda>_ _ n. (- 1, [], n))\<rparr>"

definition sample_handle :: http_clent_handle where
  "sample_handle = http_handle_default_init\<lparr>sock_fd := 3, h_hostname := ''h''\<rparr>"

lemma sample_handle_ready: "handle_ready sample_handle []" "\<not> secured sample_handle" "h_hostname sample_handle = ''h''"
    "\<not> HTTP_FLAG_IS_SET sample_handle HTTP_FLAG_KA"
  by (simp_all add: handle_ready_def sample_handle_def http_handle_default_init_def HTTP_FLAG_IS_SET_def HTTP_MAX_REQ_HDRS_def)

lemma sample_hdr: "hdr_ok ''Content-Length: 5''" "content_length [''Content-Length: 5''] = Some 5"
    "\<not> says_chunked ''Content-Length: 5''" "\<not> says_keep_alive ''Content-Length: 5''"
    "head_ok ''200'' ''OK'' [''Content-Length: 5'']" "s16 (atoi ''200'') = 200"
  by code_simp+

abbreviation sample_script :: "string list" where
  "sample_script \<equiv> [response_head ''200'' ''OK'' [''Content-Length: 5''] @ ''he'', ''llo'']"

lemma sample_script_arrives: "segments_arrive (secured sample_handle) script_net 60 sample_script sample_script []"
  using sample_handle_ready(2)
  by (simp add: segment_arrives_def script_net_def MAX_RECV_BUF_SIZE_def response_head_def status_line_def)

theorem http_get_delivers_witness:
  "\<exists>h'. http_client_get 2 healthy_env (replicate 1461 NUL) script_net log_resp (Some sample_handle) (Some ''/x'') 60 [] sample_script =
      Returned (2, Some h', [(200, ''he'', True), (200, ''llo'', False)], []) \<and>
    h_state h' = HTTP_STATE_IDE \<and> status_code h' = 200 \<and> resp_hdrs h' = []"
proof -
  have "length (request_text ''GET'' ''/x'' ([] @ [''Host: '' @ h_hostname sample_handle])) < MAX_SEND_BUF_SIZE"
    by (simp add: sample_handle_ready request_text_def MAX_SEND_BUF_SIZE_def)
  moreover have "request_sent (secured sample_handle) script_net s sample_script sample_script" for s
    by (simp add: request_sent_def sample_handle_ready script_net_def)
  moreover have "has_body (s16 (atoi ''200''))" by (simp add: sample_hdr has_body_def)
  moreover have "length (replicate 1461 NUL) = Suc MAX_RECV_BUF_SIZE" by (simp add: MAX_RECV_BUF_SIZE_def)
  ultimately show ?thesis
    using http_get_delivers [OF sample_handle_ready(1), of healthy_env "replicate 1461 NUL" "''/x''" _ script_net
        sample_script sample_script "''200''" "''OK''" "[''Content-Length: 5'']" "''he''" "[''llo'']" 60 "[]" 0]
      sample_handle_ready(3,4) sample_hdr sample_script_arrives
    by (simp add: healthy_env_def delivery_def HTTP_CLIENT_CLOSE_CONNECTION_def numeral_2_eq_2)
qed

section \<open>The bound of the receive buffer\<close>

text \<open>
  Property C33.  A receive with \<open>bytes_available\<close> bytes left over stays in the 1461 bytes of the buffer exactly when
  twice the bytes left over and the bytes received are at most 1460 together: the new bytes always fit, but
  the terminator is stored at an index that counts the bytes left over twice.  When it stays inside, the
  bytes left over are followed by the new ones, and the count returned is theirs together.
\<close>

theorem http_recv_bound:
  assumes "recv_buf h = Some buf" "length buf = Suc MAX_RECV_BUF_SIZE" "\<not> secured h"
    and "bytes_available resp = int (length kept)" "take (length kept) (drop (recv_ptr resp) buf) = kept"
    and "tr_select tr (resp_time_out resp) n = (r, n1)" "0 < r" "length kept + length bs \<le> MAX_RECV_BUF_SIZE"
    and "tr_recv tr (MAX_RECV_BUF_SIZE - length kept) n1 = (int (length bs), bs, n2)"
    and "recv_ptr resp + length kept \<le> MAX_RECV_BUF_SIZE"
  shows "http_client_socket_recv tr h resp n =
    (if 2 * length kept + length bs \<le> MAX_RECV_BUF_SIZE
     then Some (int (length (kept @ bs)), h\<lparr>recv_buf := Some ((kept @ bs @ drop (length kept + length bs) buf)
       [2 * length kept + length bs := NUL])\<rparr>, n2)
     else None)"
proof -
  let ?buf = "kept @ drop (length kept) buf" and ?new = "kept @ bs @ drop (length kept + length bs) buf"
  have len: "nat (int MAX_RECV_BUF_SIZE - int (length kept)) = MAX_RECV_BUF_SIZE - length kept" by simp
  have i: "nat (int (length kept) + (int (length bs) + int (length kept))) = 2 * length kept + length bs" by simp
  have cnt: "int (length (kept @ bs)) = int (length bs) + int (length kept)" by simp
  have new: "take (length kept) ?buf @ bs @ drop (length kept + length bs) ?buf = ?new" by (simp add: add.commute)
  have "length ?new = Suc MAX_RECV_BUF_SIZE" using assms(2,8) by simp
  then have "poke ?new (2 * length kept + length bs) NUL =
      (if 2 * length kept + length bs \<le> MAX_RECV_BUF_SIZE then Some (?new[2 * length kept + length bs := NUL]) else None)"
    by (simp only: poke_def less_Suc_eq_le)
  moreover have "length ?buf = Suc MAX_RECV_BUF_SIZE" "recv_ptr resp + length kept \<le> length buf"
      "length kept \<le> MAX_RECV_BUF_SIZE" "length kept + length bs \<le> length ?buf" "0 \<le> int (length bs) + int (length kept)"
    using assms(2,8,10) by auto
  ultimately show ?thesis
    using assms(1,3,4,5,6,7,9) len i new cnt
    by (simp add: http_client_socket_recv_def Let_def del: take_append drop_append length_append)
qed

theorem http_recv_bound_witness:
  "http_client_socket_recv script_net (sample_handle\<lparr>recv_buf := Some (replicate 1461 (CHR ''a''))\<rparr>)
     ((resp_init 60)\<lparr>bytes_available := 1000\<rparr>) [replicate 460 (CHR ''b'')] = None"
  using http_recv_bound [of "sample_handle\<lparr>recv_buf := Some (replicate 1461 (CHR ''a''))\<rparr>" "replicate 1461 (CHR ''a'')"
      "(resp_init 60)\<lparr>bytes_available := 1000\<rparr>" "replicate 1000 (CHR ''a'')" script_net "[replicate 460 (CHR ''b'')]" 1
      "[replicate 460 (CHR ''b'')]" "replicate 460 (CHR ''b'')" "[]"] sample_handle_ready(2)
  by (simp add: MAX_RECV_BUF_SIZE_def script_net_def resp_init_def)

section \<open>A peer that closes early\<close>

text \<open>What \<open>recv\<close> gives on a connection the peer has closed: 0, again and again, and \<open>select\<close> finds it readable.\<close>

definition peer_closed :: "'n transport \<Rightarrow> 'n \<Rightarrow> bool" where
  "peer_closed tr n \<longleftrightarrow> (\<forall>t. tr_select tr t n = (1, n)) \<and> (\<forall>len. tr_recv tr len n = (0, [], n))"

lemma socket_recv_closed:
  assumes "peer_closed tr n" "\<not> secured h" "recv_buf h = Some (s @ NUL # t)" "length (s @ NUL # t) = Suc MAX_RECV_BUF_SIZE"
    "2 * length s \<le> MAX_RECV_BUF_SIZE" "recv_ptr resp = 0" "bytes_available resp = int (length s)"
  shows "\<exists>t'. length t' = length t \<and>
    http_client_socket_recv tr h resp n = Some (int (length s), h\<lparr>recv_buf := Some (s @ NUL # t')\<rparr>, n)"
proof -
  have "(s @ NUL # t)[2 * length s := NUL] = s @ NUL # (if s = [] then t else t[length s - 1 := NUL])"
    by (cases s) (simp_all add: list_update_append)
  moreover have "nat (2 * int (length s)) = 2 * length s" by simp
  ultimately show ?thesis
    using assms by (intro exI [of _ "if s = [] then t else t[length s - 1 := NUL]"])
      (simp add: http_client_socket_recv_def peer_closed_def poke_def Let_def)
qed

lemma resp_recv_spins:
  assumes "peer_closed tr n" "\<not> secured h" "h_state h = HTTP_STATE_RESP_SL_RECV"
    "recv_buf h = Some (s @ NUL # t)" "length (s @ NUL # t) = Suc MAX_RECV_BUF_SIZE"
    "plain_text s" "s \<noteq> []" "2 * length s \<le> MAX_RECV_BUF_SIZE" "recv_ptr resp = 0" "bytes_available resp = int (length s)"
  shows "http_client_resp_recv k e tr cb h resp c n = Out_of_fuel"
  using assms
proof (induction k arbitrary: h t resp)
  case 0
  then show ?case by (simp add: http_client_resp_recv.simps)
next
  case (Suc k)
  obtain t' where t': "length t' = length t"
      "http_client_socket_recv tr h resp n = Some (int (length s), h\<lparr>recv_buf := Some (s @ NUL # t')\<rparr>, n)"
    using socket_recv_closed [OF Suc.prems(1,2,4,5,8-10)] by blast
  let ?h = "h\<lparr>recv_buf := Some (s @ NUL # t')\<rparr>"
  let ?resp = "resp\<lparr>recv_ptr := 0, recvd_len := int (length s), bytes_available := int (length s)\<rparr>"
  have u: "u32_of (int (length s)) = int (length s)" using Suc.prems(8) by (simp add: u32_of_len)
  have "str_at (s @ NUL # t') 0 = Some s" using str_at_line [of s "[]" t'] Suc.prems(6) by (simp add: plain_text_def)
  then have "resp_turn e cb ?h ?resp c = Some (Again ?h ?resp c)"
    using Suc.prems(3,6) by (simp add: resp_turn_def http_client_status_line_parse_def HTTP_CR_LF_STR_def strstr_none)
  moreover have "http_client_resp_recv k e tr cb ?h ?resp c n = Out_of_fuel"
    using Suc.IH [of ?h t' ?resp] Suc.prems t'(1) by simp
  ultimately show ?case using t'(2) u Suc.prems(7) by (simp add: http_client_resp_recv.simps)
qed

text \<open>
  Property C34.  When the peer sends the beginning of a status line, at most 730 bytes without its end, and
  closes the connection, the receive loop never ends: the bytes left over are counted as received, so that
  the end of the stream is not seen.
\<close>

theorem http_early_close_spins:
  assumes "h_state h = HTTP_STATE_RESP_SL_RECV" "\<not> secured h" "recv_buf h = Some buf" "length buf = Suc MAX_RECV_BUF_SIZE"
    and "plain_text s" "s \<noteq> []" "2 * length s \<le> MAX_RECV_BUF_SIZE"
    and "segment_arrives False tr t s n n1" "peer_closed tr n1"
  shows "http_client_resp_recv k e tr cb h (resp_init t) c n = Out_of_fuel"
proof (cases k)
  case (Suc j)
  let ?h = "h\<lparr>recv_buf := Some (s @ NUL # drop (Suc (length s)) buf)\<rparr>"
  let ?resp = "(resp_init t)\<lparr>recv_ptr := 0, recvd_len := int (length s), bytes_available := int (length s)\<rparr>"
  have recv: "http_client_socket_recv tr h (resp_init t) n = Some (int (length s), ?h, n1)"
    using socket_recv_segment [OF assms(3,4), of "resp_init t" tr s n n1] assms(2,8) by (simp add: resp_init_def)
  have "str_at (s @ NUL # drop (Suc (length s)) buf) 0 = Some s"
    using str_at_line [of s "[]"] assms(5) by (simp add: plain_text_def)
  then have "resp_turn e cb ?h ?resp c = Some (Again ?h ?resp c)"
    using assms(1,5) by (simp add: resp_turn_def http_client_status_line_parse_def HTTP_CR_LF_STR_def strstr_none)
  moreover have "http_client_resp_recv j e tr cb ?h ?resp c n1 = Out_of_fuel"
    using resp_recv_spins [OF assms(9), of ?h s "drop (Suc (length s)) buf" ?resp] assms by simp
  ultimately show ?thesis using Suc recv assms(6,7) by (simp add: http_client_resp_recv.simps u32_of_len)
qed (simp add: http_client_resp_recv.simps)

definition closing_net :: "string list transport" where
  "closing_net = script_net\<lparr>tr_select := (\<lambda>_ n. (1, n)),
     tr_recv := (\<lambda>_ n. case n of [] \<Rightarrow> (0, [], []) | s # ss \<Rightarrow> (int (length s), s, ss))\<rparr>"

lemma closing_net_closes: "segment_arrives False closing_net 60 ''HTTP/1'' [''HTTP/1''] []" "peer_closed closing_net []"
  by (simp_all add: MAX_RECV_BUF_SIZE_def segment_arrives_def closing_net_def script_net_def peer_closed_def)

theorem http_early_close_spins_witness:
  "\<forall>k. http_client_resp_recv k healthy_env closing_net log_resp
     (sample_handle\<lparr>h_state := HTTP_STATE_RESP_SL_RECV, recv_buf := Some (replicate 1461 NUL)\<rparr>) (resp_init 60) [] [''HTTP/1''] = Out_of_fuel"
  using http_early_close_spins [where cb = log_resp, OF _ _ _ _ _ _ _ closing_net_closes,
      of "sample_handle\<lparr>h_state := HTTP_STATE_RESP_SL_RECV, recv_buf := Some (replicate 1461 NUL)\<rparr>" "replicate 1461 NUL"]
    sample_handle_ready(2)
  by (simp add: MAX_RECV_BUF_SIZE_def)

section \<open>An empty body\<close>

text \<open>
  Property C35.  A response that announces a length of 0 is passed to the callback as complete, but the loop goes on to
  wait for more, since a length of 0 is not told apart from a length that is not known; on a connection the
  server keeps open the wait times out and the request that has succeeded is reported as an error.
\<close>

theorem http_empty_body_times_out:
  assumes "head_ok cd reason hs" "\<forall>n. os_alloc e n"
    and "h_state h = HTTP_STATE_RESP_SL_RECV" "recv_buf h = Some buf" "length buf = Suc MAX_RECV_BUF_SIZE" "\<not> secured h"
    and "has_body (s16 (atoi cd))" "content_length hs = Some 0" "\<forall>l \<in> set hs. \<not> says_chunked l"
    and "segment_arrives False tr t (response_head cd reason hs) n n1" "tr_select tr t n1 = (0, n2)"
  shows "\<exists>h'. http_client_resp_recv (Suc (Suc k)) e tr log_resp h (resp_init t) [] n =
      Returned (- 1, h', [(s16 (atoi cd), [], False)], n2)"
proof -
  have net: "segment_arrives (secured h) tr t (response_head cd reason hs @ []) n n1" using assms(6,10) by simp
  obtain h2 resp2 pre rest where p: "\<And>k. http_client_resp_recv (Suc k) e tr log_resp h (resp_init t) [] n =
       (case body_turn log_resp h2 resp2 [] of
          Quit rval h c \<Rightarrow> Returned (rval, h, c, n1)
        | Leave h resp c \<Rightarrow> Returned (0, h, c, n1)
        | Again h resp c \<Rightarrow> http_client_resp_recv k e tr log_resp h resp c n1)"
    and q: "h_state h2 = HTTP_STATE_RESP_BODY_RECV" "recv_buf h2 = Some (pre @ [] @ NUL # rest)"
      "length (pre @ [] @ NUL # rest) = Suc MAX_RECV_BUF_SIZE" "status_code h2 = s16 (atoi cd)" "secured h2 = secured h"
      "resp_hdrs h2 = resp_hdrs h @ take HTTP_MAX_RESP_HDRS hs"
      "HTTP_FLAG_IS_SET h2 HTTP_FLAG_KA \<longleftrightarrow> HTTP_FLAG_IS_SET h HTTP_FLAG_KA \<or> (\<exists>l \<in> set hs. says_keep_alive l)"
      "recv_ptr resp2 = length pre" "bytes_available resp2 = int (length ([] :: string))" "total_len resp2 = 0" "\<not> chunked resp2"
      "body_received_len resp2 = 0" "resp_time_out resp2 = t"
    by (rule resp_recv_first [OF assms(1) spec [OF assms(2)] assms(3-5,7-9) net, of log_resp "[]"]) (rule that, assumption+)
  let ?resp3 = "resp2\<lparr>body_received_len := 0, recv_ptr := length pre, bytes_available := 0\<rparr>"
  have turn: "body_turn log_resp h2 resp2 [] = Again h2 ?resp3 [(s16 (atoi cd), [], False)]"
    using body_turn_log [OF q(1,2,8,9,11), of "[]"] q(4,10,12) by (simp add: Let_def)
  have "\<exists>h'. http_client_socket_recv tr h2 ?resp3 n1 = Some (- 1, h', n2)"
    using q(2,3,5,8,9,13) assms(6,11) by (simp add: http_client_socket_recv_def Let_def)
  then show ?thesis using p [of "Suc k"] turn by (auto simp: http_client_resp_recv.simps)
qed

lemma empty_hdr: "content_length [''Content-Length: 0''] = Some 0" "\<not> says_chunked ''Content-Length: 0''"
    "head_ok ''200'' ''OK'' [''Content-Length: 0'']"
  by (simp_all add: u32_of_def head_ok_def status_ok_def hdr_ok_def says_chunked_def line_is_def strcasecmp_eq_def
      tolower_def response_head_def status_line_def MAX_RECV_BUF_SIZE_def atoi_def isspace_def isdigit_def s32_def)

theorem http_empty_body_times_out_witness:
  "\<exists>h'. http_client_resp_recv 2 healthy_env script_net log_resp
     (sample_handle\<lparr>h_state := HTTP_STATE_RESP_SL_RECV, recv_buf := Some (replicate 1461 NUL)\<rparr>) (resp_init 60) []
     [response_head ''200'' ''OK'' [''Content-Length: 0'']] = Returned (- 1, h', [(200, [], False)], [])"
proof -
  have "segment_arrives False script_net 60 (response_head ''200'' ''OK'' [''Content-Length: 0''])
      [response_head ''200'' ''OK'' [''Content-Length: 0'']] []" "tr_select script_net 60 [] = (0, [])"
    by (simp_all add: segment_arrives_def script_net_def MAX_RECV_BUF_SIZE_def response_head_def status_line_def)
  then show ?thesis
    using http_empty_body_times_out [OF empty_hdr(3) _ _ _ _ _ _ empty_hdr(1), where k = 0 and e = healthy_env and buf = "replicate 1461 NUL"
        and h = "sample_handle\<lparr>h_state := HTTP_STATE_RESP_SL_RECV, recv_buf := Some (replicate 1461 NUL)\<rparr>"
        and tr = script_net and t = 60 and n = "[response_head ''200'' ''OK'' [''Content-Length: 0'']]" and ?n1.0 = "[]" and ?n2.0 = "[]"]
      empty_hdr sample_handle_ready(2) sample_hdr(6)
    by (simp add: has_body_def healthy_env_def MAX_RECV_BUF_SIZE_def numeral_2_eq_2)
qed

end
