(* ===== verification/Websock.thy ===== *)
theory Websock
  imports Http_Client
begin

unbundle bit_operations_syntax

text \<open>
  The WebSocket client (components/websocket/src/websock.c), on top of the HTTP client: frames out,
  frames in, the list of open connections, the opening handshake and the polling thread's work on one
  poll message.  Memory is lists of bytes; what the socket carries are the characters of these bytes.  The
  masking key, which the code draws at random, is an argument: the four bytes of its memory.  The two
  loops of the receiver that depend on the peer (answering pings, reading away the payload of a ping) run on fuel.
  Locks and the timer have no effect on the values and are left out.
\<close>

section \<open>Constants and state\<close>

definition WS_HDR_FIN_BIT :: byte where "WS_HDR_FIN_BIT = 0x80"
definition WS_HDR_MASK_BIT :: byte where "WS_HDR_MASK_BIT = 0x80"
definition WS_HDR_OPCODE_MASK :: byte where "WS_HDR_OPCODE_MASK = 0x0F"
definition WS_MAX_FRAME_SIZE :: nat where "WS_MAX_FRAME_SIZE = 1460"
definition WS_MAX_HEADERLEN :: nat where "WS_MAX_HEADERLEN = 8"
definition WS_MAX_FRAME_PAYLOAD :: nat where "WS_MAX_FRAME_PAYLOAD = WS_MAX_FRAME_SIZE - WS_MAX_HEADERLEN"
definition WS_MIN_HDR_LEN :: nat where "WS_MIN_HDR_LEN = 2"
definition WS_MAX_CONNECTIONS :: nat where "WS_MAX_CONNECTIONS = 16"
definition WS_MAX_RECV_BUF_LEN :: nat where "WS_MAX_RECV_BUF_LEN = 1400"

datatype ws_opcode =
  WS_OPCODE_CONTINUE | WS_OPCODE_TEXT | WS_OPCODE_BINARY | WS_OPCODE_CLOSE | WS_OPCODE_PING | WS_OPCODE_PONG | WS_OPCODE_INVALID

fun opcode_val :: "ws_opcode \<Rightarrow> byte" where
  "opcode_val WS_OPCODE_CONTINUE = 0x0"
| "opcode_val WS_OPCODE_TEXT = 0x1"
| "opcode_val WS_OPCODE_BINARY = 0x2"
| "opcode_val WS_OPCODE_CLOSE = 0x8"
| "opcode_val WS_OPCODE_PING = 0x9"
| "opcode_val WS_OPCODE_PONG = 0xA"
| "opcode_val WS_OPCODE_INVALID = 0xF"

datatype ws_state = WS_STATE_HDR_RECEIVING | WS_STATE_EXND_PL_LEN_RECEIVING | WS_STATE_PAYLOAD_RECEIVING

record websock_msg_hdr =
  fin :: int
  opcode :: int
  msg_payload_len :: int

text \<open>
  \<open>ws_buf\<close> is the send buffer, \<^const>\<open>None\<close> before the first send; \<open>ws_recv_buf\<close> the polling thread's buffer.
\<close>

record ws_handle =
  http_handle :: "http_clent_handle option"
  ws_sock_fd :: int
  ssl_wrap_hndl :: "nat option"
  ws_secured :: bool
  ws_buf :: "byte list option"
  ws_recv_buf :: "byte list option"
  ws_st :: ws_state
  http_resp_status :: int
  payload_unread_len :: int
  frame_hdr :: "byte list"
  hdr_index :: nat
  hdr_unread_len :: nat
  payload_len_code :: int
  msg_hdr :: websock_msg_hdr

section \<open>Bytes\<close>

definition ntohs :: "byte \<Rightarrow> byte \<Rightarrow> int" where
  "ntohs b0 b1 = uint b0 * 256 + uint b1"

definition ntohl :: "byte list \<Rightarrow> int" where
  "ntohl bs = uint (bs ! 0) * 2 ^ 24 + uint (bs ! 1) * 2 ^ 16 + uint (bs ! 2) * 2 ^ 8 + uint (bs ! 3)"

text \<open>The memory of a 64-bit integer, lowest byte first, and its value.\<close>

definition ll_bytes :: "int \<Rightarrow> byte list" where
  "ll_bytes i = map (\<lambda>k. word_of_int (i div 2 ^ (8 * k))) [0..<8]"

definition s64 :: "int \<Rightarrow> int" where
  "s64 i = sint (word_of_int i :: 64 word)"

definition ll_of_bytes :: "byte list \<Rightarrow> int" where
  "ll_of_bytes bs = s64 (\<Sum>k<8. uint (bs ! k) * 2 ^ (8 * k))"

definition ws_ntohll :: "int \<Rightarrow> int" where
  "ws_ntohll n_num =
     (let p = ll_bytes n_num; h_num = ntohl (take 4 p); h_num = s64 (h_num * 2 ^ 32)
      in s64 (h_num + ntohl (drop 4 p)))"

definition mem_store :: "byte list \<Rightarrow> nat \<Rightarrow> byte list \<Rightarrow> byte list option" where
  "mem_store buf p bs = (if p + length bs \<le> length buf then Some (take p buf @ bs @ drop (p + length bs) buf) else None)"

section \<open>The list of connections\<close>

text \<open>Connections are numbered; the list holds the numbers, the head first.\<close>

definition ws_list_handle_add :: "nat \<Rightarrow> nat list \<Rightarrow> nat list" where
  "ws_list_handle_add h ws_handle_list = h # ws_handle_list"

fun list_unlink :: "nat \<Rightarrow> nat list \<Rightarrow> nat list" where
  "list_unlink h (p # q # ps) = (if q = h then p # ps else p # list_unlink h (q # ps))"
| "list_unlink h ps = ps"

definition ws_list_handle_remove :: "nat \<Rightarrow> nat list \<Rightarrow> nat list" where
  "ws_list_handle_remove h ws_handle_list =
     (case ws_handle_list of
        p # ps \<Rightarrow> if p = h then ps else list_unlink h ws_handle_list
      | [] \<Rightarrow> [])"

lemma list_unlink_remove1: "list_unlink h (p # ps) = p # remove1 h ps"
  by (induction ps arbitrary: p) auto

lemma ws_list_handle_remove_remove1: "ws_list_handle_remove h ps = remove1 h ps"
  by (cases ps) (auto simp: ws_list_handle_remove_def list_unlink_remove1)

definition ws_set_recv_state_to_frame_hdr_receiving :: "ws_handle \<Rightarrow> ws_handle" where
  "ws_set_recv_state_to_frame_hdr_receiving h =
     h\<lparr>ws_st := WS_STATE_HDR_RECEIVING, hdr_unread_len := WS_MIN_HDR_LEN, hdr_index := 0\<rparr>"

text \<open>The fields \<open>fin\<close> and \<open>opcode\<close> of an invalid header are -1.\<close>

definition ws_set_msg_hdr_to_invalid :: websock_msg_hdr where
  "ws_set_msg_hdr_to_invalid = \<lparr>fin = - 1, opcode = - 1, msg_payload_len = 0\<rparr>"

section \<open>Sockets\<close>

definition ws_socket_send :: "'n transport \<Rightarrow> ws_handle \<Rightarrow> byte list \<Rightarrow> 'n \<Rightarrow> int \<times> 'n" where
  "ws_socket_send tr h bs n =
     (if ws_secured h then tr_ssl_write tr (map char_of_byte bs) n else tr_send tr (map char_of_byte bs) n)"

definition ws_socket_recv :: "'n transport \<Rightarrow> ws_handle \<Rightarrow> nat \<Rightarrow> int \<Rightarrow> 'n \<Rightarrow> int \<times> byte list \<times> 'n" where
  "ws_socket_recv tr h len timeout_sec n =
     (if ws_secured h then
        (case tr_ssl_read tr len (timeout_sec * 1000) n of (rcvd_bytes, s, n) \<Rightarrow> (rcvd_bytes, map byte_of s, n))
      else
        case tr_select tr timeout_sec n of (ret, n) \<Rightarrow>
          if ret > 0 then (case tr_recv tr len n of (rcvd_bytes, s, n) \<Rightarrow> (rcvd_bytes, map byte_of s, n))
          else (0, [], n))"

section \<open>Sending\<close>

text \<open>The header in the send buffer: its bytes, whose number is \<open>header_len\<close>.\<close>

definition ws_header :: "ws_opcode \<Rightarrow> bool \<Rightarrow> nat \<Rightarrow> byte list \<Rightarrow> byte list" where
  "ws_header opc is_last payload_len key =
     (if is_last then opcode_val opc + WS_HDR_FIN_BIT else opcode_val opc) #
     (if payload_len < 126 then [word_of_nat payload_len + WS_HDR_MASK_BIT]
      else if payload_len < 65535 then [126 + WS_HDR_MASK_BIT, word_of_nat (payload_len div 256), word_of_nat payload_len]
      else []) @ key"

text \<open>The masking loop on the buffer, a word of four bytes at a time, from \<open>p\<close> while \<open>i\<close> is below the padded length.\<close>

function mask_loop :: "byte list \<Rightarrow> byte list \<Rightarrow> nat \<Rightarrow> nat \<Rightarrow> nat \<Rightarrow> byte list option" where
  "mask_loop key buf p i bound =
     (if i < bound then
        if p + 4 \<le> length buf then
          (case mem_store buf p (map2 (XOR) (take 4 (drop p buf)) key) of
             None \<Rightarrow> None
           | Some buf \<Rightarrow> mask_loop key buf (p + 4) (i + 4) bound)
        else None
      else Some buf)"
  by auto
termination by (relation "measure (\<lambda>(_, _, _, i, bound). bound - i)") auto

declare mask_loop.simps [simp del]

text \<open>
  The loop over the frames of a message: \<open>len\<close> bytes of \<open>data\<close> are left.  Without data only the header is sent.
  The result is what is returned, the buffer and the network.
\<close>

function send_frames ::
    "'n transport \<Rightarrow> ws_handle \<Rightarrow> byte list \<Rightarrow> byte list \<Rightarrow> byte list option \<Rightarrow> int \<Rightarrow> ws_opcode \<Rightarrow> int \<Rightarrow> 'n \<Rightarrow>
     (int \<times> byte list \<times> 'n) option" where
  "send_frames tr h key buf data len opc in_len n =
     (let payload_len = min len (int WS_MAX_FRAME_PAYLOAD) in
      if payload_len < 0 then None
      else
        let len' = len - payload_len;
            hdr = ws_header opc (len' = 0) (nat payload_len) key
        in do { buf \<leftarrow> mem_store buf 0 (replicate WS_MAX_HEADERLEN 0);
                buf \<leftarrow> mem_store buf 0 hdr;
                case data of
                  None \<Rightarrow> (case ws_socket_send tr h (take (length hdr) buf) n of (rval, n) \<Rightarrow> Some (in_len, buf, n))
                | Some bytes \<Rightarrow>
                    if length bytes < nat payload_len then None
                    else
                      do { buf \<leftarrow> mem_store buf (length hdr) (take (nat payload_len) bytes);
                           let word_align_adjust = (if nat payload_len mod 4 \<noteq> 0 then 4 - nat payload_len mod 4 else 0);
                           buf \<leftarrow> mask_loop key buf (length hdr) 0 (nat payload_len + word_align_adjust);
                           (case ws_socket_send tr h (take (nat payload_len + length hdr) buf) n of (rval, n) \<Rightarrow>
                              if rval < 0 then Some (rval, buf, n)
                              else if len' \<noteq> 0
                              then send_frames tr h key buf (Some (drop (nat payload_len) bytes)) len' WS_OPCODE_CONTINUE in_len n
                              else Some (in_len, buf, n)) } })"
  by auto
termination
  by (relation "measure (\<lambda>(_, _, _, _, _, len, _). nat len)") (auto simp: WS_MAX_FRAME_PAYLOAD_def WS_MAX_FRAME_SIZE_def WS_MAX_HEADERLEN_def)

declare send_frames.simps [simp del]

text \<open>The buffer is allocated at the first send; \<open>fresh\<close> is its memory then.\<close>

definition ws_send_internal ::
    "env \<Rightarrow> byte list \<Rightarrow> 'n transport \<Rightarrow> byte list \<Rightarrow> ws_handle \<Rightarrow> byte list option \<Rightarrow> int \<Rightarrow> ws_opcode \<Rightarrow> 'n \<Rightarrow>
     (int \<times> ws_handle \<times> 'n) option" where
  "ws_send_internal e fresh tr key h data len opc n =
     (if ws_buf h = None \<and> \<not> os_alloc e WS_MAX_FRAME_SIZE then Some (- 1, h, n)
      else
        do { let buf = (case ws_buf h of None \<Rightarrow> fresh | Some buf \<Rightarrow> buf);
             (rval, buf, n) \<leftarrow> send_frames tr h key buf data len opc len n;
             Some (rval, h\<lparr>ws_buf := Some buf\<rparr>, n) })"

definition websock_send_text where
  "websock_send_text e fresh tr key h payload len n = ws_send_internal e fresh tr key h payload len WS_OPCODE_TEXT n"

definition websock_send_binary where
  "websock_send_binary e fresh tr key h payload len n = ws_send_internal e fresh tr key h payload len WS_OPCODE_BINARY n"

definition websock_send_ping where
  "websock_send_ping e fresh tr key h payload len n = ws_send_internal e fresh tr key h payload len WS_OPCODE_PING n"

definition websock_send_pong where
  "websock_send_pong e fresh tr key h payload len n = ws_send_internal e fresh tr key h payload len WS_OPCODE_PONG n"

section \<open>Receiving\<close>

text \<open>
  The result of a receive: what is returned, the header for the caller, the caller's buffer, \<open>*len\<close>, the
  handle and the network.
\<close>

type_synonym 'n ws_result = "int \<times> websock_msg_hdr \<times> byte list \<times> nat \<times> ws_handle \<times> 'n"

text \<open>A part of the receiver goes on with the next part, or returns.\<close>

datatype ('x, 'r) flow = Next 'x | Return 'r

definition ws_hdr_fields :: "ws_handle \<Rightarrow> ws_handle" where
  "ws_hdr_fields h = h\<lparr>msg_hdr := (msg_hdr h)\<lparr>fin := (if frame_hdr h ! 0 AND WS_HDR_FIN_BIT \<noteq> 0 then 1 else 0),
     opcode := uint (frame_hdr h ! 0 AND WS_HDR_OPCODE_MASK)\<rparr>\<rparr>"

definition ws_recv_hdr ::
    "'n transport \<Rightarrow> int \<Rightarrow> ws_handle \<Rightarrow> nat \<Rightarrow> 'n \<Rightarrow> ((int \<times> ws_handle \<times> nat \<times> 'n), (int \<times> ws_handle \<times> 'n)) flow option" where
  "ws_recv_hdr tr timeout h len n =
     (if ws_st h = WS_STATE_HDR_RECEIVING then
        let h = (if hdr_unread_len h = 0 then h\<lparr>hdr_unread_len := WS_MIN_HDR_LEN\<rparr> else h) in
        case ws_socket_recv tr h (hdr_unread_len h) timeout n of (nread, bs, n) \<Rightarrow>
          do { mem \<leftarrow> mem_store (frame_hdr h) (hdr_index h) bs;
               let h = h\<lparr>frame_hdr := mem\<rparr>;
               if nread \<le> 0 then Some (Return (nread, h, n))
               else if nread < int (hdr_unread_len h)
               then Some (Return (0, h\<lparr>hdr_unread_len := hdr_unread_len h - nat nread, hdr_index := hdr_index h + nat nread\<rparr>, n))
               else
                 let h = ws_hdr_fields (h\<lparr>hdr_index := hdr_index h + nat nread\<rparr>);
                     payload_len = uint (frame_hdr h ! 1 AND 0x7F)
                 in if payload_len > 125
                    then Some (Next (nread, h\<lparr>payload_len_code := payload_len, hdr_unread_len := (if payload_len = 126 then 2 else 8),
                                              ws_st := WS_STATE_EXND_PL_LEN_RECEIVING\<rparr>, len, n))
                    else
                      let h = h\<lparr>payload_unread_len := payload_len, msg_hdr := (msg_hdr h)\<lparr>msg_payload_len := payload_len\<rparr>,
                                ws_st := WS_STATE_PAYLOAD_RECEIVING\<rparr>
                      in Some (Next (if payload_len = 0
                                     then (nread, ws_set_recv_state_to_frame_hdr_receiving h, 0, n) else (nread, h, len, n))) }
      else Some (Next (0, h, len, n)))"

definition ws_recv_ext_len ::
    "'n transport \<Rightarrow> int \<Rightarrow> int \<times> ws_handle \<times> nat \<times> 'n \<Rightarrow> ((int \<times> ws_handle \<times> nat \<times> 'n), (int \<times> ws_handle \<times> 'n)) flow option" where
  "ws_recv_ext_len tr timeout = (\<lambda>(nread, h, len, n).
     if ws_st h = WS_STATE_EXND_PL_LEN_RECEIVING then
       case ws_socket_recv tr h (hdr_unread_len h) timeout n of (nread, bs, n) \<Rightarrow>
         do { mem \<leftarrow> mem_store (frame_hdr h) (hdr_index h) bs;
              let h = h\<lparr>frame_hdr := mem\<rparr>;
              if nread \<le> 0 then Some (Return (nread, h, n))
              else if nread < int (hdr_unread_len h)
              then Some (Return (0, h\<lparr>hdr_unread_len := hdr_unread_len h - nat nread\<rparr>, n))
              else
                let payload_len = (if payload_len_code h = 126 then ntohs (mem ! 2) (mem ! 3)
                                   else s32 (ws_ntohll (s32 (ll_of_bytes (take 8 (drop 2 mem))))))
                in Some (Next (nread, h\<lparr>payload_unread_len := payload_len, msg_hdr := (msg_hdr h)\<lparr>msg_payload_len := payload_len\<rparr>,
                                        ws_st := WS_STATE_PAYLOAD_RECEIVING\<rparr>, len, n)) }
     else Some (Next (nread, h, len, n)))"

text \<open>
  The payload; the payload of a ping is read away in a loop.  The unread length goes down by the number of bytes
  asked for.  A negative length, asked for as a size, is outside of the caller's buffer.
\<close>

fun ws_recv_payload ::
    "nat \<Rightarrow> 'n transport \<Rightarrow> int \<Rightarrow> byte list \<Rightarrow> int \<times> ws_handle \<times> nat \<times> 'n \<Rightarrow>
     ((int \<times> byte list \<times> ws_handle \<times> nat \<times> 'n), (int \<times> byte list \<times> ws_handle \<times> 'n)) flow outcome" where
  "ws_recv_payload 0 tr timeout buf (nread, h, len, n) = Out_of_fuel"
| "ws_recv_payload (Suc k) tr timeout buf (nread, h, len, n) =
     (if ws_st h = WS_STATE_PAYLOAD_RECEIVING then
        let recv_len = (if int len < payload_unread_len h then int len else payload_unread_len h) in
        if recv_len < 0 then Fault
        else
          case ws_socket_recv tr h (nat recv_len) timeout n of (nread, bs, n) \<Rightarrow>
            case mem_store buf 0 bs of
              None \<Rightarrow> Fault
            | Some buf \<Rightarrow>
                if nread \<le> 0 then Returned (Return (nread, buf, h, n))
                else
                  let h = h\<lparr>payload_unread_len := payload_unread_len h - recv_len\<rparr> in
                  if frame_hdr h ! 0 AND WS_HDR_OPCODE_MASK = opcode_val WS_OPCODE_PING \<and> payload_unread_len h \<noteq> 0
                  then ws_recv_payload k tr timeout buf (nread, h, len, n)
                  else
                    let h = (if payload_unread_len h = 0 then ws_set_recv_state_to_frame_hdr_receiving h else h)
                    in Returned (Next (nread, buf, h, nat recv_len, n))
      else Returned (Next (nread, buf, h, len, n)))"

text \<open>The receiver; \<open>in_buf_len\<close> is \<open>*len\<close> of the caller.  A ping is answered, with
  a masking key of its own (\<open>rnd k\<close>), and the receiver begins again.\<close>

fun ws_recv_internal ::
    "nat \<Rightarrow> env \<Rightarrow> byte list \<Rightarrow> 'n transport \<Rightarrow> (nat \<Rightarrow> byte list) \<Rightarrow> ws_handle \<Rightarrow> byte list \<Rightarrow> nat \<Rightarrow> int \<Rightarrow> 'n \<Rightarrow> 'n ws_result outcome" where
  "ws_recv_internal 0 e fresh tr rnd h buf in_buf_len timeout n = Out_of_fuel"
| "ws_recv_internal (Suc k) e fresh tr rnd h buf in_buf_len timeout n =
     (case ws_recv_hdr tr timeout h in_buf_len n of
        None \<Rightarrow> Fault
      | Some (Return (nread, h, n)) \<Rightarrow> Returned (nread, ws_set_msg_hdr_to_invalid, buf, 0, h, n)
      | Some (Next s) \<Rightarrow>
          case ws_recv_ext_len tr timeout s of
            None \<Rightarrow> Fault
          | Some (Return (nread, h, n)) \<Rightarrow> Returned (nread, ws_set_msg_hdr_to_invalid, buf, 0, h, n)
          | Some (Next s) \<Rightarrow>
              case ws_recv_payload (Suc k) tr timeout buf s of
                Fault \<Rightarrow> Fault
              | Out_of_fuel \<Rightarrow> Out_of_fuel
              | Returned (Return (nread, buf, h, n)) \<Rightarrow> Returned (nread, ws_set_msg_hdr_to_invalid, buf, 0, h, n)
              | Returned (Next (nread, buf, h, len, n)) \<Rightarrow>
                  if opcode (msg_hdr h) = uint (opcode_val WS_OPCODE_PING) then
                    case ws_send_internal e fresh tr (rnd k) h None 0 WS_OPCODE_PONG n of
                      None \<Rightarrow> Fault
                    | Some (_, h, n) \<Rightarrow> ws_recv_internal k e fresh tr rnd h buf in_buf_len timeout n
                  else Returned (nread, msg_hdr h, buf, len, h, n))"

definition websock_recv where
  "websock_recv k e fresh tr rnd h buf len timeout n = ws_recv_internal k e fresh tr rnd h buf len timeout n"

section \<open>Connections\<close>

text \<open>
  The module's variables: the list of connections, the handles by number, and whether \<open>ws_init\<close> has run.
\<close>

record ws_module =
  ws_handle_list :: "nat list"
  ws_handles :: "nat \<Rightarrow> ws_handle"
  ws_init_done :: bool

definition ws_init :: "ws_module \<Rightarrow> ws_module" where
  "ws_init m = (if ws_init_done m then m else m\<lparr>ws_init_done := True, ws_handle_list := []\<rparr>)"

definition ws_fd_to_handle :: "ws_module \<Rightarrow> int \<Rightarrow> nat option" where
  "ws_fd_to_handle m fd = find (\<lambda>p. fd = ws_sock_fd (ws_handles m p)) (ws_handle_list m)"

definition websock_sock_fd_get :: "ws_handle \<Rightarrow> int" where
  "websock_sock_fd_get h = ws_sock_fd h"

definition websock_handle_get :: "ws_module \<Rightarrow> int \<Rightarrow> nat option" where
  "websock_handle_get m fd = ws_fd_to_handle m fd"

text \<open>The table of the poll has sixteen entries.\<close>

definition ws_poll_fds_set :: "ws_module \<Rightarrow> int list option" where
  "ws_poll_fds_set m =
     (if length (ws_handle_list m) > WS_MAX_CONNECTIONS then None
      else Some (map (\<lambda>p. ws_sock_fd (ws_handles m p)) (ws_handle_list m)))"

definition ws_close_intrnal :: "'n transport \<Rightarrow> nat \<Rightarrow> ws_module \<Rightarrow> 'n \<Rightarrow> (ws_module \<times> 'n) option" where
  "ws_close_intrnal tr p m n =
     do { (_, n) \<leftarrow> http_client_close tr (http_handle (ws_handles m p)) n;
          Some (m\<lparr>ws_handle_list := ws_list_handle_remove p (ws_handle_list m)\<rparr>, n) }"

definition websock_close :: "'n transport \<Rightarrow> nat \<Rightarrow> ws_module \<Rightarrow> 'n \<Rightarrow> (ws_module \<times> 'n) option" where
  "websock_close tr p m n = ws_close_intrnal tr p m n"

record websock_config =
  ws_hostname :: "string option"
  ws_port :: int
  ws_uri :: "string option"
  ws_cfg_secured :: bool
  hndshk_hdrs :: "(string \<times> string) list"

definition ws_http_resp_cb :: "int \<Rightarrow> http_client_resp_info \<Rightarrow> int" where
  "ws_http_resp_cb status resp = (if info_status_code resp = 101 then 1 else 0)"

text \<open>A new handle is zeroed memory.\<close>

definition ws_new_handle :: ws_handle where
  "ws_new_handle = \<lparr>http_handle = None, ws_sock_fd = 0, ssl_wrap_hndl = None, ws_secured = False, ws_buf = None,
     ws_recv_buf = None, ws_st = WS_STATE_HDR_RECEIVING, http_resp_status = 0, payload_unread_len = 0,
     frame_hdr = replicate 16 0, hdr_index = 0, hdr_unread_len = WS_MIN_HDR_LEN, payload_len_code = 0,
     msg_hdr = \<lparr>fin = 0, opcode = 0, msg_payload_len = 0\<rparr>\<rparr>"

fun set_req_hdrs :: "env \<Rightarrow> http_clent_handle option \<Rightarrow> (string option \<times> string option) list \<Rightarrow> http_clent_handle option option" where
  "set_req_hdrs e http [] = Some http"
| "set_req_hdrs e http ((name, val) # hdrs) =
     do { (_, http) \<leftarrow> http_client_set_req_hdr e http name val; set_req_hdrs e http hdrs }"

definition ws_handshake_hdrs :: "websock_config \<Rightarrow> (string option \<times> string option) list" where
  "ws_handshake_hdrs cfg =
     [(Some ''Host'', ws_hostname cfg), (Some ''Upgrade'', Some ''websocket''), (Some ''Connection'', Some ''Upgrade''),
      (Some ''Sec-WebSocket-Key'', Some ''dGhlIHNhbXBsZSBub25jZQ==''), (Some ''Sec-WebSocket-Version'', Some ''13'')] @
     map (\<lambda>(name, val). (Some name, Some val)) (hndshk_hdrs cfg)"

text \<open>
  Opening: the number \<open>p\<close> of the new handle (of \<open>sz\<close> bytes) is the caller's choice of a free one.  Without a
  connection the result has no handle, and the HTTP handle is not closed.
\<close>

definition websock_open ::
    "nat \<Rightarrow> env \<Rightarrow> nat \<Rightarrow> string \<Rightarrow> 'n transport \<Rightarrow> nat \<Rightarrow> websock_config \<Rightarrow> ws_module \<Rightarrow> 'n \<Rightarrow> (nat option \<times> ws_module \<times> 'n) outcome" where
  "websock_open k e sz fresh tr p cfg m n =
     (let m = ws_init m in
      if \<not> os_alloc e sz then Returned (None, m, n)
      else
        case http_client_open e tr (Some \<lparr>cfg_hostname = ws_hostname cfg, cfg_port = ws_port cfg, cfg_secured = ws_cfg_secured cfg\<rparr>) n of
          None \<Rightarrow> Fault
        | Some (None, n) \<Rightarrow> Returned (None, m, n)
        | Some (Some http, n) \<Rightarrow>
            case set_req_hdrs e (Some http) (ws_handshake_hdrs cfg) of
              None \<Rightarrow> Fault
            | Some http \<Rightarrow>
                case http_client_get k e fresh tr ws_http_resp_cb http (ws_uri cfg) 300 0 n of
                  Fault \<Rightarrow> Fault
                | Out_of_fuel \<Rightarrow> Out_of_fuel
                | Returned (rval, http, status, n) \<Rightarrow>
                    if rval < 0 \<or> status = 0 then Returned (None, m, n)
                    else
                      let h = ws_new_handle\<lparr>http_handle := http, http_resp_status := status, ws_secured := ws_cfg_secured cfg,
                                ssl_wrap_hndl := (if ws_cfg_secured cfg then http_client_ssl_context_get http else None),
                                ws_sock_fd := http_client_sock_fd_get tr http\<rparr>
                      in Returned (Some p, m\<lparr>ws_handles := (ws_handles m)(p := h),
                                             ws_handle_list := ws_list_handle_add p (ws_handle_list m)\<rparr>, n))"

section \<open>The polling thread\<close>

datatype websock_cb_event = WEBSOCK_CB_EVENT_DATA | WEBSOCK_CB_EVENT_ERROR

type_synonym 'c ws_event_handler =
  "'c \<Rightarrow> nat \<Rightarrow> websock_cb_event \<Rightarrow> websock_msg_hdr \<Rightarrow> byte list option \<Rightarrow> nat \<Rightarrow> 'c"

text \<open>
  The loop on one readable connection: the length left by one receive is the length the next one may use.  The
  flag tells that the connection is to be closed.
\<close>

fun ws_event_recv ::
    "nat \<Rightarrow> env \<Rightarrow> byte list \<Rightarrow> 'n transport \<Rightarrow> (nat \<Rightarrow> byte list) \<Rightarrow> 'c ws_event_handler \<Rightarrow> nat \<Rightarrow> ws_handle \<Rightarrow> byte list \<Rightarrow> nat \<Rightarrow>
     'c \<Rightarrow> 'n \<Rightarrow> (bool \<times> ws_handle \<times> 'c \<times> 'n) outcome" where
  "ws_event_recv 0 e fresh tr rnd cb p h buf len c n = Out_of_fuel"
| "ws_event_recv (Suc k) e fresh tr rnd cb p h buf len c n =
     (case ws_recv_internal (Suc k) e fresh tr rnd h buf len 0 n of
        Fault \<Rightarrow> Fault
      | Out_of_fuel \<Rightarrow> Out_of_fuel
      | Returned (rbytes, hdr, buf, len, h, n) \<Rightarrow>
          let h = h\<lparr>ws_recv_buf := Some buf\<rparr> in
          if rbytes < 0 then Returned (True, h, cb c p WEBSOCK_CB_EVENT_ERROR hdr None len, n)
          else
            let c = (if opcode hdr \<ge> 0 then cb c p WEBSOCK_CB_EVENT_DATA hdr (Some buf) len else c)
            in if rbytes > 0 then ws_event_recv k e fresh tr rnd cb p h buf len c n
               else Returned (False, h, c, n))"

text \<open>The connections of the table, with the result \<open>POLLIN\<close> of the poll; \<open>rbuf\<close> is the memory of a new receive buffer.\<close>

fun ws_event_conns ::
    "nat \<Rightarrow> env \<Rightarrow> byte list \<Rightarrow> byte list \<Rightarrow> (int \<Rightarrow> 'n transport) \<Rightarrow> (nat \<Rightarrow> byte list) \<Rightarrow> 'c ws_event_handler \<Rightarrow> (int \<times> bool) list \<Rightarrow>
     ws_module \<Rightarrow> 'c \<Rightarrow> 'n \<Rightarrow> (ws_module \<times> 'c \<times> 'n) outcome" where
  "ws_event_conns k e fresh rbuf trs rnd cb [] m c n = Returned (m, c, n)"
| "ws_event_conns k e fresh rbuf trs rnd cb ((fd, pollin) # fds) m c n =
     (if \<not> pollin then ws_event_conns k e fresh rbuf trs rnd cb fds m c n
      else
        case ws_fd_to_handle m fd of
          None \<Rightarrow> Fault
        | Some p \<Rightarrow>
            let h = ws_handles m p in
            if ws_recv_buf h = None \<and> \<not> os_alloc e WS_MAX_RECV_BUF_LEN
            then ws_event_conns k e fresh rbuf trs rnd cb fds m c n
            else
              case ws_event_recv k e fresh (trs fd) rnd cb p h (case ws_recv_buf h of None \<Rightarrow> rbuf | Some b \<Rightarrow> b)
                  WS_MAX_RECV_BUF_LEN c n of
                Fault \<Rightarrow> Fault
              | Out_of_fuel \<Rightarrow> Out_of_fuel
              | Returned (closing, h, c, n) \<Rightarrow>
                  let m = m\<lparr>ws_handles := (ws_handles m)(p := h)\<rparr> in
                  if closing then
                    case ws_close_intrnal (trs fd) p m n of
                      None \<Rightarrow> Fault
                    | Some (m, n) \<Rightarrow> ws_event_conns k e fresh rbuf trs rnd cb fds m c n
                  else ws_event_conns k e fresh rbuf trs rnd cb fds m c n)"

text \<open>One poll message; \<open>poll\<close> gives its result and, for every descriptor, whether it is readable.\<close>

definition ws_event_thread_entry ::
    "nat \<Rightarrow> env \<Rightarrow> byte list \<Rightarrow> byte list \<Rightarrow> (int list \<Rightarrow> 'n \<Rightarrow> int \<times> (int \<Rightarrow> bool) \<times> 'n) \<Rightarrow> (int \<Rightarrow> 'n transport) \<Rightarrow> (nat \<Rightarrow> byte list) \<Rightarrow>
     'c ws_event_handler \<Rightarrow> ws_module \<Rightarrow> 'c \<Rightarrow> 'n \<Rightarrow> (ws_module \<times> 'c \<times> 'n) outcome" where
  "ws_event_thread_entry k e fresh rbuf poll trs rnd cb m c n =
     (case ws_poll_fds_set m of
        None \<Rightarrow> Fault
      | Some fds \<Rightarrow>
          case poll fds n of (ret, readable, n) \<Rightarrow>
            if ret = 0 then Returned (m, c, n)
            else ws_event_conns k e fresh rbuf trs rnd cb (map (\<lambda>fd. (fd, readable fd)) fds) m c n)"

end
