(* ===== verification/Websock_Frames.thy ===== *)
theory Websock_Frames
  imports Websock
begin

unbundle bit_operations_syntax

text \<open>
  Theorems on the WebSocket client (components/websocket/src/websock.c).  A message goes out as the frames of
  RFC 6455, which a reader of that format, written here on lists and as strict as the standard, takes back to the
  message; a control message of more than 125 bytes goes out as well and is refused.  Frames of a server that
  come in whole are read with their header and payload, and pings in between are answered.  Frames with a
  64-bit length are not: the receiver stays stuck on them.
\<close>

section \<open>Masking\<close>

definition mask_bytes :: "byte list \<Rightarrow> byte list \<Rightarrow> byte list" where
  "mask_bytes key bs = map (\<lambda>i. bs ! i XOR key ! (i mod 4)) [0..<length bs]"

lemma length_mask_bytes [simp]: "length (mask_bytes key bs) = length bs"
  by (simp add: mask_bytes_def)

lemma mask_bytes_twice [simp]: "mask_bytes key (mask_bytes key bs) = bs"
  by (rule nth_equalityI) (simp_all add: mask_bytes_def xor.assoc)

lemma mask_bytes_append_4:
  assumes "length xs = 4" "length key = 4"
  shows "mask_bytes key (xs @ ys) = map2 (XOR) xs key @ mask_bytes key ys"
proof (rule nth_equalityI)
  fix i assume i: "i < length (mask_bytes key (xs @ ys))"
  show "mask_bytes key (xs @ ys) ! i = (map2 (XOR) xs key @ mask_bytes key ys) ! i"
  proof (cases "i < 4")
    case False
    then have "(i - 4) mod 4 = i mod 4" by (metis le_mod_geq not_less)
    moreover have "i - 4 < length ys" using False i assms(1) by auto
    ultimately show ?thesis using False i assms by (simp add: mask_bytes_def nth_append)
  qed (use i assms in \<open>simp add: mask_bytes_def nth_append\<close>)
qed (use assms in simp)

lemma mask_bytes_take: "n \<le> length bs \<Longrightarrow> mask_bytes key (take n bs) = take n (mask_bytes key bs)"
  by (rule nth_equalityI) (simp_all add: mask_bytes_def)

text \<open>The loop on the buffer masks the bytes from \<open>p\<close> on and leaves the others.\<close>

lemma mask_loop_ok:
  assumes "length key = 4" "length ws = bound - i" "4 dvd bound - i"
  shows "mask_loop key (pre @ ws @ post) (length pre) i bound = Some (pre @ mask_bytes key ws @ post)"
  using assms(2,3)
proof (induction "bound - i" arbitrary: i pre ws rule: less_induct)
  case less
  show ?case
  proof (cases "i < bound")
    case False
    then show ?thesis using less.prems by (subst mask_loop.simps) (simp add: mask_bytes_def)
  next
    case True
    then obtain q where q: "bound - i = 4 + q" "4 dvd q"
      using less.prems(2) by (metis Nat.le_imp_diff_is_add add.commute dvd_diff_nat dvd_imp_le dvd_refl zero_less_diff)
    let ?x = "take 4 ws" and ?y = "drop 4 ws"
    have j: "bound - (i + 4) = q" using q(1) by simp
    have x: "length ?x = 4" "ws = ?x @ ?y" "length ?y = q" using less.prems(1) q by simp_all
    have m: "mask_bytes key ws = map2 (XOR) ?x key @ mask_bytes key ?y"
      using mask_bytes_append_4 [OF x(1) assms(1), of ?y] x(2) by simp
    have "mask_loop key ((pre @ map2 (XOR) ?x key) @ ?y @ post) (length (pre @ map2 (XOR) ?x key)) (i + 4) bound =
        Some ((pre @ map2 (XOR) ?x key) @ mask_bytes key ?y @ post)"
      using less.hyps [of "i + 4" ?y "pre @ map2 (XOR) ?x key"] q x(3) j by simp
    then show ?thesis
      using True x assms(1) m less.prems(1) q
      by (subst mask_loop.simps) (simp add: mem_store_def)
  qed
qed

section \<open>The frames of a message\<close>

definition client_frame :: "byte list \<Rightarrow> ws_opcode \<Rightarrow> bool \<Rightarrow> byte list \<Rightarrow> byte list" where
  "client_frame key opc is_last payload = ws_header opc is_last (length payload) key @ mask_bytes key payload"

function client_frames :: "byte list \<Rightarrow> ws_opcode \<Rightarrow> byte list \<Rightarrow> byte list list" where
  "client_frames key opc data =
     (if length data \<le> WS_MAX_FRAME_PAYLOAD then [client_frame key opc True data]
      else client_frame key opc False (take WS_MAX_FRAME_PAYLOAD data) #
        client_frames key WS_OPCODE_CONTINUE (drop WS_MAX_FRAME_PAYLOAD data))"
  by auto
termination
  by (relation "measure (\<lambda>(_, _, data). length data)")
    (auto simp: WS_MAX_FRAME_PAYLOAD_def WS_MAX_FRAME_SIZE_def WS_MAX_HEADERLEN_def)

declare client_frames.simps [simp del]

text \<open>The writes of a list of frames all succeed.\<close>

fun frames_sent :: "'n transport \<Rightarrow> ws_handle \<Rightarrow> byte list list \<Rightarrow> 'n \<Rightarrow> 'n \<Rightarrow> bool" where
  "frames_sent tr h [] n n' \<longleftrightarrow> n = n'"
| "frames_sent tr h (f # fs) n n' \<longleftrightarrow> (\<exists>rval n1. ws_socket_send tr h f n = (rval, n1) \<and> 0 \<le> rval \<and> frames_sent tr h fs n1 n')"

lemma WS_MAX_FRAME_PAYLOAD_eq [simp]: "WS_MAX_FRAME_PAYLOAD = 1452"
  by (simp add: WS_MAX_FRAME_PAYLOAD_def WS_MAX_FRAME_SIZE_def WS_MAX_HEADERLEN_def)

lemma length_ws_header:
  "length key = 4 \<Longrightarrow> l \<le> 1452 \<Longrightarrow> length (ws_header opc b l key) = (if l < 126 then 6 else 8)"
  by (simp add: ws_header_def)

lemma length_client_frame: "length key = 4 \<Longrightarrow> length pl \<le> 1452 \<Longrightarrow> length (client_frame key opc b pl) \<le> WS_MAX_FRAME_SIZE"
  by (simp add: client_frame_def length_ws_header WS_MAX_FRAME_SIZE_def)

text \<open>One frame in the send buffer: header, payload, mask.\<close>

lemma frame_in_buffer:
  fixes opc :: ws_opcode and b :: bool
  assumes "length key = 4" "length buf = WS_MAX_FRAME_SIZE" "length pl \<le> 1452"
  defines "hdr \<equiv> ws_header opc b (length pl) key"
  defines "adj \<equiv> (if length pl mod 4 \<noteq> 0 then 4 - length pl mod 4 else 0)"
  shows "\<exists>buf1 buf2 buf3 buf4. mem_store buf 0 (replicate WS_MAX_HEADERLEN 0) = Some buf1 \<and> mem_store buf1 0 hdr = Some buf2 \<and>
    mem_store buf2 (length hdr) pl = Some buf3 \<and> mask_loop key buf3 (length hdr) 0 (length pl + adj) = Some buf4 \<and>
    length buf4 = WS_MAX_FRAME_SIZE \<and> take (length pl + length hdr) buf4 = client_frame key opc b pl"
proof -
  have hl: "length hdr = (if length pl < 126 then 6 else 8)" using assms(1,3) by (simp add: hdr_def length_ws_header)
  have dv: "4 dvd length pl + adj" by (simp add: adj_def) presburger
  have "adj < 4" by (simp add: adj_def)
  then have "length pl + adj \<le> 1452" using dv assms(3) by presburger
  then have fits: "length hdr + (length pl + adj) \<le> 1460" using hl by simp
  obtain B where B: "mem_store buf 0 (replicate WS_MAX_HEADERLEN 0) = Some B" "length B = 1460"
    using assms(2) by (simp add: mem_store_def WS_MAX_FRAME_SIZE_def WS_MAX_HEADERLEN_def)
  define C where "C = drop (length hdr) B"
  define D where "D = drop (length pl) C"
  have C: "mem_store B 0 hdr = Some (hdr @ C)" "length C = 1460 - length hdr"
    using fits B(2) by (simp_all add: mem_store_def C_def)
  have D: "mem_store (hdr @ C) (length hdr) pl = Some (hdr @ pl @ D)" "adj \<le> length D"
    using fits C(2) by (simp_all add: mem_store_def D_def)
  have "length (pl @ take adj D) = length pl + adj" using D(2) by simp
  then have M: "mask_loop key (hdr @ pl @ D) (length hdr) 0 (length pl + adj) =
      Some (hdr @ mask_bytes key (pl @ take adj D) @ drop adj D)"
    using mask_loop_ok [OF assms(1), of "pl @ take adj D" "length pl + adj" 0 hdr "drop adj D"] dv by simp
  have "take (length pl + length hdr) (hdr @ mask_bytes key (pl @ take adj D) @ drop adj D) = client_frame key opc b pl"
    using mask_bytes_take [of "length pl" "pl @ take adj D" key] by (simp add: client_frame_def hdr_def)
  moreover have "length (hdr @ mask_bytes key (pl @ take adj D) @ drop adj D) = WS_MAX_FRAME_SIZE"
    using D(2) C(2) fits by (simp add: D_def WS_MAX_FRAME_SIZE_def)
  ultimately show ?thesis using B(1) C(1) D(1) M by auto
qed

lemma send_frames_step:
  assumes "length key = 4" "length buf = WS_MAX_FRAME_SIZE"
  shows "\<exists>buf'. length buf' = WS_MAX_FRAME_SIZE \<and>
    send_frames tr h key buf (Some data) (int (length data)) opc in_len n =
      (case ws_socket_send tr h (client_frame key opc (length data \<le> 1452) (take 1452 data)) n of (rval, n) \<Rightarrow>
         if rval < 0 then Some (rval, buf', n)
         else if length data \<le> 1452 then Some (in_len, buf', n)
         else send_frames tr h key buf' (Some (drop 1452 data)) (int (length (drop 1452 data))) WS_OPCODE_CONTINUE in_len n)"
proof -
  let ?pl = "take 1452 data" and ?last = "length data \<le> 1452"
  have pl: "length ?pl \<le> 1452" by simp
  obtain buf1 buf2 buf3 buf4 where b: "mem_store buf 0 (replicate WS_MAX_HEADERLEN 0) = Some buf1"
      "mem_store buf1 0 (ws_header opc ?last (length ?pl) key) = Some buf2"
      "mem_store buf2 (length (ws_header opc ?last (length ?pl) key)) ?pl = Some buf3"
      "mask_loop key buf3 (length (ws_header opc ?last (length ?pl) key)) 0
         (length ?pl + (if length ?pl mod 4 \<noteq> 0 then 4 - length ?pl mod 4 else 0)) = Some buf4"
      "length buf4 = WS_MAX_FRAME_SIZE"
      "take (length ?pl + length (ws_header opc ?last (length ?pl) key)) buf4 = client_frame key opc ?last ?pl"
    using frame_in_buffer [OF assms pl, of opc ?last] by blast
  have c: "nat (min (int (length data)) (int WS_MAX_FRAME_PAYLOAD)) = length ?pl"
      "(int (length data) - min (int (length data)) (int WS_MAX_FRAME_PAYLOAD) = 0) = ?last"
      "\<not> min (int (length data)) (int WS_MAX_FRAME_PAYLOAD) < 0" "\<not> length data < length ?pl"
      "take (length ?pl) data = ?pl"
    by (auto simp: min_def)
  have d: "drop (length ?pl) data = drop 1452 data"
      "\<not> ?last \<Longrightarrow> int (length data) - min (int (length data)) (int WS_MAX_FRAME_PAYLOAD) = int (length (drop 1452 data))"
    by (auto simp: min_def)
  have "send_frames tr h key buf (Some data) (int (length data)) opc in_len n =
      (case ws_socket_send tr h (client_frame key opc ?last ?pl) n of (rval, n) \<Rightarrow>
         if rval < 0 then Some (rval, buf4, n)
         else if \<not> ?last
         then send_frames tr h key buf4 (Some (drop 1452 data))
           (int (length data) - min (int (length data)) (int WS_MAX_FRAME_PAYLOAD)) WS_OPCODE_CONTINUE in_len n
         else Some (in_len, buf4, n))"
    by (subst send_frames.simps) (simp only: Let_def c b d option.case if_False bind.bind_lunit)
  then have "send_frames tr h key buf (Some data) (int (length data)) opc in_len n =
      (case ws_socket_send tr h (client_frame key opc ?last ?pl) n of (rval, n) \<Rightarrow>
         if rval < 0 then Some (rval, buf4, n)
         else if ?last then Some (in_len, buf4, n)
         else send_frames tr h key buf4 (Some (drop 1452 data)) (int (length (drop 1452 data))) WS_OPCODE_CONTINUE in_len n)"
    using d(2) by (auto split: prod.splits)
  with b(5) show ?thesis by blast
qed

lemma send_frames_ok:
  assumes "length key = 4" "length buf = WS_MAX_FRAME_SIZE" "frames_sent tr h (client_frames key opc data) n n'"
  shows "\<exists>buf'. length buf' = WS_MAX_FRAME_SIZE \<and>
    send_frames tr h key buf (Some data) (int (length data)) opc in_len n = Some (in_len, buf', n')"
  using assms(2,3)
proof (induction "length data" arbitrary: data buf opc n rule: less_induct)
  case less
  from send_frames_step [OF assms(1) less.prems(1), of tr h data opc in_len n] obtain buf4
    where b: "length buf4 = WS_MAX_FRAME_SIZE" "send_frames tr h key buf (Some data) (int (length data)) opc in_len n =
      (case ws_socket_send tr h (client_frame key opc (length data \<le> 1452) (take 1452 data)) n of (rval, n) \<Rightarrow>
         if rval < 0 then Some (rval, buf4, n)
         else if length data \<le> 1452 then Some (in_len, buf4, n)
         else send_frames tr h key buf4 (Some (drop 1452 data)) (int (length (drop 1452 data))) WS_OPCODE_CONTINUE in_len n)"
    by blast
  show ?case
  proof (cases "length data \<le> 1452")
    case True
    then obtain rval where "ws_socket_send tr h (client_frame key opc True data) n = (rval, n')" "0 \<le> rval"
      using less.prems(2) by (subst (asm) client_frames.simps) auto
    then show ?thesis using True b by simp
  next
    case False
    then obtain rval n1 where s: "ws_socket_send tr h (client_frame key opc False (take 1452 data)) n = (rval, n1)" "0 \<le> rval"
        "frames_sent tr h (client_frames key WS_OPCODE_CONTINUE (drop 1452 data)) n1 n'"
      using less.prems(2) by (subst (asm) client_frames.simps) auto
    have "length (drop 1452 data) < length data" using False by simp
    from less.hyps [OF this b(1) s(3)] show ?thesis using False b(2) s(1,2) by simp
  qed
qed

section \<open>A reader of RFC 6455\<close>

text \<open>
  A frame from a client as section 5.2 of RFC 6455 has it: opcode, end flag, payload and what is behind the frame.
  The reader refuses what the standard forbids: reserved bits, reserved opcodes, a payload without mask, a length that is
  not in its shortest form, and a control frame that is fragmented or longer than 125 bytes.
\<close>

definition be_nat :: "byte list \<Rightarrow> nat" where
  "be_nat bs = foldl (\<lambda>a b. a * 256 + unat b) 0 bs"

definition rfc_len :: "nat \<Rightarrow> byte list \<Rightarrow> (nat \<times> byte list) option" where
  "rfc_len l r =
     (if l < 126 then Some (l, r)
      else if l = 126 then
        (if length r < 2 \<or> be_nat (take 2 r) < 126 then None else Some (be_nat (take 2 r), drop 2 r))
      else if length r < 8 \<or> be_nat (take 8 r) < 2 ^ 16 \<or> 2 ^ 63 \<le> be_nat (take 8 r) then None
      else Some (be_nat (take 8 r), drop 8 r))"

definition rfc_frame :: "byte list \<Rightarrow> (byte \<times> bool \<times> byte list \<times> byte list) option" where
  "rfc_frame bs =
     (case bs of
        b0 # b1 # r \<Rightarrow>
          (let opc = b0 AND 0x0F; is_last = (b0 AND 0x80 \<noteq> 0); l = unat (b1 AND 0x7F) in
           if b0 AND 0x70 \<noteq> 0 \<or> opc \<notin> {0, 1, 2, 8, 9, 10} \<or> b1 AND 0x80 = 0 \<or> 8 \<le> opc \<and> (\<not> is_last \<or> 125 < l) then None
           else
             do { (len, r) \<leftarrow> rfc_len l r;
                  if length r < 4 + len then None
                  else Some (opc, is_last, mask_bytes (take 4 r) (take len (drop 4 r)), drop (4 + len) r) })
      | _ \<Rightarrow> None)"

text \<open>
  A message as section 5.4 has it: one frame with the end flag, or a first frame without it, then continuation frames up
  to the one with the end flag.  A message never starts with a continuation.  (The standard lets control frames come
  between the fragments of a message; this client writes a message in one call and puts none there.)  Every frame takes at
  least six bytes, so that the number of bytes bounds the number of frames.
\<close>

fun rfc_continuations :: "nat \<Rightarrow> byte list \<Rightarrow> (byte list \<times> byte list) option" where
  "rfc_continuations 0 bs = None"
| "rfc_continuations (Suc k) bs =
     do { (opc, is_last, payload, rest) \<leftarrow> rfc_frame bs;
          if opc \<noteq> 0 then None
          else if is_last then Some (payload, rest)
          else do { (payload', rest') \<leftarrow> rfc_continuations k rest; Some (payload @ payload', rest') } }"

definition rfc_message :: "byte list \<Rightarrow> (byte \<times> byte list \<times> byte list) option" where
  "rfc_message bs =
     do { (opc, is_last, payload, rest) \<leftarrow> rfc_frame bs;
          if opc = 0 then None
          else if is_last then Some (opc, payload, rest)
          else do { (payload', rest') \<leftarrow> rfc_continuations (length rest) rest; Some (opc, payload @ payload', rest') } }"

lemma length_byte_all:
  "list_all (\<lambda>l. uint ((word_of_nat l + 0x80 :: byte) AND 0x7F) = int l \<and> (word_of_nat l + 0x80 :: byte) AND 0x80 \<noteq> 0 \<and>
     uint ((word_of_nat l :: byte) AND 0x7F) = int l) [0..<128]"
  by code_simp

lemma length_byte:
  assumes "l < 128"
  shows "uint ((word_of_nat l + 0x80 :: byte) AND 0x7F) = int l" "(word_of_nat l + 0x80 :: byte) AND 0x80 \<noteq> 0"
    "uint ((word_of_nat l :: byte) AND 0x7F) = int l" "unat ((word_of_nat l + 0x80 :: byte) AND 0x7F) = l"
  using length_byte_all assms by (auto simp: list_all_iff unat_eq_nat_uint)

lemma opcode_byte:
  "opcode_val opc AND 0x0F = opcode_val opc" "(opcode_val opc + 0x80) AND 0x0F = opcode_val opc"
  "opcode_val opc AND 0x80 = 0" "(opcode_val opc + 0x80) AND 0x80 \<noteq> 0"
  "opcode_val opc AND 0x70 = 0" "(opcode_val opc + 0x80) AND 0x70 = 0"
  by (cases opc; simp)+

text \<open>What a client may send: data of any length, control messages of at most 125 bytes.\<close>

definition ws_control :: "ws_opcode \<Rightarrow> bool" where
  "ws_control opc \<longleftrightarrow> opc \<in> {WS_OPCODE_CLOSE, WS_OPCODE_PING, WS_OPCODE_PONG}"

definition ws_sendable :: "ws_opcode \<Rightarrow> byte list \<Rightarrow> bool" where
  "ws_sendable opc data \<longleftrightarrow>
     opc \<in> {WS_OPCODE_TEXT, WS_OPCODE_BINARY} \<or> ws_control opc \<and> length data \<le> 125"

lemma opcode_legal:
  "opcode_val opc \<in> {0, 1, 2, 8, 9, 10} \<longleftrightarrow> opc \<noteq> WS_OPCODE_INVALID"
  "opc \<noteq> WS_OPCODE_INVALID \<Longrightarrow> 8 \<le> opcode_val opc \<longleftrightarrow> ws_control opc"
proof -
  show "opcode_val opc \<in> {0, 1, 2, 8, 9, 10} \<longleftrightarrow> opc \<noteq> WS_OPCODE_INVALID" by (cases opc) simp_all
  show "8 \<le> opcode_val opc \<longleftrightarrow> ws_control opc" if "opc \<noteq> WS_OPCODE_INVALID"
    using that by (cases opc) (simp_all add: ws_control_def word_le_nat_alt)
qed

lemma rfc_frame_client:
  assumes "length key = 4" "length pl \<le> 1452" "opc \<noteq> WS_OPCODE_INVALID"
  shows "rfc_frame (client_frame key opc b pl @ rest) =
    (if ws_control opc \<and> (\<not> b \<or> 125 < length pl) then None else Some (opcode_val opc, b, pl, rest))"
proof -
  have k: "take 4 (key @ mask_bytes key pl @ rest) = key"
      "mask_bytes key (take (length pl) (drop 4 (key @ mask_bytes key pl @ rest))) = pl"
      "drop (4 + length pl) (key @ mask_bytes key pl @ rest) = rest"
    using assms(1) by simp_all
  note hdr = client_frame_def ws_header_def rfc_frame_def rfc_len_def WS_HDR_FIN_BIT_def WS_HDR_MASK_BIT_def Let_def
  note opc = opcode_byte [of opc] opcode_legal(1) [of opc] opcode_legal(2) [OF assms(3)]
  show ?thesis
  proof (cases "length pl < 126")
    case True
    then show ?thesis
      using length_byte [of "length pl"] k assms(1,3) opc by (auto simp: hdr simp del: insert_iff)
  next
    case False
    have "be_nat [word_of_nat (length pl div 256), word_of_nat (length pl)] = length pl"
      using assms(2) by (simp add: be_nat_def unat_of_nat)
    moreover have "unat ((126 + 0x80 :: byte) AND 0x7F) = 126" "(126 + 0x80 :: byte) AND 0x80 \<noteq> 0" by simp_all
    ultimately show ?thesis
      using False k assms opc by (auto simp: hdr simp del: insert_iff)
  qed
qed

lemma client_frames_fuel: "length key = 4 \<Longrightarrow> length (client_frames key opc data) \<le> length (concat (client_frames key opc data))"
proof (induction "length data" arbitrary: opc data rule: less_induct)
  case less
  show ?case
  proof (cases "length data \<le> 1452")
    case True
    then show ?thesis using less.prems by (simp add: client_frames.simps [of key opc data] client_frame_def length_ws_header)
  next
    case False
    then have "length (drop 1452 data) < length data" by simp
    from less.hyps [OF this less.prems, of WS_OPCODE_CONTINUE] show ?thesis
      using False less.prems by (simp add: client_frames.simps [of key opc data] client_frame_def length_ws_header)
  qed
qed

lemma rfc_continuations_client:
  assumes "length key = 4" "length (client_frames key WS_OPCODE_CONTINUE data) \<le> k"
  shows "rfc_continuations k (concat (client_frames key WS_OPCODE_CONTINUE data) @ rest) = Some (data, rest)"
  using assms(2)
proof (induction k arbitrary: data)
  case 0
  then show ?case by (simp add: client_frames.simps [of key _ data] split: if_splits)
next
  case (Suc k)
  note frame = rfc_frame_client [OF assms(1), where opc = WS_OPCODE_CONTINUE]
  show ?case
  proof (cases "length data \<le> 1452")
    case True
    then show ?thesis
      using frame [of data True rest] by (simp add: client_frames.simps [of key _ data] ws_control_def)
  next
    case False
    then show ?thesis
      using Suc frame [of "take 1452 data" False "concat (client_frames key WS_OPCODE_CONTINUE (drop 1452 data)) @ rest"]
      by (simp add: client_frames.simps [of key _ data] ws_control_def)
  qed
qed

lemma rfc_message_client:
  assumes "length key = 4" "ws_sendable opc data"
  shows "rfc_message (concat (client_frames key opc data) @ rest) = Some (opcode_val opc, data, rest)"
proof -
  have opc: "opc \<noteq> WS_OPCODE_INVALID" "opcode_val opc \<noteq> 0" "ws_control opc \<Longrightarrow> length data \<le> 125"
    using assms(2) by (auto simp: ws_sendable_def ws_control_def)
  note frame = rfc_frame_client [OF assms(1) _ opc(1)]
  show ?thesis
  proof (cases "length data \<le> 1452")
    case True
    then show ?thesis
      using opc frame [of data True rest] by (auto simp: client_frames.simps [of key opc data] rfc_message_def)
  next
    case False
    let ?more = "concat (client_frames key WS_OPCODE_CONTINUE (drop 1452 data)) @ rest"
    have "rfc_continuations (length ?more) ?more = Some (drop 1452 data, rest)"
      using client_frames_fuel [OF assms(1), of WS_OPCODE_CONTINUE "drop 1452 data"]
      by (intro rfc_continuations_client [OF assms(1)]) simp
    then show ?thesis
      using False opc frame [of "take 1452 data" False ?more]
      by (auto simp: client_frames.simps [of key opc data] rfc_message_def)
  qed
qed

text \<open>The client does not check the length of a control message: a longer one goes out as a frame or frames that the
  standard forbids.\<close>

lemma ws_long_control_illegal:
  assumes "length key = 4" "ws_control opc" "125 < length data"
  shows "rfc_message (concat (client_frames key opc data) @ rest) = None"
proof -
  have opc: "opc \<noteq> WS_OPCODE_INVALID" using assms(2) by (auto simp: ws_control_def)
  show ?thesis
    using rfc_frame_client [OF assms(1) _ opc, of data True rest] assms(2,3)
      rfc_frame_client [OF assms(1) _ opc, of "take 1452 data" False "concat (client_frames key WS_OPCODE_CONTINUE (drop 1452 data)) @ rest"]
    by (simp add: client_frames.simps [of key opc data] rfc_message_def)
qed

lemma length_client_frames:
  "length key = 4 \<Longrightarrow> f \<in> set (client_frames key opc data) \<Longrightarrow> length f \<le> WS_MAX_FRAME_SIZE"
proof (induction "length data" arbitrary: opc data rule: less_induct)
  case less
  show ?case
  proof (cases "length data \<le> 1452")
    case True
    then show ?thesis using less.prems length_client_frame by (simp add: client_frames.simps [of key opc data])
  next
    case False
    then have "length (drop 1452 data) < length data" by simp
    with less.hyps [OF this less.prems(1), of WS_OPCODE_CONTINUE] show ?thesis
      using less.prems False length_client_frame [of key "take 1452 data" opc False] by (auto simp: client_frames.simps [of key opc data])
  qed
qed

text \<open>
  Property C36.  Sending text or binary data of any length, or a control message of at most 125 bytes: on a connection
  that takes the writes, the message goes out as frames of at most 1460 bytes, without an access outside of the send
  buffer, and the length of the data is returned.  A reader of RFC 6455 accepts the bytes on the wire and gets the message
  back: the opcode it was sent with and the unmasked data, whatever the masking key, and nothing of what follows.
\<close>

theorem ws_send_decodes:
  assumes "length key = 4" "ws_buf h = None \<longrightarrow> os_alloc e WS_MAX_FRAME_SIZE \<and> length fresh = WS_MAX_FRAME_SIZE"
    and "\<forall>buf. ws_buf h = Some buf \<longrightarrow> length buf = WS_MAX_FRAME_SIZE"
    and "frames = client_frames key opc data" "frames_sent tr h frames n n'" "ws_sendable opc data"
  shows "(\<exists>h'. ws_send_internal e fresh tr key h (Some data) (int (length data)) opc n = Some (int (length data), h', n')) \<and>
    (\<forall>f \<in> set frames. length f \<le> WS_MAX_FRAME_SIZE) \<and>
    rfc_message (concat frames @ rest) = Some (opcode_val opc, data, rest)"
proof -
  define buf where "buf = (case ws_buf h of None \<Rightarrow> fresh | Some buf \<Rightarrow> buf)"
  have "length buf = WS_MAX_FRAME_SIZE" using assms(2,3) by (simp add: buf_def split: option.split)
  from send_frames_ok [OF assms(1) this, of tr h opc data n n' "int (length data)"] assms(4,5)
  have "\<exists>h'. ws_send_internal e fresh tr key h (Some data) (int (length data)) opc n = Some (int (length data), h', n')"
    using assms(2) by (auto simp: ws_send_internal_def buf_def)
  then show ?thesis
    using length_client_frames [OF assms(1)] rfc_message_client [OF assms(1,6), of rest] assms(4) by simp
qed

text \<open>A network that keeps what is sent, and the bytes that are to be received.\<close>

definition duplex_net :: "(byte list \<times> byte list) transport" where
  "duplex_net = \<lparr>tr_getaddrinfo = (\<lambda>_ _ n. (0, [], n)), tr_socket = (\<lambda>n. (3, n)), tr_connect = (\<lambda>_ _ n. (0, n)),
     tr_close = (\<lambda>_ n. n), tr_send = (\<lambda>s (i, out). (int (length s), i, out @ map byte_of s)),
     tr_select = (\<lambda>_ n. (1, n)),
     tr_recv = (\<lambda>len (i, out). (int (length (take len i)), map char_of_byte (take len i), drop len i, out)),
     tr_ssl_connect = (\<lambda>_ _ n. (None, n)), tr_ssl_disconnect = (\<lambda>_ n. n), tr_ssl_sock_fd = (\<lambda>_. - 1),
     tr_ssl_write = (\<lambda>_ n. (- 1, n)), tr_ssl_read = (\<lambda>_ _ n. (- 1, [], n))\<rparr>"

lemma duplex_send: "\<not> ws_secured h \<Longrightarrow> ws_socket_send duplex_net h bs (i, out) = (int (length bs), i, out @ bs)"
  by (simp add: ws_socket_send_def duplex_net_def comp_def)

theorem ws_send_decodes_witness:
  "(\<exists>h'. ws_send_internal healthy_env (replicate 1460 0) duplex_net [1, 2, 3, 4] ws_new_handle (Some [72, 105]) 2 WS_OPCODE_TEXT ([], []) =
      Some (2, h', [], concat (client_frames [1, 2, 3, 4] WS_OPCODE_TEXT [72, 105]))) \<and>
   rfc_message (concat (client_frames [1, 2, 3, 4] WS_OPCODE_TEXT [72, 105])) = Some (1, [72, 105], [])"
proof -
  have "frames_sent duplex_net ws_new_handle (client_frames [1, 2, 3, 4] WS_OPCODE_TEXT [72, 105]) ([], [])
      ([], concat (client_frames [1, 2, 3, 4] WS_OPCODE_TEXT [72, 105]))"
    by (simp add: client_frames.simps duplex_send ws_new_handle_def)
  then show ?thesis
    using ws_send_decodes [of "[1, 2, 3, 4]" ws_new_handle healthy_env "replicate 1460 0" _ WS_OPCODE_TEXT "[72, 105]" duplex_net "([], [])"
        "([], concat (client_frames [1, 2, 3, 4] WS_OPCODE_TEXT [72, 105]))" "[]", OF _ _ _ refl]
    by (simp add: ws_new_handle_def healthy_env_def WS_MAX_FRAME_SIZE_def ws_sendable_def)
qed

section \<open>Receiving frames\<close>

text \<open>
  What the receiver needs of a connection: \<open>inbox\<close> are the bytes that have arrived, a read of some of them
  gives exactly these, and a write adds to \<open>outbox\<close>.
\<close>

definition duplex :: "'n transport \<Rightarrow> bool \<Rightarrow> ('n \<Rightarrow> byte list) \<Rightarrow> ('n \<Rightarrow> byte list) \<Rightarrow> bool" where
  "duplex tr tls inbox outbox \<longleftrightarrow>
     (\<forall>h len t n. ws_secured h = tls \<and> 0 < len \<and> len \<le> length (inbox n) \<longrightarrow>
        (\<exists>n'. ws_socket_recv tr h len t n = (int len, take len (inbox n), n') \<and> inbox n' = drop len (inbox n) \<and> outbox n' = outbox n)) \<and>
     (\<forall>h bs n. ws_secured h = tls \<longrightarrow>
        (\<exists>rval n'. ws_socket_send tr h bs n = (rval, n') \<and> 0 \<le> rval \<and> inbox n' = inbox n \<and> outbox n' = outbox n @ bs))"

lemma duplex_recv:
  assumes "duplex tr (ws_secured h) inbox outbox" "inbox n = bs @ rest" "bs \<noteq> []" "len = length bs"
  obtains n' where "ws_socket_recv tr h len t n = (int len, bs, n')" "inbox n' = rest" "outbox n' = outbox n"
proof -
  have "0 < len" "len \<le> length (inbox n)" using assms(2-4) by auto
  then obtain n' where "ws_socket_recv tr h len t n = (int len, take len (inbox n), n')"
      "inbox n' = drop len (inbox n)" "outbox n' = outbox n"
    using assms(1) unfolding duplex_def by blast
  then show ?thesis using that assms(2,4) by simp
qed

definition server_frame :: "bool \<Rightarrow> ws_opcode \<Rightarrow> byte list \<Rightarrow> byte list" where
  "server_frame is_last opc payload =
     (if is_last then opcode_val opc + 0x80 else opcode_val opc) #
     (if length payload < 126 then [word_of_nat (length payload)]
      else [126, word_of_nat (length payload div 256), word_of_nat (length payload)]) @ payload"

text \<open>A handle between two frames.\<close>

definition ws_idle :: "ws_handle \<Rightarrow> bool" where
  "ws_idle h \<longleftrightarrow> ws_st h = WS_STATE_HDR_RECEIVING \<and> hdr_unread_len h = 2 \<and> hdr_index h = 0 \<and> length (frame_hdr h) = 16 \<and>
     (\<forall>buf. ws_buf h = Some buf \<longrightarrow> length buf = WS_MAX_FRAME_SIZE)"

definition frame_info :: "bool \<Rightarrow> ws_opcode \<Rightarrow> nat \<Rightarrow> websock_msg_hdr" where
  "frame_info is_last opc len = \<lparr>fin = (if is_last then 1 else 0), opcode = uint (opcode_val opc), msg_payload_len = int len\<rparr>"

lemma first_byte:
  "((if b then opcode_val opc + 0x80 else opcode_val opc) AND WS_HDR_FIN_BIT \<noteq> 0) = b"
  "(if b then opcode_val opc + 0x80 else opcode_val opc) AND WS_HDR_OPCODE_MASK = opcode_val opc"
  using opcode_byte [of opc] by (simp_all add: WS_HDR_FIN_BIT_def WS_HDR_OPCODE_MASK_def)

lemma recv_hdr_stage:
  assumes "ws_idle h" "duplex tr (ws_secured h) inbox outbox" "inbox n = b0 # b1 # r"
  obtains n1 where "inbox n1 = r" "outbox n1 = outbox n"
    "ws_recv_hdr tr t h len n =
      (let h1 = ws_hdr_fields (h\<lparr>frame_hdr := b0 # b1 # drop 2 (frame_hdr h), hdr_index := 2\<rparr>);
           payload_len = uint (b1 AND 0x7F)
       in Some (Next (if payload_len > 125
            then (2, h1\<lparr>payload_len_code := payload_len, hdr_unread_len := (if payload_len = 126 then 2 else 8),
                         ws_st := WS_STATE_EXND_PL_LEN_RECEIVING\<rparr>, len, n1)
            else let h2 = h1\<lparr>payload_unread_len := payload_len, msg_hdr := (msg_hdr h1)\<lparr>msg_payload_len := payload_len\<rparr>,
                             ws_st := WS_STATE_PAYLOAD_RECEIVING\<rparr>
                 in if payload_len = 0 then (2, ws_set_recv_state_to_frame_hdr_receiving h2, 0, n1) else (2, h2, len, n1))))"
proof -
  obtain n1 where n1: "ws_socket_recv tr h 2 t n = (int 2, [b0, b1], n1)" "inbox n1 = r" "outbox n1 = outbox n"
    using duplex_recv [OF assms(2), of n "[b0, b1]" r 2] assms(3) by auto
  have "mem_store (frame_hdr h) 0 [b0, b1] = Some (b0 # b1 # drop 2 (frame_hdr h))"
    using assms(1) by (simp add: mem_store_def ws_idle_def numeral_2_eq_2)
  then show ?thesis
    by (intro that [OF n1(2,3)]) (use n1(1) assms(1) in \<open>simp add: ws_recv_hdr_def ws_idle_def ws_hdr_fields_def Let_def flip: numeral_2_eq_2\<close>)
qed

lemma recv_payload_stage:
  assumes "ws_st h = WS_STATE_PAYLOAD_RECEIVING" "payload_unread_len h = int (length pl)" "pl \<noteq> []" "length pl \<le> len"
    "len \<le> length buf" "duplex tr (ws_secured h) inbox outbox" "inbox n = pl @ rest"
  obtains n1 where "inbox n1 = rest" "outbox n1 = outbox n"
    "ws_recv_payload (Suc k) tr t buf (nread, h, len, n) =
      Returned (Next (int (length pl), pl @ drop (length pl) buf,
        ws_set_recv_state_to_frame_hdr_receiving (h\<lparr>payload_unread_len := 0\<rparr>), length pl, n1))"
proof -
  obtain n1 where n1: "ws_socket_recv tr h (length pl) t n = (int (length pl), pl, n1)" "inbox n1 = rest" "outbox n1 = outbox n"
    using duplex_recv [OF assms(6,7,3) refl] by blast
  have "mem_store buf 0 pl = Some (pl @ drop (length pl) buf)" using assms(4,5) by (simp add: mem_store_def)
  then show ?thesis
    by (intro that [OF n1(2,3)]) (use n1(1) assms(1-4) in \<open>simp add: Let_def\<close>)
qed

lemma recv_ext_stage:
  assumes "ws_st h = WS_STATE_EXND_PL_LEN_RECEIVING" "hdr_unread_len h = 2" "hdr_index h = 2" "length (frame_hdr h) = 16"
    "payload_len_code h = 126" "duplex tr (ws_secured h) inbox outbox" "inbox n = x # y # r"
  obtains n1 where "inbox n1 = r" "outbox n1 = outbox n"
    "ws_recv_ext_len tr t (nread, h, len, n) =
      Some (Next (2, h\<lparr>frame_hdr := take 2 (frame_hdr h) @ [x, y] @ drop 4 (frame_hdr h), payload_unread_len := ntohs x y,
        msg_hdr := (msg_hdr h)\<lparr>msg_payload_len := ntohs x y\<rparr>, ws_st := WS_STATE_PAYLOAD_RECEIVING\<rparr>, len, n1))"
proof -
  obtain n1 where n1: "ws_socket_recv tr h 2 t n = (int 2, [x, y], n1)" "inbox n1 = r" "outbox n1 = outbox n"
    using duplex_recv [OF assms(6), of n "[x, y]" r 2] assms(7) by auto
  have "mem_store (frame_hdr h) 2 [x, y] = Some (take 2 (frame_hdr h) @ [x, y] @ drop 4 (frame_hdr h))"
    using assms(4) by (simp add: mem_store_def)
  then show ?thesis
    by (intro that [OF n1(2,3)]) (use n1(1) assms(1-5) in \<open>simp add: ws_recv_ext_len_def Let_def nth_append\<close>)
qed

lemma ntohs_length: "l < 65536 \<Longrightarrow> ntohs (word_of_nat (l div 256)) (word_of_nat l) = int l"
  by (simp add: ntohs_def unsigned_of_nat take_bit_eq_mod zdiv_int zmod_int)

text \<open>What the receiver has in hand when a frame is read; then a ping is answered, and any other frame handed over.\<close>

definition frame_taken :: "ws_handle \<Rightarrow> websock_msg_hdr \<Rightarrow> ws_handle \<Rightarrow> bool" where
  "frame_taken h info h' \<longleftrightarrow> ws_idle h' \<and> ws_secured h' = ws_secured h \<and> ws_buf h' = ws_buf h \<and> msg_hdr h' = info"

lemma ws_idle_after [simp]:
  "ws_idle (ws_set_recv_state_to_frame_hdr_receiving h) \<longleftrightarrow>
     length (frame_hdr h) = 16 \<and> (\<forall>buf. ws_buf h = Some buf \<longrightarrow> length buf = WS_MAX_FRAME_SIZE)"
  "ws_secured (ws_set_recv_state_to_frame_hdr_receiving h) = ws_secured h"
  "ws_buf (ws_set_recv_state_to_frame_hdr_receiving h) = ws_buf h"
  "msg_hdr (ws_set_recv_state_to_frame_hdr_receiving h) = msg_hdr h"
  "ws_st (ws_set_recv_state_to_frame_hdr_receiving h) = WS_STATE_HDR_RECEIVING"
  "hdr_unread_len (ws_set_recv_state_to_frame_hdr_receiving h) = 2" "hdr_index (ws_set_recv_state_to_frame_hdr_receiving h) = 0"
  "frame_hdr (ws_set_recv_state_to_frame_hdr_receiving h) = frame_hdr h"
  by (simp_all add: ws_idle_def ws_set_recv_state_to_frame_hdr_receiving_def WS_MIN_HDR_LEN_def)

lemma ws_hdr_fields_frame [simp]:
  "ws_secured (ws_hdr_fields h) = ws_secured h" "ws_buf (ws_hdr_fields h) = ws_buf h"
  "frame_hdr (ws_hdr_fields h) = frame_hdr h" "hdr_index (ws_hdr_fields h) = hdr_index h"
  by (simp_all add: ws_hdr_fields_def)

lemma ws_hdr_fields_info:
  "frame_hdr h ! 0 = (if b then opcode_val opc + 0x80 else opcode_val opc) \<Longrightarrow>
   (msg_hdr (ws_hdr_fields h))\<lparr>msg_payload_len := int l\<rparr> = frame_info b opc l"
  using first_byte [of b opc] by (simp add: ws_hdr_fields_def frame_info_def)

text \<open>The handle when the header is read and the payload is next.\<close>

definition payload_next :: "ws_handle \<Rightarrow> bool \<Rightarrow> ws_opcode \<Rightarrow> nat \<Rightarrow> ws_handle \<Rightarrow> bool" where
  "payload_next h b opc l h' \<longleftrightarrow> ws_st h' = WS_STATE_PAYLOAD_RECEIVING \<and> payload_unread_len h' = int l \<and>
     msg_hdr h' = frame_info b opc l \<and> ws_secured h' = ws_secured h \<and> ws_buf h' = ws_buf h \<and> length (frame_hdr h') = 16"

lemma recv_hdr_short:
  assumes "ws_idle h" "duplex tr (ws_secured h) inbox outbox" "l < 126"
    "inbox n = (if b then opcode_val opc + 0x80 else opcode_val opc) # word_of_nat l # r"
  obtains h2 n1 where "payload_next h b opc l h2" "inbox n1 = r" "outbox n1 = outbox n"
    "ws_recv_hdr tr t h len n =
      Some (Next (if l = 0 then (2, ws_set_recv_state_to_frame_hdr_receiving h2, 0, n1) else (2, h2, len, n1)))"
proof -
  let ?b0 = "if b then opcode_val opc + 0x80 else opcode_val opc"
  let ?h1 = "ws_hdr_fields (h\<lparr>frame_hdr := ?b0 # word_of_nat l # drop 2 (frame_hdr h), hdr_index := 2\<rparr>)"
  let ?h2 = "?h1\<lparr>payload_unread_len := int l, msg_hdr := (msg_hdr ?h1)\<lparr>msg_payload_len := int l\<rparr>, ws_st := WS_STATE_PAYLOAD_RECEIVING\<rparr>"
  obtain n1 where n1: "inbox n1 = r" "outbox n1 = outbox n" and eq: "ws_recv_hdr tr t h len n =
      (let h1 = ?h1; payload_len = uint (word_of_nat l AND 0x7F :: byte)
       in Some (Next (if payload_len > 125
            then (2, h1\<lparr>payload_len_code := payload_len, hdr_unread_len := (if payload_len = 126 then 2 else 8),
                         ws_st := WS_STATE_EXND_PL_LEN_RECEIVING\<rparr>, len, n1)
            else let h2 = h1\<lparr>payload_unread_len := payload_len, msg_hdr := (msg_hdr h1)\<lparr>msg_payload_len := payload_len\<rparr>,
                             ws_st := WS_STATE_PAYLOAD_RECEIVING\<rparr>
                 in if payload_len = 0 then (2, ws_set_recv_state_to_frame_hdr_receiving h2, 0, n1) else (2, h2, len, n1))))"
    by (rule recv_hdr_stage [OF assms(1,2,4)])
  have "payload_next h b opc l ?h2"
    using assms(1) ws_hdr_fields_info [of _ b opc l] by (simp add: payload_next_def ws_idle_def)
  moreover have "ws_recv_hdr tr t h len n =
      Some (Next (if l = 0 then (2, ws_set_recv_state_to_frame_hdr_receiving ?h2, 0, n1) else (2, ?h2, len, n1)))"
    using eq length_byte(3) [of l] assms(3) by (simp add: Let_def)
  ultimately show ?thesis using that n1 by blast
qed

lemma recv_hdr_long:
  assumes "ws_idle h" "duplex tr (ws_secured h) inbox outbox" "l < 65536"
    "inbox n = (if b then opcode_val opc + 0x80 else opcode_val opc) # 126 # word_of_nat (l div 256) # word_of_nat l # r"
  obtains h2 n1 s where "payload_next h b opc l h2" "inbox n1 = r" "outbox n1 = outbox n"
    "ws_recv_hdr tr t h len n = Some (Next s)" "ws_recv_ext_len tr t s = Some (Next (2, h2, len, n1))"
proof -
  let ?b0 = "if b then opcode_val opc + 0x80 else opcode_val opc"
  let ?h1 = "ws_hdr_fields (h\<lparr>frame_hdr := ?b0 # 126 # drop 2 (frame_hdr h), hdr_index := 2\<rparr>)"
  let ?h1e = "?h1\<lparr>payload_len_code := 126, hdr_unread_len := 2, ws_st := WS_STATE_EXND_PL_LEN_RECEIVING\<rparr>"
  let ?x = "word_of_nat (l div 256)" and ?y = "word_of_nat l"
  let ?h2 = "?h1e\<lparr>frame_hdr := take 2 (frame_hdr ?h1e) @ [?x, ?y] @ drop 4 (frame_hdr ?h1e), payload_unread_len := ntohs ?x ?y,
        msg_hdr := (msg_hdr ?h1e)\<lparr>msg_payload_len := ntohs ?x ?y\<rparr>, ws_st := WS_STATE_PAYLOAD_RECEIVING\<rparr>"
  obtain n0 where n0: "inbox n0 = ?x # ?y # r" "outbox n0 = outbox n" and eq: "ws_recv_hdr tr t h len n =
      (let h1 = ?h1; payload_len = uint (126 AND 0x7F :: byte)
       in Some (Next (if payload_len > 125
            then (2, h1\<lparr>payload_len_code := payload_len, hdr_unread_len := (if payload_len = 126 then 2 else 8),
                         ws_st := WS_STATE_EXND_PL_LEN_RECEIVING\<rparr>, len, n0)
            else let h2 = h1\<lparr>payload_unread_len := payload_len, msg_hdr := (msg_hdr h1)\<lparr>msg_payload_len := payload_len\<rparr>,
                             ws_st := WS_STATE_PAYLOAD_RECEIVING\<rparr>
                 in if payload_len = 0 then (2, ws_set_recv_state_to_frame_hdr_receiving h2, 0, n0) else (2, h2, len, n0))))"
    by (rule recv_hdr_stage [OF assms(1,2,4)])
  have "ws_recv_hdr tr t h len n = Some (Next (2, ?h1e, len, n0))" using eq by (simp add: Let_def)
  moreover obtain n1 where "inbox n1 = r" "outbox n1 = outbox n0" "ws_recv_ext_len tr t (2, ?h1e, len, n0) = Some (Next (2, ?h2, len, n1))"
    by (rule recv_ext_stage [of ?h1e tr inbox outbox n0 ?x ?y r t 2 len]) (use assms(1,2) n0(1) in \<open>simp_all add: ws_idle_def\<close>)
  moreover have "payload_next h b opc l ?h2"
    using assms(1) ws_hdr_fields_info [of "h\<lparr>frame_hdr := ?b0 # 126 # drop 2 (frame_hdr h), hdr_index := 2\<rparr>" b opc l]
    by (simp add: payload_next_def ws_idle_def ntohs_length [OF assms(3)])
  ultimately show ?thesis using that n0(2) by metis
qed

lemma payload_next_taken:
  "payload_next h b opc l h2 \<Longrightarrow> ws_idle h \<Longrightarrow>
   frame_taken h (frame_info b opc l) (ws_set_recv_state_to_frame_hdr_receiving (h2\<lparr>payload_unread_len := 0\<rparr>))"
  by (simp add: payload_next_def frame_taken_def ws_idle_def)

lemma ping_info: "opcode (frame_info b opc l) = 9 \<longleftrightarrow> opc = WS_OPCODE_PING"
  by (cases opc) (simp_all add: frame_info_def)

lemma recv_empty_frame:
  assumes "ws_idle h" "duplex tr (ws_secured h) inbox outbox" "inbox n = server_frame b opc [] @ rest"
  obtains h' n' where "frame_taken h (frame_info b opc 0) h'" "inbox n' = rest" "outbox n' = outbox n"
    "ws_recv_internal (Suc k) e fresh tr rnd h buf len t n =
      (if opc = WS_OPCODE_PING
       then case ws_send_internal e fresh tr (rnd k) h' None 0 WS_OPCODE_PONG n' of
              None \<Rightarrow> Fault | Some (_, h, n) \<Rightarrow> ws_recv_internal k e fresh tr rnd h buf len t n
       else Returned (2, frame_info b opc 0, buf, 0, h', n'))"
proof -
  have "inbox n = (if b then opcode_val opc + 0x80 else opcode_val opc) # word_of_nat 0 # rest"
    using assms(3) by (simp add: server_frame_def)
  from recv_hdr_short [OF assms(1,2) _ this, of t len] obtain h2 n1 where p: "payload_next h b opc 0 h2" "inbox n1 = rest"
      "outbox n1 = outbox n" "ws_recv_hdr tr t h len n = Some (Next (2, ws_set_recv_state_to_frame_hdr_receiving h2, 0, n1))"
    by auto
  then have "frame_taken h (frame_info b opc 0) (ws_set_recv_state_to_frame_hdr_receiving h2)"
    using assms(1) by (simp add: payload_next_def frame_taken_def ws_idle_def)
  moreover from this have "msg_hdr (ws_set_recv_state_to_frame_hdr_receiving h2) = frame_info b opc 0"
    by (simp add: frame_taken_def)
  ultimately show ?thesis
    by (intro that [of "ws_set_recv_state_to_frame_hdr_receiving h2", OF _ p(2,3)]) (use p(4) in \<open>simp_all add: ws_recv_ext_len_def ping_info\<close>)
qed

lemma recv_payload_frame:
  assumes "ws_idle h" "duplex tr (ws_secured h) inbox outbox" "inbox n = server_frame b opc pl @ rest"
    "pl \<noteq> []" "length pl < 65536" "length pl \<le> len" "len \<le> length buf"
  obtains h' n' where "frame_taken h (frame_info b opc (length pl)) h'" "inbox n' = rest" "outbox n' = outbox n"
    "ws_recv_internal (Suc k) e fresh tr rnd h buf len t n =
      (if opc = WS_OPCODE_PING
       then case ws_send_internal e fresh tr (rnd k) h' None 0 WS_OPCODE_PONG n' of
              None \<Rightarrow> Fault | Some (_, h, n) \<Rightarrow> ws_recv_internal k e fresh tr rnd h (pl @ drop (length pl) buf) len t n
       else Returned (int (length pl), frame_info b opc (length pl), pl @ drop (length pl) buf, length pl, h', n'))"
proof -
  obtain h2 n1 s where p: "payload_next h b opc (length pl) h2" "inbox n1 = pl @ rest" "outbox n1 = outbox n"
      "ws_recv_hdr tr t h len n = Some (Next s)" "ws_recv_ext_len tr t s = Some (Next (2, h2, len, n1))"
  proof (cases "length pl < 126")
    case True
    then have "inbox n = (if b then opcode_val opc + 0x80 else opcode_val opc) # word_of_nat (length pl) # pl @ rest"
      using assms(3) by (simp add: server_frame_def)
    from recv_hdr_short [OF assms(1,2) True this, of t len] obtain h2 n1 where "payload_next h b opc (length pl) h2"
        "inbox n1 = pl @ rest" "outbox n1 = outbox n" "ws_recv_hdr tr t h len n = Some (Next (2, h2, len, n1))"
      using assms(4) by auto
    moreover from this(1) have "ws_recv_ext_len tr t (2, h2, len, n1) = Some (Next (2, h2, len, n1))"
      by (simp add: ws_recv_ext_len_def payload_next_def)
    ultimately show ?thesis using that by blast
  next
    case False
    then have "inbox n = (if b then opcode_val opc + 0x80 else opcode_val opc) # 126 # word_of_nat (length pl div 256) #
        word_of_nat (length pl) # pl @ rest" using assms(3) by (simp add: server_frame_def)
    from recv_hdr_long [OF assms(1,2,5) this] show ?thesis using that by blast
  qed
  let ?h' = "ws_set_recv_state_to_frame_hdr_receiving (h2\<lparr>payload_unread_len := 0\<rparr>)"
  have pn: "ws_st h2 = WS_STATE_PAYLOAD_RECEIVING" "payload_unread_len h2 = int (length pl)" "ws_secured h2 = ws_secured h"
    using p(1) by (simp_all add: payload_next_def)
  have "duplex tr (ws_secured h2) inbox outbox" using assms(2) pn(3) by simp
  from recv_payload_stage [OF pn(1,2) assms(4,6,7) this p(2)] obtain n2 where n2: "inbox n2 = rest" "outbox n2 = outbox n1"
      "ws_recv_payload (Suc k) tr t buf (2, h2, len, n1) = Returned (Next (int (length pl), pl @ drop (length pl) buf, ?h', length pl, n2))"
    by blast
  have taken: "frame_taken h (frame_info b opc (length pl)) ?h'" using payload_next_taken [OF p(1) assms(1)] .
  then have "msg_hdr ?h' = frame_info b opc (length pl)" by (simp add: frame_taken_def)
  then show ?thesis
    by (intro that [OF taken n2(1)]) (use n2 p in \<open>simp_all add: ping_info del: ws_recv_payload.simps\<close>)
qed

declare ws_recv_internal.simps [simp del]

lemma send_pong_header:
  assumes "length key = 4" "ws_idle h" "ws_buf h = None \<Longrightarrow> os_alloc e WS_MAX_FRAME_SIZE \<and> length fresh = WS_MAX_FRAME_SIZE"
    "duplex tr (ws_secured h) inbox outbox"
  obtains h' n' where "ws_send_internal e fresh tr key h None 0 WS_OPCODE_PONG n = Some (0, h', n')" "ws_idle h'"
    "ws_secured h' = ws_secured h" "ws_buf h' \<noteq> None" "inbox n' = inbox n" "outbox n' = outbox n @ ws_header WS_OPCODE_PONG True 0 key"
proof -
  define buf where "buf = (case ws_buf h of None \<Rightarrow> fresh | Some buf \<Rightarrow> buf)"
  have len: "length buf = 1460" using assms(2,3) by (auto simp: buf_def ws_idle_def WS_MAX_FRAME_SIZE_def split: option.split)
  let ?hdr = "ws_header WS_OPCODE_PONG True 0 key"
  have hl: "length ?hdr = 6" using assms(1) by (simp add: length_ws_header)
  obtain B where B: "mem_store buf 0 (replicate WS_MAX_HEADERLEN 0) = Some B" "length B = 1460"
    using len by (simp add: mem_store_def WS_MAX_HEADERLEN_def)
  have C: "mem_store B 0 ?hdr = Some (?hdr @ drop 6 B)" using B(2) hl by (simp add: mem_store_def)
  obtain rval n' where s: "ws_socket_send tr h ?hdr n = (rval, n')" "inbox n' = inbox n" "outbox n' = outbox n @ ?hdr"
    using assms(4) unfolding duplex_def by blast
  have "send_frames tr h key buf None 0 WS_OPCODE_PONG 0 n = Some (0, ?hdr @ drop 6 B, n')"
    using B(1) C s(1) hl by (subst send_frames.simps) (simp add: Let_def)
  then have "ws_send_internal e fresh tr key h None 0 WS_OPCODE_PONG n = Some (0, h\<lparr>ws_buf := Some (?hdr @ drop 6 B)\<rparr>, n')"
    using assms(3) by (auto simp: ws_send_internal_def buf_def)
  moreover have "ws_idle (h\<lparr>ws_buf := Some (?hdr @ drop 6 B)\<rparr>)"
    using assms(2) hl B(2) by (simp add: ws_idle_def WS_MAX_FRAME_SIZE_def)
  ultimately show ?thesis using that s by simp
qed

lemma recv_frame:
  assumes "ws_idle h" "duplex tr (ws_secured h) inbox outbox" "inbox n = server_frame b opc pl @ rest"
    "length pl < 65536" "length pl \<le> len" "len \<le> length buf"
  obtains h' n' where "frame_taken h (frame_info b opc (length pl)) h'" "inbox n' = rest" "outbox n' = outbox n"
    "ws_recv_internal (Suc k) e fresh tr rnd h buf len t n =
      (if opc = WS_OPCODE_PING
       then case ws_send_internal e fresh tr (rnd k) h' None 0 WS_OPCODE_PONG n' of
              None \<Rightarrow> Fault | Some (_, h, n) \<Rightarrow> ws_recv_internal k e fresh tr rnd h (pl @ drop (length pl) buf) len t n
       else Returned (if pl = [] then 2 else int (length pl), frame_info b opc (length pl), pl @ drop (length pl) buf, length pl, h', n'))"
proof (cases "pl = []")
  case True
  then have "inbox n = server_frame b opc [] @ rest" using assms(3) by simp
  then obtain h' n' where "frame_taken h (frame_info b opc 0) h'" "inbox n' = rest" "outbox n' = outbox n"
    "ws_recv_internal (Suc k) e fresh tr rnd h buf len t n =
      (if opc = WS_OPCODE_PING
       then case ws_send_internal e fresh tr (rnd k) h' None 0 WS_OPCODE_PONG n' of
              None \<Rightarrow> Fault | Some (_, h, n) \<Rightarrow> ws_recv_internal k e fresh tr rnd h buf len t n
       else Returned (2, frame_info b opc 0, buf, 0, h', n'))"
    by (rule recv_empty_frame [OF assms(1,2)])
  with True show ?thesis by (intro that [of h' n']) (simp_all split: option.split)
next
  case False
  obtain h' n' where "frame_taken h (frame_info b opc (length pl)) h'" "inbox n' = rest" "outbox n' = outbox n"
    "ws_recv_internal (Suc k) e fresh tr rnd h buf len t n =
      (if opc = WS_OPCODE_PING
       then case ws_send_internal e fresh tr (rnd k) h' None 0 WS_OPCODE_PONG n' of
              None \<Rightarrow> Fault | Some (_, h, n) \<Rightarrow> ws_recv_internal k e fresh tr rnd h (pl @ drop (length pl) buf) len t n
       else Returned (int (length pl), frame_info b opc (length pl), pl @ drop (length pl) buf, length pl, h', n'))"
    by (rule recv_payload_frame [OF assms(1-3) False assms(4-6)])
  with False show ?thesis by (intro that [of h' n']) simp_all
qed

definition pong_ready :: "env \<Rightarrow> byte list \<Rightarrow> ws_handle \<Rightarrow> bool" where
  "pong_ready e fresh h \<longleftrightarrow> (ws_buf h = None \<longrightarrow> os_alloc e WS_MAX_FRAME_SIZE \<and> length fresh = WS_MAX_FRAME_SIZE)"

text \<open>
  Property C37.  When the frames of a server have arrived, one call of the receiver takes the next frame that is not a
  ping, with its end flag, opcode and length, and puts exactly its payload into the caller's buffer; it returns the
  number of payload bytes, or 2, the length of the header, for a frame without payload.  The bytes behind the frame
  stay unread and the handle is ready for the next frame.  Every ping in front of it is taken out of the stream with its
  payload and answered by one empty pong, in order.  Frames with every other opcode are handed over alike: also a close
  frame, which is neither answered nor acted upon although the header file says that it is handled internally.
\<close>

theorem ws_recv_answers_pings:
  assumes "ws_idle h" "duplex tr (ws_secured h) inbox outbox" "\<forall>i. length (rnd i) = 4" "pong_ready e fresh h"
    and "inbox n = concat (map (server_frame True WS_OPCODE_PING) pings) @ server_frame b opc pl @ rest"
    and "\<forall>p \<in> set pings. length p \<le> 125" "opc \<noteq> WS_OPCODE_PING" "length pl < 65536"
    and "length pl \<le> len" "125 \<le> len" "len \<le> length buf"
  shows "\<exists>buf' h' n'. ws_recv_internal (Suc (length pings + k)) e fresh tr rnd h buf len t n =
      Returned (if pl = [] then 2 else int (length pl), frame_info b opc (length pl), buf', length pl, h', n') \<and>
    take (length pl) buf' = pl \<and> length buf' = length buf \<and> ws_idle h' \<and> inbox n' = rest \<and>
    outbox n' = outbox n @ concat (map (\<lambda>i. client_frame (rnd i) WS_OPCODE_PONG True []) (rev [Suc k..<Suc k + length pings]))"
  using assms(1,2,4,5,6,11)
proof (induction pings arbitrary: h buf n)
  case Nil
  then have "inbox n = server_frame b opc pl @ rest" by simp
  from recv_frame [OF Nil.prems(1,2) this assms(8,9) Nil.prems(6), of k e fresh rnd t] show ?case
    using assms(7,9) Nil.prems(6) by (fastforce simp: frame_taken_def)
next
  case (Cons p pings)
  have p: "length p < 65536" "length p \<le> len" using Cons.prems(5) assms(10) by auto
  have "inbox n = server_frame True WS_OPCODE_PING p @ concat (map (server_frame True WS_OPCODE_PING) pings) @ server_frame b opc pl @ rest"
    using Cons.prems(4) by simp
  from recv_frame [OF Cons.prems(1,2) this p Cons.prems(6), of "Suc (length pings + k)" e fresh rnd t]
  obtain h1 n1 where f: "frame_taken h (frame_info True WS_OPCODE_PING (length p)) h1"
      "inbox n1 = concat (map (server_frame True WS_OPCODE_PING) pings) @ server_frame b opc pl @ rest" "outbox n1 = outbox n"
      "ws_recv_internal (Suc (Suc (length pings + k))) e fresh tr rnd h buf len t n =
        (case ws_send_internal e fresh tr (rnd (Suc (length pings + k))) h1 None 0 WS_OPCODE_PONG n1 of
           None \<Rightarrow> Fault | Some (_, h, n) \<Rightarrow> ws_recv_internal (Suc (length pings + k)) e fresh tr rnd h (p @ drop (length p) buf) len t n)"
    by (auto)
  have h1: "ws_idle h1" "ws_secured h1 = ws_secured h" "ws_buf h1 = ws_buf h" using f(1) by (simp_all add: frame_taken_def)
  have d: "duplex tr (ws_secured h1) inbox outbox" using h1(2) Cons.prems(2) by simp
  obtain h2 n2 where s: "ws_send_internal e fresh tr (rnd (Suc (length pings + k))) h1 None 0 WS_OPCODE_PONG n1 = Some (0, h2, n2)"
      "ws_idle h2" "ws_secured h2 = ws_secured h1" "ws_buf h2 \<noteq> None" "inbox n2 = inbox n1"
      "outbox n2 = outbox n1 @ ws_header WS_OPCODE_PONG True 0 (rnd (Suc (length pings + k)))"
    by (rule send_pong_header [OF _ h1(1) _ d]) (use assms(3) Cons.prems(3) h1(3) in \<open>auto simp: pong_ready_def\<close>)
  have "duplex tr (ws_secured h2) inbox outbox" "pong_ready e fresh h2" "len \<le> length (p @ drop (length p) buf)"
      "\<forall>p \<in> set pings. length p \<le> 125" "inbox n2 = concat (map (server_frame True WS_OPCODE_PING) pings) @ server_frame b opc pl @ rest"
    using s d f(2) Cons.prems(5,6) p(2) by (auto simp: pong_ready_def)
  from Cons.IH [OF s(2) this(1,2,5,4,3)] show ?case
    using f(3,4) s(1,6) p(2) Cons.prems(6)
    by (auto simp: client_frame_def mask_bytes_def add.commute)
qed

lemma duplex_net_recv:
  "\<not> ws_secured h \<Longrightarrow> ws_socket_recv duplex_net h len t (i, out) = (int (length (take len i)), take len i, drop len i, out)"
  by (simp add: ws_socket_recv_def duplex_net_def comp_def)

lemma duplex_net_recv_0: "\<not> ws_secured h \<Longrightarrow> ws_socket_recv duplex_net h 0 t n = (0, [], n)"
  using duplex_net_recv [of h 0 t "fst n" "snd n"] by simp

lemma duplex_duplex_net: "duplex duplex_net False fst snd"
  by (auto simp: duplex_def duplex_send duplex_net_recv min_def)

lemma new_handle_idle: "ws_idle ws_new_handle" "\<not> ws_secured ws_new_handle"
    "pong_ready healthy_env (replicate 1460 0) ws_new_handle"
  by (simp_all add: ws_idle_def ws_new_handle_def WS_MIN_HDR_LEN_def pong_ready_def healthy_env_def WS_MAX_FRAME_SIZE_def)

theorem ws_recv_answers_pings_witness:
  "\<exists>buf' h' n'. ws_recv_internal 2 healthy_env (replicate 1460 0) duplex_net (\<lambda>_. [1, 2, 3, 4]) ws_new_handle (replicate 1400 0) 1400 0
      ([0x89, 0x02, 7, 8, 0x81, 0x02, 72, 105, 0x88], []) =
      Returned (2, \<lparr>fin = 1, opcode = 1, msg_payload_len = 2\<rparr>, buf', 2, h', n') \<and>
    take 2 buf' = [72, 105] \<and> ws_idle h' \<and> fst n' = [0x88] \<and> snd n' = [0x8A, 0x80, 1, 2, 3, 4]"
proof -
  let ?in = "[0x89, 0x02, 7, 8, 0x81, 0x02, 72, 105, 0x88] :: byte list"
  have "fst (?in, [] :: byte list) =
      concat (map (server_frame True WS_OPCODE_PING) [[7, 8]]) @ server_frame True WS_OPCODE_TEXT [72, 105] @ [0x88]"
    by (simp add: server_frame_def)
  moreover have "client_frame [1, 2, 3, 4] WS_OPCODE_PONG True [] = [0x8A, 0x80, 1, 2, 3, 4]" by code_simp
  moreover have "duplex duplex_net (ws_secured ws_new_handle) fst snd" using duplex_duplex_net new_handle_idle(2) by simp
  ultimately show ?thesis
    using ws_recv_answers_pings [OF new_handle_idle(1) _ _ new_handle_idle(3), of duplex_net fst snd "\<lambda>_. [1, 2, 3, 4]"
        "(?in, [])" "[[7, 8]]" True WS_OPCODE_TEXT "[72, 105]" "[0x88]" 1400 "replicate 1400 0" 0 0]
    by (simp only: fst_conv) (auto simp: frame_info_def numeral_2_eq_2)
qed

section \<open>64-bit lengths\<close>

definition be64 :: "nat \<Rightarrow> byte list" where
  "be64 l = map (\<lambda>k. word_of_nat (l div 256 ^ (7 - k))) [0..<8]"

lemma take_bit_s64: "take_bit 32 (s64 x) = take_bit 32 x"
  unfolding s64_def sint_sbintrunc' by (simp add: take_bit_signed_take_bit)

lemma s32_s64_high: "s32 (s64 (2 ^ 32 * m)) = 0"
proof -
  have "take_bit 32 (s64 (2 ^ 32 * m)) = 0" unfolding take_bit_s64 by (simp add: take_bit_eq_mod)
  then have "(word_of_int (s64 (2 ^ 32 * m)) :: 32 word) = 0" by (simp add: word_of_int_eq_0_iff take_bit_eq_0_iff)
  then show ?thesis by (simp add: s32_def)
qed

lemma ws_ntohll_0: "ws_ntohll 0 = 0"
  by (simp add: ws_ntohll_def ll_bytes_def ntohl_def s64_def upt_rec)

lemma be64_short: "l < 2 ^ 32 \<Longrightarrow> \<exists>b4 b5 b6 b7. be64 l = [0, 0, 0, 0, b4, b5, b6, b7]"
  by (simp add: be64_def upt_rec)

lemma length64_lost:
  assumes "l < 2 ^ 32"
  shows "s32 (ws_ntohll (s32 (ll_of_bytes (be64 l)))) = 0"
proof -
  obtain b4 b5 b6 b7 where b: "be64 l = [0, 0, 0, 0, b4, b5, b6, b7]" using be64_short [OF assms] by blast
  have "(\<Sum>k<8. uint (be64 l ! k) * 2 ^ (8 * k)) =
      2 ^ 32 * (uint b4 + uint b5 * 2 ^ 8 + uint b6 * 2 ^ 16 + uint b7 * 2 ^ 24)"
    by (simp add: b numeral_eq_Suc)
  then have "s32 (ll_of_bytes (be64 l)) = 0" by (simp only: ll_of_bytes_def s32_s64_high)
  then show ?thesis by (simp add: ws_ntohll_0 s32_def)
qed

text \<open>
  Property C38.  A frame whose length is written with 64 bits and below 2 ^ 32 is read as a frame without payload,
  because the length passes through an \<open>int\<close> before its bytes are swapped; and the receiver never leaves it: this and every
  later call asks the socket for zero bytes and returns 0 with an invalid header, while the payload
  stays unread.
\<close>

theorem ws_64bit_frame_stuck:
  assumes "ws_idle h" "duplex tr (ws_secured h) inbox outbox"
    and "\<forall>h' t n. ws_secured h' = ws_secured h \<longrightarrow> ws_socket_recv tr h' 0 t n = (0, [], n)"
    and "inbox n = b0 # 127 # be64 l @ payload" "l < 2 ^ 32"
  shows "\<exists>h' n'. inbox n' = payload \<and>
    ws_recv_internal (Suc k) e fresh tr rnd h buf len t n = Returned (0, ws_set_msg_hdr_to_invalid, buf, 0, h', n') \<and>
    (\<forall>j buf len t. ws_recv_internal (Suc j) e fresh tr rnd h' buf len t n' = Returned (0, ws_set_msg_hdr_to_invalid, buf, 0, h', n'))"
proof -
  let ?h1 = "ws_hdr_fields (h\<lparr>frame_hdr := b0 # 127 # drop 2 (frame_hdr h), hdr_index := 2\<rparr>)"
  let ?h2 = "?h1\<lparr>payload_len_code := 127, hdr_unread_len := 8, ws_st := WS_STATE_EXND_PL_LEN_RECEIVING\<rparr>"
  let ?mem = "b0 # 127 # be64 l @ drop 10 (frame_hdr h)"
  let ?h3 = "?h2\<lparr>frame_hdr := ?mem, payload_unread_len := 0, msg_hdr := (msg_hdr ?h2)\<lparr>msg_payload_len := 0\<rparr>,
      ws_st := WS_STATE_PAYLOAD_RECEIVING\<rparr>"
  have len: "length (be64 l) = 8" by (simp add: be64_def)
  obtain n1 where n1: "inbox n1 = be64 l @ payload" "outbox n1 = outbox n" and eq: "ws_recv_hdr tr t h len n =
      (let h1 = ?h1; payload_len = uint (127 AND 0x7F :: byte)
       in Some (Next (if payload_len > 125
            then (2, h1\<lparr>payload_len_code := payload_len, hdr_unread_len := (if payload_len = 126 then 2 else 8),
                         ws_st := WS_STATE_EXND_PL_LEN_RECEIVING\<rparr>, len, n1)
            else let h2 = h1\<lparr>payload_unread_len := payload_len, msg_hdr := (msg_hdr h1)\<lparr>msg_payload_len := payload_len\<rparr>,
                             ws_st := WS_STATE_PAYLOAD_RECEIVING\<rparr>
                 in if payload_len = 0 then (2, ws_set_recv_state_to_frame_hdr_receiving h2, 0, n1) else (2, h2, len, n1))))"
    by (rule recv_hdr_stage [OF assms(1,2,4)])
  have hdr: "ws_recv_hdr tr t h len n = Some (Next (2, ?h2, len, n1))" using eq by (simp add: Let_def)
  have d: "duplex tr (ws_secured ?h2) inbox outbox" "be64 l \<noteq> []" using assms(2) len by auto
  obtain n2 where n2: "ws_socket_recv tr ?h2 8 t n1 = (int 8, be64 l, n2)" "inbox n2 = payload" "outbox n2 = outbox n1"
    by (rule duplex_recv [OF d(1) n1(1) d(2) len [symmetric]])
  have "mem_store (frame_hdr ?h2) 2 (be64 l) = Some ?mem"
    using assms(1) len by (simp add: mem_store_def ws_idle_def)
  then have ext: "ws_recv_ext_len tr t (2, ?h2, len, n1) = Some (Next (8, ?h3, len, n2))"
    using n2(1) len length64_lost [OF assms(5)] by (simp add: ws_recv_ext_len_def Let_def)
  have pay: "ws_recv_payload (Suc j) tr t buf (nread, ?h3, len, n2) = Returned (Return (0, buf, ?h3, n2))" for j t buf nread len
    using assms(3) by (simp add: mem_store_def)
  have "ws_recv_internal (Suc k) e fresh tr rnd h buf len t n = Returned (0, ws_set_msg_hdr_to_invalid, buf, 0, ?h3, n2)"
    using hdr ext pay by (simp add: ws_recv_internal.simps del: ws_recv_payload.simps)
  moreover have "ws_recv_internal (Suc j) e fresh tr rnd ?h3 buf len t n2 = Returned (0, ws_set_msg_hdr_to_invalid, buf, 0, ?h3, n2)"
    for j buf len t
    using pay by (simp add: ws_recv_internal.simps ws_recv_hdr_def ws_recv_ext_len_def del: ws_recv_payload.simps)
  ultimately show ?thesis using n2(2) by blast
qed

definition sample_inbox :: "byte list \<times> byte list" where
  "sample_inbox = (0x82 # 127 # be64 3 @ [1, 2, 3], [])"

theorem ws_64bit_frame_stuck_witness:
  "\<exists>h' n'. fst n' = [1, 2, 3] \<and>
    ws_recv_internal (Suc 0) healthy_env [] duplex_net (\<lambda>_. []) ws_new_handle [9, 9, 9] 3 0 sample_inbox =
      Returned (0, ws_set_msg_hdr_to_invalid, [9, 9, 9], 0, h', n') \<and>
    (\<forall>j buf len t. ws_recv_internal (Suc j) healthy_env [] duplex_net (\<lambda>_. []) h' buf len t n' =
      Returned (0, ws_set_msg_hdr_to_invalid, buf, 0, h', n'))"
proof (rule ws_64bit_frame_stuck [OF new_handle_idle(1), where inbox = fst and outbox = snd])
  show "duplex duplex_net (ws_secured ws_new_handle) fst snd" using duplex_duplex_net new_handle_idle(2) by simp
  show "\<forall>h t n. ws_secured h = ws_secured ws_new_handle \<longrightarrow> ws_socket_recv duplex_net h 0 t n = (0, [], n)"
    using new_handle_idle(2) duplex_net_recv_0 by simp
  show "fst sample_inbox = 0x82 # 127 # be64 3 @ [1, 2, 3]" by (simp add: sample_inbox_def)
qed simp

end
