(* ===== verification/Lookup3.thy ===== *)
theory Lookup3
  imports Prelude
begin

unbundle bit_operations_syntax

text \<open>
  The hash function of the JSON library (components/json/jansson/src/lookup3.h).  A key is hashed twelve
  bytes at a time; the code has one loop for keys at a multiple of four, one for keys at an even address
  and one for the rest, and the first reads whole words, past the terminator of the string.  The key is
  the memory from its first byte on, a function; the property shows that all three
  loops compute one function of the bytes of the key.  The variant for memory checkers (\<open>NO_MASKING_TRICK\<close>), which
  reads the last bytes one by one, is not modelled.
\<close>

section \<open>The routine\<close>

type_synonym abc = "u32 \<times> u32 \<times> u32"

definition hashsize :: "nat \<Rightarrow> u32" where
  "hashsize n = push_bit n 1"

definition hashmask :: "nat \<Rightarrow> u32" where
  "hashmask n = hashsize n - 1"

definition rot :: "u32 \<Rightarrow> nat \<Rightarrow> u32" where
  "rot x k = push_bit k x OR drop_bit (32 - k) x"

text \<open>
  One line \<open>a -= c; a ^= rot(c,k); c += b\<close> of \<open>mix\<close>; the next line is the same one on the variables
  turned by one place, and six lines turn them back.
\<close>

definition mix_line :: "nat \<Rightarrow> abc \<Rightarrow> abc" where
  "mix_line k = (\<lambda>(a, b, c). (b, c + b, (a - c) XOR rot c k))"

definition mix :: "abc \<Rightarrow> abc" where
  "mix s = mix_line 4 (mix_line 19 (mix_line 16 (mix_line 8 (mix_line 6 (mix_line 4 s)))))"

text \<open>One \<open>c ^= b; c -= rot(b,k)\<close> of \<open>final\<close>, on the variables turned the same way.\<close>

definition final_step :: "nat \<Rightarrow> abc \<Rightarrow> abc" where
  "final_step k = (\<lambda>(a, b, c). (b, (c XOR b) - rot b k, a))"

definition final :: "abc \<Rightarrow> u32" where
  "final s = (case final_step 24 (final_step 14 (final_step 4 (final_step 16 (final_step 25 (final_step 11 (final_step 14 s)))))) of
     (b, c, a) \<Rightarrow> c)"

text \<open>What a little-endian load of one, two or four bytes gives.\<close>

definition k8 :: "(nat \<Rightarrow> byte) \<Rightarrow> nat \<Rightarrow> u32" where
  "k8 k i = ucast (k i)"

definition k16 :: "(nat \<Rightarrow> byte) \<Rightarrow> nat \<Rightarrow> u32" where
  "k16 k i = k8 k (2 * i) OR push_bit 8 (k8 k (2 * i + 1))"

definition k32 :: "(nat \<Rightarrow> byte) \<Rightarrow> nat \<Rightarrow> u32" where
  "k32 k i = k8 k (4 * i) OR push_bit 8 (k8 k (4 * i + 1)) OR push_bit 16 (k8 k (4 * i + 2)) OR push_bit 24 (k8 k (4 * i + 3))"

text \<open>One turn of each \<open>while (length > 12)\<close>: the additions before \<open>mix\<close>.\<close>

fun add32 :: "(nat \<Rightarrow> byte) \<Rightarrow> abc \<Rightarrow> abc" where
  "add32 k (a, b, c) = (a + k32 k 0, b + k32 k 1, c + k32 k 2)"

fun add16 :: "(nat \<Rightarrow> byte) \<Rightarrow> abc \<Rightarrow> abc" where
  "add16 k (a, b, c) =
     (a + (k16 k 0 + push_bit 16 (k16 k 1)), b + (k16 k 2 + push_bit 16 (k16 k 3)), c + (k16 k 4 + push_bit 16 (k16 k 5)))"

fun add8 :: "(nat \<Rightarrow> byte) \<Rightarrow> abc \<Rightarrow> abc" where
  "add8 k (a, b, c) =
     (a + k8 k 0 + push_bit 8 (k8 k 1) + push_bit 16 (k8 k 2) + push_bit 24 (k8 k 3),
      b + k8 k 4 + push_bit 8 (k8 k 5) + push_bit 16 (k8 k 6) + push_bit 24 (k8 k 7),
      c + k8 k 8 + push_bit 8 (k8 k 9) + push_bit 16 (k8 k 10) + push_bit 24 (k8 k 11))"

function blocks :: "((nat \<Rightarrow> byte) \<Rightarrow> abc \<Rightarrow> abc) \<Rightarrow> (nat \<Rightarrow> byte) \<Rightarrow> nat \<Rightarrow> abc \<Rightarrow> (nat \<Rightarrow> byte) \<times> nat \<times> abc" where
  "blocks add k len s =
     (if len > 12 then blocks add (\<lambda>i. k (12 + i)) (len - 12) (mix (add k s)) else (k, len, s))"
  by auto
termination by (relation "measure (\<lambda>(_, _, len, _). len)") auto

declare blocks.simps [simp del]

text \<open>The three \<open>switch (length)\<close>; \<open>last32\<close> masks what it has read beyond the key.\<close>

fun last32 :: "(nat \<Rightarrow> byte) \<Rightarrow> nat \<Rightarrow> abc \<Rightarrow> abc" where
  "last32 k len (a, b, c) =
     (if len = 12 then (a + k32 k 0, b + k32 k 1, c + k32 k 2)
      else if len = 11 then (a + k32 k 0, b + k32 k 1, c + (k32 k 2 AND 0xffffff))
      else if len = 10 then (a + k32 k 0, b + k32 k 1, c + (k32 k 2 AND 0xffff))
      else if len = 9 then (a + k32 k 0, b + k32 k 1, c + (k32 k 2 AND 0xff))
      else if len = 8 then (a + k32 k 0, b + k32 k 1, c)
      else if len = 7 then (a + k32 k 0, b + (k32 k 1 AND 0xffffff), c)
      else if len = 6 then (a + k32 k 0, b + (k32 k 1 AND 0xffff), c)
      else if len = 5 then (a + k32 k 0, b + (k32 k 1 AND 0xff), c)
      else if len = 4 then (a + k32 k 0, b, c)
      else if len = 3 then (a + (k32 k 0 AND 0xffffff), b, c)
      else if len = 2 then (a + (k32 k 0 AND 0xffff), b, c)
      else (a + (k32 k 0 AND 0xff), b, c))"

fun last16 :: "(nat \<Rightarrow> byte) \<Rightarrow> nat \<Rightarrow> abc \<Rightarrow> abc" where
  "last16 k len (a, b, c) =
     (let a4 = a + (k16 k 0 + push_bit 16 (k16 k 1)); b4 = b + (k16 k 2 + push_bit 16 (k16 k 3)) in
      if len = 12 then (a4, b4, c + (k16 k 4 + push_bit 16 (k16 k 5)))
      else if len = 11 then (a4, b4, c + push_bit 16 (k8 k 10) + k16 k 4)
      else if len = 10 then (a4, b4, c + k16 k 4)
      else if len = 9 then (a4, b4, c + k8 k 8)
      else if len = 8 then (a4, b4, c)
      else if len = 7 then (a4, b + push_bit 16 (k8 k 6) + k16 k 2, c)
      else if len = 6 then (a4, b + k16 k 2, c)
      else if len = 5 then (a4, b + k8 k 4, c)
      else if len = 4 then (a4, b, c)
      else if len = 3 then (a + push_bit 16 (k8 k 2) + k16 k 0, b, c)
      else if len = 2 then (a + k16 k 0, b, c)
      else (a + k8 k 0, b, c))"

fun last8 :: "(nat \<Rightarrow> byte) \<Rightarrow> nat \<Rightarrow> abc \<Rightarrow> abc" where
  "last8 k len (a, b, c) =
     (let c = (if len \<ge> 12 then c + push_bit 24 (k8 k 11) else c);
          c = (if len \<ge> 11 then c + push_bit 16 (k8 k 10) else c);
          c = (if len \<ge> 10 then c + push_bit 8 (k8 k 9) else c);
          c = (if len \<ge> 9 then c + k8 k 8 else c);
          b = (if len \<ge> 8 then b + push_bit 24 (k8 k 7) else b);
          b = (if len \<ge> 7 then b + push_bit 16 (k8 k 6) else b);
          b = (if len \<ge> 6 then b + push_bit 8 (k8 k 5) else b);
          b = (if len \<ge> 5 then b + k8 k 4 else b);
          a = (if len \<ge> 4 then a + push_bit 24 (k8 k 3) else a);
          a = (if len \<ge> 3 then a + push_bit 16 (k8 k 2) else a);
          a = (if len \<ge> 2 then a + push_bit 8 (k8 k 1) else a)
      in (a + k8 k 0, b, c))"

definition hash_finish :: "((nat \<Rightarrow> byte) \<Rightarrow> nat \<Rightarrow> abc \<Rightarrow> abc) \<Rightarrow> (nat \<Rightarrow> byte) \<times> nat \<times> abc \<Rightarrow> u32" where
  "hash_finish last_block = (\<lambda>(k, len, s). if len = 0 then snd (snd s) else final (last_block k len s))"

text \<open>\<open>little\<close> is the build's \<open>HASH_LITTLE_ENDIAN\<close>, \<open>address\<close> where the key is.\<close>

definition hashlittle :: "bool \<Rightarrow> nat \<Rightarrow> (nat \<Rightarrow> byte) \<Rightarrow> nat \<Rightarrow> u32 \<Rightarrow> u32" where
  "hashlittle little address key len initval =
     (let s = 0xdeadbeef + word_of_nat len + initval in
      if little \<and> address mod 4 = 0 then hash_finish last32 (blocks add32 key len (s, s, s))
      else if little \<and> address mod 2 = 0 then hash_finish last16 (blocks add16 key len (s, s, s))
      else hash_finish last8 (blocks add8 key len (s, s, s)))"

text \<open>A string in memory, with \<open>junk\<close> behind it.\<close>

definition text_at :: "string \<Rightarrow> byte \<Rightarrow> nat \<Rightarrow> byte" where
  "text_at s junk i = (if i < length s then byte_of (s ! i) else junk)"

section \<open>The three loops agree\<close>

lemma bit_k8: "bit (k8 k i) n \<longleftrightarrow> n < 8 \<and> bit (k i) n"
  by (auto simp: k8_def bit_simps dest: bit_imp_le_length)

lemma or_plus: "(x :: u32) AND y = 0 \<Longrightarrow> x OR y = x + y"
  by (rule disjunctive_add [symmetric]) (metis bit_0_eq bit_and_iff bot_apply bot_bool_def)

lemma or_bytes:
  "k8 k i OR push_bit 8 (k8 k j) = k8 k i + push_bit 8 (k8 k j)"
  "k8 k i OR push_bit 8 (k8 k j) OR push_bit 16 (k8 k l) = k8 k i + push_bit 8 (k8 k j) + push_bit 16 (k8 k l)"
  "k8 k i OR push_bit 8 (k8 k j) OR push_bit 16 (k8 k l) OR push_bit 24 (k8 k m)
     = k8 k i + push_bit 8 (k8 k j) + push_bit 16 (k8 k l) + push_bit 24 (k8 k m)"
proof -
  show 1: "k8 k i OR push_bit 8 (k8 k j) = k8 k i + push_bit 8 (k8 k j)"
    by (rule or_plus) (rule bit_eqI, auto simp: bit_simps bit_k8)
  show 2: "k8 k i OR push_bit 8 (k8 k j) OR push_bit 16 (k8 k l) = k8 k i + push_bit 8 (k8 k j) + push_bit 16 (k8 k l)"
    unfolding 1 [symmetric] or.assoc [symmetric] by (rule or_plus) (rule bit_eqI, auto simp: bit_simps bit_k8)
  show "k8 k i OR push_bit 8 (k8 k j) OR push_bit 16 (k8 k l) OR push_bit 24 (k8 k m)
     = k8 k i + push_bit 8 (k8 k j) + push_bit 16 (k8 k l) + push_bit 24 (k8 k m)"
    unfolding 2 [symmetric] or.assoc [symmetric] by (rule or_plus) (rule bit_eqI, auto simp: bit_simps bit_k8)
qed

lemma k16_bytes: "k16 k i = k8 k (2 * i) + push_bit 8 (k8 k (2 * i + 1))"
  by (simp only: k16_def or_bytes)

lemma k32_mask:
  "k32 k i AND 0xff = k8 k (4 * i)"
  "k32 k i AND 0xffff = k8 k (4 * i) + push_bit 8 (k8 k (4 * i + 1))"
  "k32 k i AND 0xffffff = k8 k (4 * i) + push_bit 8 (k8 k (4 * i + 1)) + push_bit 16 (k8 k (4 * i + 2))"
proof -
  have m: "(0xff :: u32) = mask 8" "(0xffff :: u32) = mask 16" "(0xffffff :: u32) = mask 24"
    by (simp_all add: mask_eq_exp_minus_1)
  show "k32 k i AND 0xff = k8 k (4 * i)"
    unfolding m k32_def by (rule bit_eqI) (auto simp: bit_simps bit_k8)
  show "k32 k i AND 0xffff = k8 k (4 * i) + push_bit 8 (k8 k (4 * i + 1))"
    unfolding m k32_def or_bytes(1) [symmetric] by (rule bit_eqI) (auto simp: bit_simps bit_k8)
  show "k32 k i AND 0xffffff = k8 k (4 * i) + push_bit 8 (k8 k (4 * i + 1)) + push_bit 16 (k8 k (4 * i + 2))"
    unfolding m k32_def or_bytes(2) [symmetric] by (rule bit_eqI) (auto simp: bit_simps bit_k8)
qed

lemma k32_bytes:
  "k32 k i = k8 k (4 * i) + push_bit 8 (k8 k (4 * i + 1)) + push_bit 16 (k8 k (4 * i + 2)) + push_bit 24 (k8 k (4 * i + 3))"
  by (simp only: k32_def or_bytes)

lemma k32_at:
  "k32 k 0 = k8 k 0 + push_bit 8 (k8 k 1) + push_bit 16 (k8 k 2) + push_bit 24 (k8 k 3)"
  "k32 k 1 = k8 k 4 + push_bit 8 (k8 k 5) + push_bit 16 (k8 k 6) + push_bit 24 (k8 k 7)"
  "k32 k 2 = k8 k 8 + push_bit 8 (k8 k 9) + push_bit 16 (k8 k 10) + push_bit 24 (k8 k 11)"
  using k32_bytes [of k 0] k32_bytes [of k 1] k32_bytes [of k 2] by (simp_all add: numeral_2_eq_2)

lemma mask_at:
  "k32 k 0 AND 0xff = k8 k 0"
  "k32 k 0 AND 0xffff = k8 k 0 + push_bit 8 (k8 k 1)"
  "k32 k 0 AND 0xffffff = k8 k 0 + push_bit 8 (k8 k 1) + push_bit 16 (k8 k 2)"
  "k32 k 1 AND 0xff = k8 k 4"
  "k32 k 1 AND 0xffff = k8 k 4 + push_bit 8 (k8 k 5)"
  "k32 k 1 AND 0xffffff = k8 k 4 + push_bit 8 (k8 k 5) + push_bit 16 (k8 k 6)"
  "k32 k 2 AND 0xff = k8 k 8"
  "k32 k 2 AND 0xffff = k8 k 8 + push_bit 8 (k8 k 9)"
  "k32 k 2 AND 0xffffff = k8 k 8 + push_bit 8 (k8 k 9) + push_bit 16 (k8 k 10)"
  using k32_mask [of k 0] k32_mask [of k 1] k32_mask [of k 2] by (simp_all add: numeral_2_eq_2)

lemma k16_at:
  "k16 k 0 = k8 k 0 + push_bit 8 (k8 k 1)"
  "k16 k 1 = k8 k 2 + push_bit 8 (k8 k 3)"
  "k16 k 2 = k8 k 4 + push_bit 8 (k8 k 5)"
  "k16 k 3 = k8 k 6 + push_bit 8 (k8 k 7)"
  "k16 k 4 = k8 k 8 + push_bit 8 (k8 k 9)"
  "k16 k 5 = k8 k 10 + push_bit 8 (k8 k 11)"
  using k16_bytes [of k 0] k16_bytes [of k 1] k16_bytes [of k 2] k16_bytes [of k 3] k16_bytes [of k 4] k16_bytes [of k 5]
  by simp_all

lemma push_pair: "push_bit 16 (x + push_bit 8 y) = push_bit 16 x + push_bit 24 (y :: u32)"
  by (simp add: push_bit_add push_bit_push_bit)

lemma adds_agree: "add32 k s = add8 k s" "add16 k s = add8 k s"
  by (cases s; simp only: add32.simps add16.simps add8.simps k32_at k16_at push_pair add_ac)+

lemma key_rest_cases:
  "0 < (len :: nat) \<Longrightarrow> len \<le> 12 \<Longrightarrow> len \<in> {1, 2, 3, 4, 5, 6, 7, 8, 9, 10, 11, 12}"
  by (simp, arith)

lemma last32_agrees: "0 < len \<Longrightarrow> len \<le> 12 \<Longrightarrow> last32 k len s = last8 k len s"
  by (drule (1) key_rest_cases, cases s)
    (elim insertE emptyE; hypsubst; simp del: One_nat_def add: mask_at; simp only: k32_at add_ac)

lemma last16_agrees: "0 < len \<Longrightarrow> len \<le> 12 \<Longrightarrow> last16 k len s = last8 k len s"
  by (drule (1) key_rest_cases, cases s)
    (elim insertE emptyE; hypsubst; simp del: One_nat_def; simp only: k16_at push_pair add_ac)

lemma blocks_rest: "blocks add k len s = (k', len', s') \<Longrightarrow> len' \<le> 12"
proof (induction add k len s rule: blocks.induct)
  case (1 add k len s)
  then show ?case by (simp add: blocks.simps [of add k] split: if_splits)
qed

lemma last8_cong: "(\<And>i. i < len \<Longrightarrow> k i = k' i) \<Longrightarrow> 0 < len \<Longrightarrow> last8 k len s = last8 k' len s"
  by (cases s) (simp add: k8_def cong: if_cong split del: if_split)

lemma add8_cong: "(\<And>i. i < 12 \<Longrightarrow> k i = k' i) \<Longrightarrow> add8 k s = add8 k' s"
  by (cases s) (simp add: k8_def)

lemma hash_bytes_cong:
  "(\<And>i. i < len \<Longrightarrow> k i = k' i) \<Longrightarrow> hash_finish last8 (blocks add8 k len s) = hash_finish last8 (blocks add8 k' len s)"
proof (induction add8 k len s arbitrary: k' rule: blocks.induct)
  case (1 k len s)
  show ?case
  proof (cases "len > 12")
    case True
    have "add8 k s = add8 k' s" using 1(2) True by (intro add8_cong) simp
    moreover have "k (12 + i) = k' (12 + i)" if "i < len - 12" for i using 1(2) that by simp
    ultimately show ?thesis
      using 1(1) [OF True, of "\<lambda>i. k' (12 + i)"] True
      by (subst (1 2) blocks.simps) simp
  next
    case False
    with 1(2) show ?thesis
      by (auto simp: hash_finish_def blocks.simps [of add8 k] blocks.simps [of add8 k'] intro: arg_cong [where f = final] last8_cong)
  qed
qed

lemma hash_finish_agrees:
  assumes "\<And>k len s. 0 < len \<Longrightarrow> len \<le> 12 \<Longrightarrow> last_block k len s = last8 k len s"
  shows "hash_finish last_block (blocks add k len s) = hash_finish last8 (blocks add k len s)"
proof -
  obtain k' len' s' where r: "blocks add k len s = (k', len', s')" by (rule prod_cases3)
  have "len' \<le> 12" by (rule blocks_rest [OF r])
  then show ?thesis by (simp add: r hash_finish_def assms)
qed

lemma hashlittle_bytes:
  "hashlittle little address key len initval =
     (let s = 0xdeadbeef + word_of_nat len + initval in hash_finish last8 (blocks add8 key len (s, s, s)))"
proof -
  have "add32 = add8" "add16 = add8" by (auto intro!: ext simp only: adds_agree)
  then show ?thesis
    by (simp add: hashlittle_def Let_def hash_finish_agrees [OF last32_agrees] hash_finish_agrees [OF last16_agrees])
qed

text \<open>The reversibility that the comment on \<open>mix\<close> promises.\<close>

lemma xor_cancel: "(x :: u32) XOR r = y XOR r \<Longrightarrow> x = y"
  by (metis xor.assoc xor_self_eq xor.right_neutral)

lemma mix_line_inj: "inj (mix_line k)"
  by (rule injI) (auto simp: mix_line_def dest!: xor_cancel)

lemma mix_reversible: "inj mix"
proof -
  have mix: "mix = mix_line 4 \<circ> mix_line 19 \<circ> mix_line 16 \<circ> mix_line 8 \<circ> mix_line 6 \<circ> mix_line 4"
    by (rule ext) (simp add: mix_def)
  show ?thesis unfolding mix by (intro inj_compose mix_line_inj)
qed

text \<open>
  Property C39. The hash of a key depends on its bytes alone: neither the alignment of the string, nor the
  build's choice between word, halfword and byte loads, nor what follows the string in memory, which the
  word loads read, has an effect.  So a key is found again from whatever buffer the caller looks it up with.
\<close>

theorem hashlittle_position_independent:
  assumes "\<And>i. i < len \<Longrightarrow> key i = key' i"
  shows "hashlittle little address key len initval = hashlittle little' address' key' len initval"
  unfolding hashlittle_bytes Let_def by (rule hash_bytes_cong) (rule assms)

theorem hashlittle_position_independent_witness:
  "hashlittle True 4 (text_at ''version'' 0) 7 1 = hashlittle True 5 (text_at ''version'' 0xAA) 7 1"
  by (rule hashlittle_position_independent) (simp add: text_at_def)

end
