(* ===== verification/Hashtable.thy ===== *)
theory Hashtable
  imports Lookup3 Stdio "HOL-Library.AList" "HOL-Library.Monad_Syntax"
begin

unbundle bit_operations_syntax

text \<open>
  The hash table of the JSON library (components/json/jansson/src/hashtable.c): one ring through all pairs,
  kept grouped by bucket, a second ring in the order of insertion, and an array of buckets that point
  at the first and the last pair of their group.  A pair is known by its address; address 0 stands
  for the two ring heads inside the table itself.  The links of each ring are a pair of functions on
  addresses.  A pointer that is no pair has no result, and neither has a loop that does not end
  (\<^const>\<open>None\<close>).  The property is a refinement: every sequence of operations acts like the same sequence on an
  association list in order of insertion.
\<close>

section \<open>State\<close>

record list_t =
  l_prev :: "nat \<Rightarrow> nat"
  l_next :: "nat \<Rightarrow> nat"

record 'v pair_t =
  p_hash :: u32
  p_value :: 'v
  p_key :: string

record bucket_t =
  b_first :: nat
  b_last :: nat

text \<open>\<open>ht_brk\<close> is the allocator's next address; addresses are not used twice.\<close>

record 'v hashtable =
  ht_size :: nat
  ht_buckets :: "bucket_t list"
  ht_order :: nat
  ht_list :: list_t
  ht_ordered_list :: list_t
  ht_pairs :: "nat \<rightharpoonup> 'v pair_t"
  ht_brk :: nat

definition INITIAL_HASHTABLE_ORDER :: nat where
  "INITIAL_HASHTABLE_ORDER = 3"

definition jsonp_malloc :: "env \<Rightarrow> nat \<Rightarrow> bool" where
  "jsonp_malloc e n = (n \<noteq> 0 \<and> os_alloc e n)"

definition hash_str :: "u32 \<Rightarrow> string \<Rightarrow> u32" where
  "hash_str seed key = hashlittle False 0 (text_at key 0) (length key) seed"

section \<open>Rings\<close>

definition hash_list_init :: "list_t \<Rightarrow> nat \<Rightarrow> list_t" where
  "hash_list_init l lst = l\<lparr>l_next := (l_next l)(lst := lst), l_prev := (l_prev l)(lst := lst)\<rparr>"

definition list_insert :: "list_t \<Rightarrow> nat \<Rightarrow> nat \<Rightarrow> list_t" where
  "list_insert l lst nd =
     (let l = l\<lparr>l_next := (l_next l)(nd := lst)\<rparr>;
          l = l\<lparr>l_prev := (l_prev l)(nd := l_prev l lst)\<rparr>;
          l = l\<lparr>l_next := (l_next l)(l_prev l lst := nd)\<rparr>
      in l\<lparr>l_prev := (l_prev l)(lst := nd)\<rparr>)"

definition list_remove :: "list_t \<Rightarrow> nat \<Rightarrow> list_t" where
  "list_remove l lst =
     (let l = l\<lparr>l_next := (l_next l)(l_prev l lst := l_next l lst)\<rparr>
      in l\<lparr>l_prev := (l_prev l)(l_next l lst := l_prev l lst)\<rparr>)"

section \<open>Operations\<close>

definition bucket_is_empty :: "bucket_t \<Rightarrow> bool" where
  "bucket_is_empty b = (b_first b = 0 \<and> b_first b = b_last b)"

definition insert_to_bucket :: "'v hashtable \<Rightarrow> nat \<Rightarrow> nat \<Rightarrow> 'v hashtable option" where
  "insert_to_bucket h i lst =
     (if i < length (ht_buckets h) then
        let b = ht_buckets h ! i in
        if bucket_is_empty b
        then Some (h\<lparr>ht_list := list_insert (ht_list h) 0 lst,
                     ht_buckets := (ht_buckets h)[i := \<lparr>b_first = lst, b_last = lst\<rparr>]\<rparr>)
        else Some (h\<lparr>ht_list := list_insert (ht_list h) (b_first b) lst,
                     ht_buckets := (ht_buckets h)[i := b\<lparr>b_first := lst\<rparr>]\<rparr>)
      else None)"

partial_function (option) find_from :: "'v hashtable \<Rightarrow> bucket_t \<Rightarrow> string \<Rightarrow> u32 \<Rightarrow> nat \<Rightarrow> nat option option" where
  "find_from h b key hash lst =
     do { pair \<leftarrow> ht_pairs h lst;
          if p_hash pair = hash \<and> p_key pair = key then Some (Some lst)
          else if lst = b_last b then Some None
          else find_from h b key hash (l_next (ht_list h) lst) }"

definition hashtable_find_pair :: "'v hashtable \<Rightarrow> nat \<Rightarrow> string \<Rightarrow> u32 \<Rightarrow> nat option option" where
  "hashtable_find_pair h i key hash =
     (if i < length (ht_buckets h) then
        let b = ht_buckets h ! i in
        if bucket_is_empty b then Some None else find_from h b key hash (b_first b)
      else None)"

definition bucket_of :: "'v hashtable \<Rightarrow> u32 \<Rightarrow> nat" where
  "bucket_of h hash = unat (hash AND hashmask (ht_order h))"

definition hashtable_do_del :: "'v hashtable \<Rightarrow> string \<Rightarrow> u32 \<Rightarrow> (int \<times> 'v hashtable) option" where
  "hashtable_do_del h key hash =
     (let i = bucket_of h hash in
      do { found \<leftarrow> hashtable_find_pair h i key hash;
           case found of
             None \<Rightarrow> Some (-1, h)
           | Some pair \<Rightarrow>
               let b = ht_buckets h ! i;
                   b = (if pair = b_first b \<and> pair = b_last b then \<lparr>b_first = 0, b_last = 0\<rparr>
                        else if pair = b_first b then b\<lparr>b_first := l_next (ht_list h) pair\<rparr>
                        else if pair = b_last b then b\<lparr>b_last := l_prev (ht_list h) pair\<rparr>
                        else b)
               in Some (0, h\<lparr>ht_buckets := (ht_buckets h)[i := b],
                             ht_list := list_remove (ht_list h) pair,
                             ht_ordered_list := list_remove (ht_ordered_list h) pair,
                             ht_pairs := (ht_pairs h)(pair := None),
                             ht_size := ht_size h - 1\<rparr>) })"

partial_function (option) clear_from :: "'v hashtable \<Rightarrow> nat \<Rightarrow> 'v hashtable option" where
  "clear_from h lst =
     (if lst = 0 then Some h
      else do { pair \<leftarrow> ht_pairs h lst;
                clear_from (h\<lparr>ht_pairs := (ht_pairs h)(lst := None)\<rparr>) (l_next (ht_list h) lst) })"

definition hashtable_do_clear :: "'v hashtable \<Rightarrow> 'v hashtable option" where
  "hashtable_do_clear h = clear_from h (l_next (ht_list h) 0)"

partial_function (option) rehash_from :: "u32 \<Rightarrow> 'v hashtable \<Rightarrow> nat \<Rightarrow> 'v hashtable option" where
  "rehash_from new_size h lst =
     (if lst = 0 then Some h
      else do { let nxt = l_next (ht_list h) lst;
                pair \<leftarrow> ht_pairs h lst;
                h \<leftarrow> insert_to_bucket h (unat (p_hash pair mod new_size)) lst;
                rehash_from new_size h nxt })"

definition empty_buckets :: "nat \<Rightarrow> bucket_t list" where
  "empty_buckets order = replicate (unat (hashsize order)) \<lparr>b_first = 0, b_last = 0\<rparr>"

text \<open>The argument of \<open>jsonp_malloc\<close> is a 32-bit product: a \<open>bucket_t\<close> has eight bytes.\<close>

definition hashtable_do_rehash :: "env \<Rightarrow> 'v hashtable \<Rightarrow> (int \<times> 'v hashtable) option" where
  "hashtable_do_rehash e h =
     (let new_order = ht_order h + 1;
          new_size = hashsize new_order
      in if \<not> jsonp_malloc e (unat (new_size * 8)) then Some (-1, h)
         else
           let lst = l_next (ht_list h) 0;
               h = h\<lparr>ht_order := new_order, ht_buckets := empty_buckets new_order,
                     ht_list := hash_list_init (ht_list h) 0\<rparr>
           in do { h \<leftarrow> rehash_from new_size h lst; Some (0, h) })"

definition hashtable_init :: "env \<Rightarrow> 'v hashtable option" where
  "hashtable_init e =
     (if \<not> jsonp_malloc e (unat (hashsize INITIAL_HASHTABLE_ORDER * 8)) then None
      else Some \<lparr>ht_size = 0, ht_buckets = empty_buckets INITIAL_HASHTABLE_ORDER, ht_order = INITIAL_HASHTABLE_ORDER,
                 ht_list = \<lparr>l_prev = id, l_next = id\<rparr>, ht_ordered_list = \<lparr>l_prev = id, l_next = id\<rparr>,
                 ht_pairs = Map.empty, ht_brk = 1\<rparr>)"

text \<open>A \<open>pair_t\<close> has 24 bytes before its key.\<close>

definition hashtable_insert :: "env \<Rightarrow> 'v hashtable \<Rightarrow> string \<Rightarrow> u32 \<Rightarrow> 'v \<Rightarrow> (int \<times> 'v hashtable) option" where
  "hashtable_insert e h key hash v =
     (if length key \<ge> 2 ^ 32 - 1 - 24 \<or> \<not> jsonp_malloc e (24 + length key + 1) then Some (-1, h)
      else
        let pair = ht_brk h;
            h = h\<lparr>ht_brk := pair + 1, ht_pairs := (ht_pairs h)(pair \<mapsto> \<lparr>p_hash = hash, p_value = v, p_key = key\<rparr>),
                  ht_list := hash_list_init (ht_list h) pair,
                  ht_ordered_list := hash_list_init (ht_ordered_list h) pair\<rparr>
        in do { h \<leftarrow> insert_to_bucket h (bucket_of h hash) pair;
                Some (0, h\<lparr>ht_ordered_list := list_insert (ht_ordered_list h) 0 pair, ht_size := ht_size h + 1\<rparr>) })"

definition hashtable_set :: "env \<Rightarrow> u32 \<Rightarrow> 'v hashtable \<Rightarrow> string \<Rightarrow> 'v \<Rightarrow> (int \<times> 'v hashtable) option" where
  "hashtable_set e seed h key v =
     do { (rc, h) \<leftarrow> (if ht_size h \<ge> unat (hashsize (ht_order h)) then hashtable_do_rehash e h else Some (0, h));
          if rc \<noteq> 0 then Some (-1, h)
          else
            let hash = hash_str seed key in
            do { found \<leftarrow> hashtable_find_pair h (bucket_of h hash) key hash;
                 case found of
                   Some pair \<Rightarrow>
                     Some (0, h\<lparr>ht_pairs := (ht_pairs h)(pair := map_option (p_value_update (\<lambda>_. v)) (ht_pairs h pair))\<rparr>)
                 | None \<Rightarrow> hashtable_insert e h key hash v } }"

definition hashtable_get :: "u32 \<Rightarrow> 'v hashtable \<Rightarrow> string \<Rightarrow> 'v option option" where
  "hashtable_get seed h key =
     (let hash = hash_str seed key in
      do { found \<leftarrow> hashtable_find_pair h (bucket_of h hash) key hash;
           case found of
             None \<Rightarrow> Some None
           | Some pair \<Rightarrow> do { p \<leftarrow> ht_pairs h pair; Some (Some (p_value p)) } })"

definition hashtable_del :: "u32 \<Rightarrow> 'v hashtable \<Rightarrow> string \<Rightarrow> (int \<times> 'v hashtable) option" where
  "hashtable_del seed h key = hashtable_do_del h key (hash_str seed key)"

definition hashtable_clear :: "'v hashtable \<Rightarrow> 'v hashtable option" where
  "hashtable_clear h =
     do { h \<leftarrow> hashtable_do_clear h;
          Some (h\<lparr>ht_buckets := empty_buckets (ht_order h), ht_list := hash_list_init (ht_list h) 0,
                  ht_ordered_list := hash_list_init (ht_ordered_list h) 0, ht_size := 0\<rparr>) }"

definition hashtable_iter_next :: "'v hashtable \<Rightarrow> nat \<Rightarrow> nat option" where
  "hashtable_iter_next h it =
     (if l_next (ht_ordered_list h) it = 0 then None else Some (l_next (ht_ordered_list h) it))"

definition hashtable_iter :: "'v hashtable \<Rightarrow> nat option" where
  "hashtable_iter h = hashtable_iter_next h 0"

text \<open>\<open>json_object_foreach\<close>: the keys and values the iterator passes.\<close>

partial_function (option) iterate_from :: "'v hashtable \<Rightarrow> nat option \<Rightarrow> (string \<times> 'v) list option" where
  "iterate_from h it =
     (case it of
        None \<Rightarrow> Some []
      | Some it \<Rightarrow>
          do { pair \<leftarrow> ht_pairs h it;
               rest \<leftarrow> iterate_from h (hashtable_iter_next h it);
               Some ((p_key pair, p_value pair) # rest) })"

definition hashtable_entries :: "'v hashtable \<Rightarrow> (string \<times> 'v) list option" where
  "hashtable_entries h = iterate_from h (hashtable_iter h)"

section \<open>Rings as sequences\<close>

text \<open>The links between \<open>a\<close> and \<open>b\<close> run through \<open>xs\<close>, in both directions.\<close>

fun chain :: "list_t \<Rightarrow> nat \<Rightarrow> nat list \<Rightarrow> nat \<Rightarrow> bool" where
  "chain l a [] b \<longleftrightarrow> l_next l a = b \<and> l_prev l b = a"
| "chain l a (x # xs) b \<longleftrightarrow> l_next l a = x \<and> l_prev l x = a \<and> chain l x xs b"

definition ring :: "list_t \<Rightarrow> nat list \<Rightarrow> bool" where
  "ring l xs \<longleftrightarrow> chain l 0 xs 0 \<and> distinct (0 # xs)"

lemma chain_append [simp]: "chain l a (xs @ y # ys) b \<longleftrightarrow> chain l a xs y \<and> chain l y ys b"
  by (induction xs arbitrary: a) auto

lemma chain_first: "chain l a xs b \<Longrightarrow> l_next l a = hd (xs @ [b])"
  by (cases xs) auto

lemma chain_last: "chain l a xs b \<Longrightarrow> l_prev l b = last (a # xs)"
  by (induction xs arbitrary: a) auto

lemma chain_cong:
  "(\<And>n. n \<in> set (a # xs) \<Longrightarrow> l_next l' n = l_next l n) \<Longrightarrow> (\<And>n. n \<in> set (xs @ [b]) \<Longrightarrow> l_prev l' n = l_prev l n) \<Longrightarrow>
   chain l a xs b \<Longrightarrow> chain l' a xs b"
  by (induction xs arbitrary: a) auto

text \<open>The end of a chain is moved from \<open>b\<close> to \<open>c\<close>.\<close>

lemma chain_redirect:
  "chain l a xs b \<Longrightarrow> distinct (a # xs) \<Longrightarrow> p = last (a # xs) \<Longrightarrow> (\<And>n. n \<in> set (a # xs) \<Longrightarrow> n \<noteq> p \<Longrightarrow> l_next l' n = l_next l n) \<Longrightarrow>
   l_next l' p = c \<Longrightarrow> (\<And>n. n \<in> set xs \<Longrightarrow> l_prev l' n = l_prev l n) \<Longrightarrow> l_prev l' c = p \<Longrightarrow> chain l' a xs c"
proof (induction xs arbitrary: a)
  case (Cons x xs)
  have "a \<noteq> p" using Cons.prems(2,3) by (metis distinct.simps(2) last_ConsR last_in_set list.distinct(1))
  with Cons show ?case by simp
qed simp

lemma ring_insert:
  assumes "ring l (xs @ ys)" "nd \<notin> set (0 # xs @ ys)"
  shows "ring (list_insert l (hd (ys @ [0])) nd) (xs @ nd # ys)"
proof -
  define t p l' where "t = hd (ys @ [0])" and "p = last (0 # xs)" and "l' = list_insert l t nd"
  note defs = t_def p_def l'_def
  have c: "chain l 0 xs t" and d: "distinct (0 # xs)" and t: "t \<in> set (0 # ys)" and p: "p \<in> set (0 # xs)"
    using assms(1) by (cases ys; simp add: ring_def t_def p_def)+
  have pt: "l_prev l t = p" unfolding p_def by (rule chain_last [OF c])
  have ne: "nd \<noteq> t" "nd \<noteq> p" using assms(2) t p by auto
  have nx: "l_next l' = (l_next l)(nd := t, p := nd)" and pv: "l_prev l' = (l_prev l)(nd := p, t := nd)"
    using ne pt by (simp_all add: l'_def list_insert_def Let_def)
  have tx: "t \<notin> set xs" using assms(1) t by (cases ys; auto simp: ring_def)
  have 1: "chain l' 0 xs nd"
    using assms(2) ne tx by (intro chain_redirect [OF c d p_def]) (auto simp: nx pv)
  have "chain l' nd ys 0"
  proof (cases ys)
    case (Cons y zs)
    have "chain l y zs 0" "y \<noteq> p" "y \<notin> set zs" "p \<notin> set zs" "0 \<notin> set ys"
      using assms(1) Cons p by (auto simp: ring_def)
    then have "chain l' y zs 0"
      using assms(2) Cons by (intro chain_cong [of y zs l' l 0]) (auto simp: nx pv t_def)
    then show ?thesis using Cons ne t_def by (auto simp: nx pv)
  qed (use ne in \<open>simp add: nx pv t_def\<close>)
  with 1 assms show ?thesis by (auto simp: ring_def t_def [symmetric] l'_def [symmetric])
qed

lemma ring_remove:
  assumes "ring l (xs @ nd # ys)"
  shows "ring (list_remove l nd) (xs @ ys)"
proof -
  define q p l' where "q = hd (ys @ [0])" and "p = last (0 # xs)" and "l' = list_remove l nd"
  have c: "chain l 0 xs nd" and e: "chain l nd ys 0" and d: "distinct (0 # xs)" and p: "p \<in> set (0 # xs)"
    using assms by (auto simp: ring_def p_def)
  have q: "q \<in> set (0 # ys)" by (cases ys) (auto simp: q_def)
  have ne: "nd \<noteq> p" "q \<notin> set xs" using assms p q by (auto simp: ring_def)
  have pq: "l_prev l nd = p" "l_next l nd = q" using chain_last [OF c] chain_first [OF e] by (auto simp: p_def q_def)
  have nx: "l_next l' = (l_next l)(p := q)" and pv: "l_prev l' = (l_prev l)(q := p)"
    using ne pq by (simp_all add: l'_def list_remove_def Let_def)
  have 1: "chain l' 0 xs q" using ne by (intro chain_redirect [OF c d p_def]) (auto simp: nx pv)
  show ?thesis
  proof (cases ys)
    case (Cons y zs)
    have "chain l y zs 0" "y \<notin> set zs" "p \<notin> set ys" "0 \<notin> set ys" using e assms p Cons by (auto simp: ring_def)
    then have "chain l' y zs 0" using Cons by (intro chain_cong [of y zs l' l 0]) (auto simp: nx pv q_def)
    with 1 assms Cons show ?thesis by (auto simp: ring_def q_def l'_def)
  qed (use 1 assms in \<open>simp add: ring_def q_def l'_def\<close>)
qed

section \<open>Buckets as groups of the ring\<close>

definition bucket_for :: "nat list \<Rightarrow> bucket_t" where
  "bucket_for s = (if s = [] then \<lparr>b_first = 0, b_last = 0\<rparr> else \<lparr>b_first = hd s, b_last = last s\<rparr>)"

text \<open>The ring is the concatenation of the groups \<open>seg k\<close>, one for every bucket in use, in some order \<open>ks\<close>.\<close>

definition groups :: "(nat \<Rightarrow> nat) \<Rightarrow> bucket_t list \<Rightarrow> nat list \<Rightarrow> (nat \<Rightarrow> nat list) \<Rightarrow> nat list \<Rightarrow> bool" where
  "groups ix bs ks seg xs \<longleftrightarrow>
     xs = concat (map seg ks) \<and> distinct ks \<and> (\<forall>k. seg k \<noteq> [] \<longleftrightarrow> k \<in> set ks) \<and>
     (\<forall>k. \<forall>n \<in> set (seg k). ix n = k) \<and> (\<forall>k < length bs. bs ! k = bucket_for (seg k)) \<and> set ks \<subseteq> {..<length bs}"

definition grouped :: "(nat \<Rightarrow> nat) \<Rightarrow> bucket_t list \<Rightarrow> nat list \<Rightarrow> bool" where
  "grouped ix bs xs \<longleftrightarrow> (\<exists>ks seg. groups ix bs ks seg xs)"

lemma groups_split:
  assumes "groups ix bs ks seg xs" "seg i \<noteq> []"
  obtains k1 k2 where "ks = k1 @ i # k2" "i \<notin> set k1" "i \<notin> set k2"
    "xs = concat (map seg k1) @ seg i @ concat (map seg k2)"
proof -
  have "i \<in> set ks" "distinct ks" using assms by (auto simp: groups_def)
  then obtain k1 k2 where "ks = k1 @ i # k2" by (meson split_list)
  then show ?thesis using assms that by (auto simp: groups_def)
qed

lemma concat_other: "i \<notin> set ks \<Longrightarrow> concat (map (seg(i := s)) ks) = concat (map seg ks)"
  by (induction ks) auto

text \<open>Replacing one group by another non-empty one.\<close>

lemma groups_update:
  assumes "groups ix bs (k1 @ i # k2) seg xs" "s \<noteq> []" "\<forall>n \<in> set s. ix n = i" "i \<notin> set k1" "i \<notin> set k2"
  shows "groups ix (bs[i := bucket_for s]) (k1 @ i # k2) (seg(i := s)) (concat (map seg k1) @ s @ concat (map seg k2))"
  using assms by (auto simp: groups_def concat_other nth_list_update)

lemma groups_new:
  assumes "groups ix bs ks seg xs" "seg i = []" "ix n = i" "i < length bs"
  shows "groups ix (bs[i := bucket_for [n]]) (ks @ [i]) (seg(i := [n])) (xs @ [n])"
proof -
  have "i \<notin> set ks" using assms by (auto simp: groups_def)
  then show ?thesis using assms by (auto simp: groups_def concat_other nth_list_update)
qed

lemma groups_drop:
  assumes "groups ix bs (k1 @ i # k2) seg xs" "i \<notin> set k1" "i \<notin> set k2"
  shows "groups ix (bs[i := bucket_for []]) (k1 @ k2) (seg(i := [])) (concat (map seg k1) @ concat (map seg k2))"
  using assms by (auto simp: groups_def concat_other nth_list_update)

lemma bucket_for_empty: "0 \<notin> set s \<Longrightarrow> bucket_is_empty (bucket_for s) \<longleftrightarrow> s = []"
  by (cases s) (auto simp: bucket_is_empty_def bucket_for_def)

lemma groups_seg_set: "groups ix bs ks seg xs \<Longrightarrow> set (seg k) \<subseteq> set xs"
  by (cases "seg k = []") (auto simp: groups_def)

lemma groups_member: "groups ix bs ks seg xs \<Longrightarrow> n \<in> set xs \<Longrightarrow> n \<in> set (seg (ix n))"
  by (auto simp: groups_def)

lemma insert_to_bucket_ok:
  assumes r: "ring (ht_list h) xs" and g: "grouped ix (ht_buckets h) xs"
    and nd: "nd \<notin> set (0 # xs)" "ix nd = i" "i < length (ht_buckets h)"
  shows "\<exists>l bs xs'. insert_to_bucket h i nd = Some (h\<lparr>ht_list := l, ht_buckets := bs\<rparr>) \<and> ring l xs' \<and> grouped ix bs xs' \<and>
    set xs' = insert nd (set xs) \<and> length bs = length (ht_buckets h) \<and>
    (\<forall>n. n \<notin> insert nd (set (0 # xs)) \<longrightarrow> l_next l n = l_next (ht_list h) n)"
proof -
  obtain ks seg where gs: "groups ix (ht_buckets h) ks seg xs" using g by (auto simp: grouped_def)
  have z: "0 \<notin> set (seg i)" using groups_seg_set [OF gs] r by (auto simp: ring_def)
  have b: "ht_buckets h ! i = bucket_for (seg i)" using gs nd(3) by (simp add: groups_def)
  have prev: "l_prev (ht_list h) (hd (ys @ [0])) \<in> set (0 # xs)" if "xs = ws @ ys" for ws ys
  proof -
    have "chain (ht_list h) 0 ws (hd (ys @ [0]))" using r that by (cases ys) (auto simp: ring_def)
    from chain_last [OF this] that show ?thesis by auto
  qed
  have frame: "l_next (list_insert (ht_list h) (hd (ys @ [0])) nd) n = l_next (ht_list h) n"
    if "xs = ws @ ys" "n \<notin> insert nd (set (0 # xs))" for ws ys n
  proof -
    have "nd \<noteq> hd (ys @ [0])" using that nd(1) by (cases ys) auto
    then show ?thesis using prev [OF that(1)] that(2) by (auto simp: list_insert_def Let_def)
  qed
  show ?thesis
  proof (cases "seg i = []")
    case True
    have ins: "insert_to_bucket h i nd =
        Some (h\<lparr>ht_list := list_insert (ht_list h) 0 nd, ht_buckets := (ht_buckets h)[i := bucket_for [nd]]\<rparr>)"
      using nd b True by (simp add: insert_to_bucket_def Let_def bucket_is_empty_def bucket_for_def)
    have rg: "ring (list_insert (ht_list h) 0 nd) (xs @ [nd])" using ring_insert [of "ht_list h" xs "[]" nd] r nd by simp
    show ?thesis
      using ins rg groups_new [OF gs True nd(2,3)] frame [of xs "[]"]
      by (intro exI [of _ "list_insert (ht_list h) 0 nd"] exI [of _ "(ht_buckets h)[i := bucket_for [nd]]"] exI [of _ "xs @ [nd]"])
        (auto simp: grouped_def)
  next
    case False
    from groups_split [OF gs False] obtain k1 k2 where k: "ks = k1 @ i # k2" "i \<notin> set k1" "i \<notin> set k2"
      "xs = concat (map seg k1) @ seg i @ concat (map seg k2)" by blast
    have f: "hd ((seg i @ concat (map seg k2)) @ [0]) = hd (seg i)" using False by (cases "seg i") auto
    have ins: "insert_to_bucket h i nd =
        Some (h\<lparr>ht_list := list_insert (ht_list h) (hd (seg i)) nd, ht_buckets := (ht_buckets h)[i := bucket_for (nd # seg i)]\<rparr>)"
      using nd b False bucket_for_empty [OF z] by (simp add: insert_to_bucket_def Let_def bucket_for_def)
    have rg: "ring (list_insert (ht_list h) (hd (seg i)) nd) (concat (map seg k1) @ (nd # seg i) @ concat (map seg k2))"
      using ring_insert [of "ht_list h" "concat (map seg k1)" "seg i @ concat (map seg k2)" nd] r nd k f by simp
    have "groups ix ((ht_buckets h)[i := bucket_for (nd # seg i)]) ks (seg(i := nd # seg i)) (concat (map seg k1) @ (nd # seg i) @ concat (map seg k2))"
      using gs k nd(2) unfolding k(1) by (intro groups_update) (auto simp: groups_def)
    with ins rg k frame [of "concat (map seg k1)" "seg i @ concat (map seg k2)"] f show ?thesis
      by (intro exI [of _ "list_insert (ht_list h) (hd (seg i)) nd"] exI [of _ "(ht_buckets h)[i := bucket_for (nd # seg i)]"]
          exI [of _ "concat (map seg k1) @ (nd # seg i) @ concat (map seg k2)"]) (auto simp: grouped_def)
  qed
qed

lemma grouped_cong: "grouped ix bs xs \<Longrightarrow> (\<And>n. n \<in> set xs \<Longrightarrow> ix n = ix' n) \<Longrightarrow> grouped ix' bs xs"
proof -
  assume "grouped ix bs xs" and eq: "\<And>n. n \<in> set xs \<Longrightarrow> ix n = ix' n"
  then obtain ks seg where g: "groups ix bs ks seg xs" by (auto simp: grouped_def)
  have "\<forall>k. \<forall>n \<in> set (seg k). ix' n = k"
  proof (intro allI ballI)
    fix k n assume n: "n \<in> set (seg k)"
    then have "ix n = k" using g by (simp add: groups_def)
    then show "ix' n = k" using eq [of n] groups_seg_set [OF g, of k] n by auto
  qed
  with g have "groups ix' bs ks seg xs" by (simp add: groups_def)
  then show ?thesis by (auto simp: grouped_def)
qed

lemma grouped_empty: "grouped ix (replicate n \<lparr>b_first = 0, b_last = 0\<rparr>) []"
  unfolding grouped_def by (rule exI [of _ "[]"], rule exI [of _ "\<lambda>_. []"]) (simp add: groups_def bucket_for_def)

section \<open>Walks along a ring\<close>

fun walk :: "(nat \<Rightarrow> nat) \<Rightarrow> nat \<Rightarrow> nat list \<Rightarrow> bool" where
  "walk nx x [] \<longleftrightarrow> x = 0"
| "walk nx x (y # ys) \<longleftrightarrow> x = y \<and> y \<noteq> 0 \<and> walk nx (nx y) ys"

lemma chain_walk: "chain l a xs 0 \<Longrightarrow> 0 \<notin> set xs \<Longrightarrow> walk (l_next l) (l_next l a) xs"
  by (induction xs arbitrary: a) auto

lemma ring_walk: "ring l xs \<Longrightarrow> walk (l_next l) (l_next l 0) xs"
  unfolding ring_def by (rule chain_walk) auto

lemma walk_cong: "walk nx x xs \<Longrightarrow> (\<And>n. n \<in> set xs \<Longrightarrow> nx' n = nx n) \<Longrightarrow> walk nx' x xs"
  by (induction xs arbitrary: x) auto

text \<open>The search loop visits the nodes of one group.\<close>

lemma find_from_chain:
  "chain (ht_list h) x xs z \<Longrightarrow> distinct (x # xs) \<Longrightarrow> b_last b = last (x # xs) \<Longrightarrow>
   (\<And>n. n \<in> set (x # xs) \<Longrightarrow> \<exists>p. ht_pairs h n = Some p \<and> p_hash p = hash_str seed (p_key p)) \<Longrightarrow>
   find_from h b key (hash_str seed key) x = Some (List.find (\<lambda>n. p_key (the (ht_pairs h n)) = key) (x # xs))"
proof (induction xs arbitrary: x)
  case Nil
  then obtain p where "ht_pairs h x = Some p" "p_hash p = hash_str seed (p_key p)" by auto
  with Nil show ?case by (subst find_from.simps) auto
next
  case (Cons y xs)
  then obtain p where p: "ht_pairs h x = Some p" "p_hash p = hash_str seed (p_key p)" by auto
  have "x \<noteq> b_last b" using Cons.prems(2,3) by (metis distinct.simps(2) last_ConsR last_in_set list.distinct(1))
  moreover have "find_from h b key (hash_str seed key) y = Some (List.find (\<lambda>n. p_key (the (ht_pairs h n)) = key) (y # xs))"
    using Cons.prems by (intro Cons.IH) auto
  ultimately show ?case using Cons.prems(1) p by (subst find_from.simps) auto
qed

lemma clear_from_walk:
  "walk (l_next (ht_list h)) x xs \<Longrightarrow> distinct xs \<Longrightarrow> set xs \<subseteq> dom (ht_pairs h) \<Longrightarrow>
   clear_from h x = Some (h\<lparr>ht_pairs := ht_pairs h |` (- set xs)\<rparr>)"
proof (induction xs arbitrary: h x)
  case Nil
  have "ht_pairs h |` UNIV = ht_pairs h" by (simp add: restrict_map_def)
  with Nil show ?case by (subst clear_from.simps) simp
next
  case (Cons y ys)
  then obtain p where p: "ht_pairs h y = Some p" by auto
  let ?h = "h\<lparr>ht_pairs := (ht_pairs h)(y := None)\<rparr>"
  have "clear_from ?h (l_next (ht_list h) y) = Some (?h\<lparr>ht_pairs := ht_pairs ?h |` (- set ys)\<rparr>)"
    using Cons.prems by (intro Cons.IH) auto
  moreover have "(ht_pairs h)(y := None) |` (- set ys) = ht_pairs h |` (- set (y # ys))"
    by (rule ext) (auto simp: restrict_map_def)
  ultimately show ?case using Cons.prems p by (subst clear_from.simps) simp
qed

lemma iterate_from_walk:
  "walk (l_next (ht_ordered_list h)) x xs \<Longrightarrow> set xs \<subseteq> dom (ht_pairs h) \<Longrightarrow>
   iterate_from h (if x = 0 then None else Some x) = Some (map (\<lambda>n. (p_key (the (ht_pairs h n)), p_value (the (ht_pairs h n)))) xs)"
proof (induction xs arbitrary: x)
  case Nil
  then show ?case by (subst iterate_from.simps) simp
next
  case (Cons y ys)
  then obtain p where "ht_pairs h y = Some p" by auto
  with Cons show ?case by (subst iterate_from.simps) (simp add: hashtable_iter_next_def)
qed

lemma rehash_from_walk:
  "walk (l_next (ht_list h)) x rs \<Longrightarrow> distinct rs \<Longrightarrow> set rs \<inter> set (0 # xs) = {} \<Longrightarrow> ring (ht_list h) xs \<Longrightarrow>
   grouped ix (ht_buckets h) xs \<Longrightarrow>
   (\<And>n. n \<in> set rs \<Longrightarrow> \<exists>p. ht_pairs h n = Some p \<and> unat (p_hash p mod new_size) = ix n \<and> ix n < length (ht_buckets h)) \<Longrightarrow>
   \<exists>l bs xs'. rehash_from new_size h x = Some (h\<lparr>ht_list := l, ht_buckets := bs\<rparr>) \<and> ring l xs' \<and> grouped ix bs xs' \<and>
     set xs' = set xs \<union> set rs \<and> length bs = length (ht_buckets h)"
proof (induction rs arbitrary: h x xs)
  case Nil
  then show ?case by (subst rehash_from.simps) (auto intro!: exI [of _ "ht_list h"] exI [of _ "ht_buckets h"] exI [of _ xs])
next
  case (Cons y ys)
  from Cons.prems(6) [of y] obtain p where p: "ht_pairs h y = Some p" "unat (p_hash p mod new_size) = ix y" "ix y < length (ht_buckets h)"
    by auto
  have "y \<notin> set (0 # xs)" using Cons.prems(3) by auto
  from insert_to_bucket_ok [OF Cons.prems(4,5) this refl p(3)] obtain l bs xs1 where
    i: "insert_to_bucket h (ix y) y = Some (h\<lparr>ht_list := l, ht_buckets := bs\<rparr>)" "ring l xs1" "grouped ix bs xs1"
      "set xs1 = insert y (set xs)" "length bs = length (ht_buckets h)"
      "\<forall>n. n \<notin> insert y (set (0 # xs)) \<longrightarrow> l_next l n = l_next (ht_list h) n"
    by (elim exE conjE) (rule that)
  let ?h = "h\<lparr>ht_list := l, ht_buckets := bs\<rparr>"
  have w: "walk (l_next l) (l_next (ht_list h) y) ys"
    by (rule walk_cong [where nx = "l_next (ht_list h)"]) (use Cons.prems(1-3) i(6) in auto)
  have "\<exists>l' bs' xs'. rehash_from new_size ?h (l_next (ht_list h) y) = Some (?h\<lparr>ht_list := l', ht_buckets := bs'\<rparr>) \<and> ring l' xs' \<and>
      grouped ix bs' xs' \<and> set xs' = set xs1 \<union> set ys \<and> length bs' = length (ht_buckets ?h)"
  proof (rule Cons.IH)
    show "walk (l_next (ht_list ?h)) (l_next (ht_list h) y) ys" using w by simp
    show "distinct ys" using Cons.prems(2) by simp
    show "set ys \<inter> set (0 # xs1) = {}" using Cons.prems(2,3) i(4) by auto
    show "ring (ht_list ?h) xs1" "grouped ix (ht_buckets ?h) xs1" using i(2,3) by simp_all
    show "\<exists>p. ht_pairs ?h n = Some p \<and> unat (p_hash p mod new_size) = ix n \<and> ix n < length (ht_buckets ?h)" if "n \<in> set ys" for n
      using Cons.prems(6) [of n] that i(5) by simp
  qed
  then obtain l' bs' xs' where r: "rehash_from new_size ?h (l_next (ht_list h) y) = Some (h\<lparr>ht_list := l', ht_buckets := bs'\<rparr>)"
    and rest: "ring l' xs'" "grouped ix bs' xs'" "set xs' = set xs1 \<union> set ys" "length bs' = length bs" by auto
  have x: "x = y" "y \<noteq> 0" using Cons.prems(1) by auto
  have "rehash_from new_size h x = Some (h\<lparr>ht_list := l', ht_buckets := bs'\<rparr>)"
    using r i(1) p x by (subst rehash_from.simps) simp
  moreover have "set xs' = set xs \<union> set (y # ys)" using rest(3) i(4) by auto
  ultimately show ?case using rest i(5) by metis
qed

section \<open>Refinement to an association list\<close>

lemma unat_hashsize: "n < 32 \<Longrightarrow> unat (hashsize n) = 2 ^ n"
proof -
  assume n: "n < 32"
  then have "(2 :: nat) ^ n < 2 ^ 32" by (rule power_strict_increasing) simp
  then have "unat (word_of_nat (2 ^ n) :: u32) = 2 ^ n" using n by (subst unsigned_of_nat) (simp add: take_bit_nat_eq_self)
  then show ?thesis by (simp add: hashsize_def push_bit_of_1)
qed

lemma bucket_of_mod: "ht_order h < 32 \<Longrightarrow> bucket_of h hash = unat hash mod 2 ^ ht_order h"
proof -
  assume "ht_order h < 32"
  have "hashmask (ht_order h) = mask (ht_order h)" by (simp add: hashmask_def hashsize_def push_bit_of_1 mask_eq_exp_minus_1)
  then have "bucket_of h hash = unat (take_bit (ht_order h) hash)" by (simp only: bucket_of_def take_bit_eq_mask)
  also have "\<dots> = take_bit (ht_order h) (unat hash)" by (simp only: unsigned_take_bit_eq)
  finally show ?thesis by (simp only: take_bit_eq_mod)
qed

lemma unat_mod_hashsize: "n < 32 \<Longrightarrow> unat (hash mod hashsize n) = unat hash mod 2 ^ n"
  by (simp add: unat_mod unat_hashsize)

definition node_key :: "'v hashtable \<Rightarrow> nat \<Rightarrow> string" where
  "node_key h n = p_key (the (ht_pairs h n))"

definition node_value :: "'v hashtable \<Rightarrow> nat \<Rightarrow> 'v" where
  "node_value h n = p_value (the (ht_pairs h n))"

definition node_bucket :: "'v hashtable \<Rightarrow> nat \<Rightarrow> nat" where
  "node_bucket h n = bucket_of h (p_hash (the (ht_pairs h n)))"

text \<open>The invariant: \<open>xs\<close> is the ring by buckets, \<open>os\<close> the ring by age.\<close>

definition table :: "u32 \<Rightarrow> 'v hashtable \<Rightarrow> nat list \<Rightarrow> nat list \<Rightarrow> bool" where
  "table seed h xs os \<longleftrightarrow>
     ring (ht_list h) xs \<and> ring (ht_ordered_list h) os \<and> set xs = dom (ht_pairs h) \<and> set os = dom (ht_pairs h) \<and>
     ht_size h = length os \<and> ht_order h \<le> 28 \<and> length (ht_buckets h) = 2 ^ ht_order h \<and>
     grouped (node_bucket h) (ht_buckets h) xs \<and> 0 < ht_brk h \<and> inj_on (node_key h) (dom (ht_pairs h)) \<and>
     (\<forall>n p. ht_pairs h n = Some p \<longrightarrow> p_hash p = hash_str seed (p_key p) \<and> n < ht_brk h)"

definition represents :: "u32 \<Rightarrow> 'v hashtable \<Rightarrow> (string \<times> 'v) list \<Rightarrow> bool" where
  "represents seed h kvs \<longleftrightarrow> (\<exists>xs os. table seed h xs os \<and> kvs = map (\<lambda>n. (node_key h n, node_value h n)) os)"

lemma hashtable_init_represents: "hashtable_init e = Some h \<Longrightarrow> represents seed h []"
  unfolding represents_def
  by (rule exI [of _ "[]"], rule exI [of _ "[]"])
    (auto simp: hashtable_init_def table_def ring_def INITIAL_HASHTABLE_ORDER_def empty_buckets_def unat_hashsize grouped_empty split: if_splits)

lemma find_pair_ok:
  assumes t: "table seed h xs os"
  shows "\<exists>r. hashtable_find_pair h (bucket_of h (hash_str seed key)) key (hash_str seed key) = Some r \<and>
    (case r of None \<Rightarrow> key \<notin> node_key h ` set os | Some n \<Rightarrow> n \<in> set os \<and> node_key h n = key)"
proof -
  let ?i = "bucket_of h (hash_str seed key)"
  obtain ks seg where gs: "groups (node_bucket h) (ht_buckets h) ks seg xs" using t by (auto simp: table_def grouped_def)
  have ord: "ht_order h < 32" using t by (simp add: table_def)
  have i: "?i < length (ht_buckets h)" using t by (simp add: bucket_of_mod [OF ord] table_def)
  have z: "0 \<notin> set (seg ?i)" using groups_seg_set [OF gs] t by (auto simp: table_def ring_def)
  have b: "ht_buckets h ! ?i = bucket_for (seg ?i)" using gs i by (simp add: groups_def)
  have mem: "n \<in> set (seg ?i)" if "n \<in> set os" "node_key h n = key" for n
  proof -
    have n: "n \<in> set xs" using that t by (simp add: table_def)
    have "node_bucket h n = ?i" using that t by (auto simp: table_def node_bucket_def node_key_def)
    with groups_member [OF gs n] show ?thesis by simp
  qed
  have sub: "set (seg ?i) \<subseteq> set os" using groups_seg_set [OF gs, of ?i] t by (auto simp: table_def)
  show ?thesis
  proof (cases "seg ?i")
    case Nil
    then show ?thesis using b i mem bucket_for_empty [OF z] by (auto simp: hashtable_find_pair_def Let_def)
  next
    case (Cons x rest)
    then have "seg ?i \<noteq> []" by simp
    from groups_split [OF gs this] obtain k1 k2 where xs: "xs = concat (map seg k1) @ seg ?i @ concat (map seg k2)" by blast
    have d: "distinct xs" "chain (ht_list h) 0 xs 0" using t by (auto simp: table_def ring_def)
    then have dx: "distinct (x # rest)" unfolding xs Cons by auto
    have "\<exists>z. chain (ht_list h) x rest z"
      using d(2) unfolding xs Cons by (cases "concat (map seg k2)") auto
    then obtain z where c: "chain (ht_list h) x rest z" ..
    have "\<exists>p. ht_pairs h n = Some p \<and> p_hash p = hash_str seed (p_key p)" if "n \<in> set (x # rest)" for n
      using sub that t unfolding Cons by (auto simp: table_def)
    from find_from_chain [OF c dx _ this, of "bucket_for (x # rest)" key]
    have "hashtable_find_pair h ?i key (hash_str seed key) = Some (List.find (\<lambda>n. node_key h n = key) (seg ?i))"
      using b i bucket_for_empty [OF z] Cons by (simp add: hashtable_find_pair_def bucket_for_def node_key_def)
    then show ?thesis using mem sub by (cases "List.find (\<lambda>n. node_key h n = key) (seg ?i)") (auto simp: find_None_iff find_Some_iff)
  qed
qed

lemma entries_distinct: "table seed h xs os \<Longrightarrow> distinct (map fst (map (\<lambda>n. (node_key h n, node_value h n)) os))"
  by (auto simp: table_def ring_def distinct_map inj_on_def)

lemma hashtable_get_ok:
  assumes "represents seed h kvs"
  shows "hashtable_get seed h key = Some (map_of kvs key)"
proof -
  obtain xs os where t: "table seed h xs os" and kvs: "kvs = map (\<lambda>n. (node_key h n, node_value h n)) os"
    using assms by (auto simp: represents_def)
  from find_pair_ok [OF t, of key] obtain r where
    r: "hashtable_find_pair h (bucket_of h (hash_str seed key)) key (hash_str seed key) = Some r"
      "case r of None \<Rightarrow> key \<notin> node_key h ` set os | Some n \<Rightarrow> n \<in> set os \<and> node_key h n = key" by auto
  show ?thesis
  proof (cases r)
    case None
    then have "map_of kvs key = None" using r kvs by (auto simp: map_of_eq_None_iff)
    with None r show ?thesis by (simp add: hashtable_get_def)
  next
    case (Some n)
    with r t obtain p where p: "ht_pairs h n = Some p" by (auto simp: table_def)
    have "map_of kvs key = Some (node_value h n)"
      using Some r entries_distinct [OF t] unfolding kvs by (intro map_of_is_SomeI) auto
    with Some r p show ?thesis by (simp add: hashtable_get_def node_value_def)
  qed
qed

lemma hashtable_entries_ok: "represents seed h kvs \<Longrightarrow> hashtable_entries h = Some kvs"
proof -
  assume "represents seed h kvs"
  then obtain xs os where t: "table seed h xs os" and kvs: "kvs = map (\<lambda>n. (node_key h n, node_value h n)) os"
    by (auto simp: represents_def)
  then have "walk (l_next (ht_ordered_list h)) (l_next (ht_ordered_list h) 0) os" "set os \<subseteq> dom (ht_pairs h)"
    by (auto simp: table_def intro: ring_walk)
  from iterate_from_walk [OF this] show ?thesis
    unfolding hashtable_entries_def hashtable_iter_def hashtable_iter_next_def kvs node_key_def node_value_def .
qed

lemma rehash_ok:
  assumes t: "table seed h xs os"
  shows "\<exists>rc h' xs'. hashtable_do_rehash e h = Some (rc, h') \<and> table seed h' xs' os \<and> ht_pairs h' = ht_pairs h \<and>
    (rc = 0 \<longrightarrow> ht_order h' = ht_order h + 1) \<and> (rc \<noteq> 0 \<longrightarrow> h' = h \<and> \<not> jsonp_malloc e (unat (hashsize (ht_order h + 1) * 8)))"
proof (cases "jsonp_malloc e (unat (hashsize (ht_order h + 1) * 8))")
  case False
  then show ?thesis using t by (intro exI [of _ "-1"] exI [of _ h] exI [of _ xs]) (simp add: hashtable_do_rehash_def)
next
  case True
  let ?o = "ht_order h + 1"
  have "?o \<noteq> 29"
  proof
    assume "?o = 29"
    then show False using True by (simp add: jsonp_malloc_def hashsize_def push_bit_of_1)
  qed
  then have o: "?o \<le> 28" using t by (auto simp: table_def)
  let ?h = "h\<lparr>ht_order := ?o, ht_buckets := empty_buckets ?o, ht_list := hash_list_init (ht_list h) 0\<rparr>"
  have r: "ring (ht_list h) xs" and d: "set xs = dom (ht_pairs h)" using t by (auto simp: table_def)
  have len: "length (empty_buckets ?o) = 2 ^ ?o" using o by (simp add: empty_buckets_def unat_hashsize)
  have "\<exists>l bs xs'. rehash_from (hashsize ?o) ?h (l_next (ht_list h) 0) = Some (?h\<lparr>ht_list := l, ht_buckets := bs\<rparr>) \<and> ring l xs' \<and>
      grouped (node_bucket ?h) bs xs' \<and> set xs' = set [] \<union> set xs \<and> length bs = length (ht_buckets ?h)"
  proof (rule rehash_from_walk)
    show "walk (l_next (ht_list ?h)) (l_next (ht_list h) 0) xs"
      by (rule walk_cong [OF ring_walk [OF r]]) (use r in \<open>auto simp: hash_list_init_def ring_def\<close>)
    show "distinct xs" "set xs \<inter> set [0] = {}" using r by (auto simp: ring_def)
    show "ring (ht_list ?h) []" by (simp add: ring_def hash_list_init_def)
    show "grouped (node_bucket ?h) (ht_buckets ?h) []" by (simp add: empty_buckets_def grouped_empty)
    show "\<exists>p. ht_pairs ?h n = Some p \<and> unat (p_hash p mod hashsize ?o) = node_bucket ?h n \<and> node_bucket ?h n < length (ht_buckets ?h)"
      if "n \<in> set xs" for n
      using that d o len by (auto simp: node_bucket_def bucket_of_mod unat_mod_hashsize)
  qed
  then obtain l bs xs' where l: "rehash_from (hashsize ?o) ?h (l_next (ht_list h) 0) = Some (?h\<lparr>ht_list := l, ht_buckets := bs\<rparr>)"
      "ring l xs'" "grouped (node_bucket ?h) bs xs'" "set xs' = set xs" "length bs = 2 ^ ?o" using len by auto
  let ?g = "?h\<lparr>ht_list := l, ht_buckets := bs\<rparr>"
  have nb: "node_bucket ?g = node_bucket ?h" "node_key ?g = node_key h" by (rule ext, simp add: node_bucket_def bucket_of_def node_key_def)+
  have "table seed ?g xs' os" using t l o unfolding table_def nb by simp
  moreover have "hashtable_do_rehash e h = Some (0, ?g)" using True l(1) by (simp add: hashtable_do_rehash_def Let_def)
  ultimately show ?thesis by (intro exI [of _ 0] exI [of _ ?g] exI [of _ xs']) simp
qed

lemma ring_init_frame: "ring l xs \<Longrightarrow> n \<notin> set (0 # xs) \<Longrightarrow> ring (hash_list_init l n) xs"
  unfolding ring_def by (rule conjI, rule chain_cong [of 0 xs "hash_list_init l n" l 0]) (auto simp: hash_list_init_def)

lemma insert_ok:
  assumes t: "table seed h xs os" and new: "key \<notin> node_key h ` set os"
  shows "\<exists>rc h'. hashtable_insert e h key (hash_str seed key) v = Some (rc, h') \<and>
    (rc = 0 \<longrightarrow> (\<exists>xs'. table seed h' xs' (os @ [ht_brk h])) \<and>
       map (\<lambda>n. (node_key h' n, node_value h' n)) (os @ [ht_brk h]) = map (\<lambda>n. (node_key h n, node_value h n)) os @ [(key, v)]) \<and>
    (rc \<noteq> 0 \<longrightarrow> h' = h \<and> (length key \<ge> 2 ^ 32 - 1 - 24 \<or> \<not> jsonp_malloc e (24 + length key + 1)))"
proof (cases "length key \<ge> 2 ^ 32 - 1 - 24 \<or> \<not> jsonp_malloc e (24 + length key + 1)")
  case True
  then show ?thesis by (intro exI [of _ "-1"] exI [of _ h]) (simp add: hashtable_insert_def)
next
  case False
  let ?n = "ht_brk h" and ?hash = "hash_str seed key"
  define k where "k = h\<lparr>ht_brk := ?n + 1, ht_pairs := (ht_pairs h)(?n \<mapsto> \<lparr>p_hash = ?hash, p_value = v, p_key = key\<rparr>),
    ht_list := hash_list_init (ht_list h) ?n, ht_ordered_list := hash_list_init (ht_ordered_list h) ?n\<rparr>"
  have kf: "ht_brk k = ?n + 1" "ht_pairs k = (ht_pairs h)(?n \<mapsto> \<lparr>p_hash = ?hash, p_value = v, p_key = key\<rparr>)" "ht_buckets k = ht_buckets h"
    "ht_order k = ht_order h" "ht_size k = ht_size h" "ht_list k = hash_list_init (ht_list h) ?n"
    "ht_ordered_list k = hash_list_init (ht_ordered_list h) ?n" by (simp_all add: k_def)
  have d: "set xs = dom (ht_pairs h)" "set os = dom (ht_pairs h)" and fresh: "ht_pairs h ?n = None" "0 < ?n"
    using t by (auto simp: table_def)
  then have n: "?n \<notin> set (0 # xs)" "?n \<notin> set (0 # os)" by auto
  have old: "node_bucket k m = node_bucket h m" "node_key k m = node_key h m" "node_value k m = node_value h m" if "m \<noteq> ?n" for m
    using that by (simp_all add: node_bucket_def node_key_def node_value_def bucket_of_def kf)
  have r: "ring (ht_list k) xs" "ring (ht_ordered_list k) os" using t n by (auto simp: table_def kf intro: ring_init_frame)
  have "grouped (node_bucket h) (ht_buckets h) xs" using t by (simp add: table_def)
  then have "grouped (node_bucket k) (ht_buckets h) xs"
  proof (rule grouped_cong)
    fix m assume "m \<in> set xs"
    then have "m \<noteq> ?n" using n by auto
    then show "node_bucket h m = node_bucket k m" by (rule old(1) [symmetric])
  qed
  then have g: "grouped (node_bucket k) (ht_buckets k) xs" by (simp add: kf)
  have o: "ht_order h < 32" using t by (simp add: table_def)
  have nb: "node_bucket k ?n = bucket_of h ?hash" "bucket_of h ?hash < length (ht_buckets k)"
    using t o by (simp add: node_bucket_def bucket_of_def kf) (use t o in \<open>simp add: kf bucket_of_mod table_def\<close>)
  from insert_to_bucket_ok [OF r(1) g n(1) nb] obtain l bs xs' where
    i: "insert_to_bucket k (bucket_of h ?hash) ?n = Some (k\<lparr>ht_list := l, ht_buckets := bs\<rparr>)" "ring l xs'"
      "grouped (node_bucket k) bs xs'" "set xs' = insert ?n (set xs)" "length bs = length (ht_buckets h)"
    unfolding kf by (elim exE conjE) (rule that)
  let ?g = "k\<lparr>ht_list := l, ht_buckets := bs, ht_ordered_list := list_insert (ht_ordered_list k) 0 ?n, ht_size := ht_size h + 1\<rparr>"
  have "ring (ht_ordered_list ?g) (os @ [?n])" using ring_insert [of "ht_ordered_list k" os "[]" ?n] r(2) n(2) by simp
  moreover have gk: "node_bucket ?g = node_bucket k" "node_key ?g = node_key k" "node_value ?g = node_value k"
    by (rule ext, simp add: node_bucket_def node_key_def node_value_def bucket_of_def)+
  moreover have key: "node_key k ?n = key" "node_value k ?n = v" by (simp_all add: node_key_def node_value_def kf)
  moreover have "inj_on (node_key k) (dom (ht_pairs ?g))"
  proof -
    have "node_key k m = node_key h m" if "m \<in> dom (ht_pairs h)" for m using that fresh by (intro old(2)) auto
    then have "inj_on (node_key k) (dom (ht_pairs h)) = inj_on (node_key h) (dom (ht_pairs h))" by (rule inj_on_cong)
    then have "inj_on (node_key k) (dom (ht_pairs h))" using t by (simp add: table_def)
    moreover have "key \<notin> node_key k ` (dom (ht_pairs h) - {?n})" using new old(2) d by auto
    ultimately show ?thesis using fresh key(1) by (simp add: kf)
  qed
  ultimately have "table seed ?g xs' (os @ [?n])"
    using t i d unfolding table_def gk by (auto simp: kf less_Suc_eq)
  moreover have "map (\<lambda>n. (node_key ?g n, node_value ?g n)) (os @ [?n]) = map (\<lambda>n. (node_key h n, node_value h n)) os @ [(key, v)]"
    using n(2) unfolding gk by (auto simp: key intro!: old)
  moreover have "hashtable_insert e h key ?hash v = Some (0, ?g)"
    using False i(1) by (simp add: hashtable_insert_def Let_def bucket_of_def k_def)
  ultimately show ?thesis by (intro exI [of _ 0] exI [of _ ?g]) auto
qed

lemma alist_update_new: "key \<notin> fst ` set kvs \<Longrightarrow> AList.update key v kvs = kvs @ [(key, v)]"
  by (induction kvs) auto

lemma alist_update_at:
  "distinct (map kf os) \<Longrightarrow> n \<in> set os \<Longrightarrow>
   AList.update (kf n) v (map (\<lambda>m. (kf m, vf m)) os) = map (\<lambda>m. (kf m, if m = n then v else vf m)) os"
proof (induction os)
  case (Cons m os)
  have other: "map (\<lambda>m. (kf m, if m = n then v else vf m)) os = map (\<lambda>m. (kf m, vf m)) os" if "n \<notin> set os"
    using that by (induction os) auto
  show ?case
  proof (cases "m = n")
    case True
    then have "n \<notin> set os" using Cons.prems by force
    with True other show ?thesis by simp
  next
    case False
    then have "kf m \<noteq> kf n" using Cons.prems by force
    with False Cons show ?thesis by simp
  qed
qed simp

lemma alist_delete_at:
  "distinct (map kf (as @ n # bs)) \<Longrightarrow> AList.delete (kf n) (map (\<lambda>m. (kf m, vf m)) (as @ n # bs)) = map (\<lambda>m. (kf m, vf m)) (as @ bs)"
proof -
  assume d: "distinct (map kf (as @ n # bs))"
  have keep: "AList.delete (kf n) (map (\<lambda>m. (kf m, vf m)) zs) = map (\<lambda>m. (kf m, vf m)) zs" if "kf n \<notin> kf ` set zs" for zs
    using that by (induction zs) (auto simp: AList.delete_eq)
  then show ?thesis using d keep [of as] keep [of bs] by (auto simp: AList.delete_eq)
qed

lemma overwrite_ok:
  assumes t: "table seed h xs os" and n: "n \<in> set os" "node_key h n = key"
  shows "represents seed (h\<lparr>ht_pairs := (ht_pairs h)(n := map_option (p_value_update (\<lambda>_. v)) (ht_pairs h n))\<rparr>)
    (AList.update key v (map (\<lambda>n. (node_key h n, node_value h n)) os))" (is "represents seed ?h _")
proof -
  have d: "dom (ht_pairs ?h) = dom (ht_pairs h)" using t n by (auto simp: table_def dom_def)
  have p: "ht_pairs h n \<noteq> None" using t n by (auto simp: table_def)
  have k: "node_key ?h = node_key h" "node_bucket ?h = node_bucket h" "node_value ?h = (node_value h)(n := v)"
    using p by (auto simp: node_key_def node_bucket_def node_value_def bucket_of_def fun_eq_iff)
  have "table seed ?h xs os" using t p unfolding table_def d k by (auto split: if_splits)
  moreover have "AList.update key v (map (\<lambda>n. (node_key h n, node_value h n)) os) = map (\<lambda>n. (node_key ?h n, node_value ?h n)) os"
    using alist_update_at [of "node_key h" os n v "node_value h"] entries_distinct [OF t] n by (simp add: k comp_def)
  ultimately show ?thesis unfolding represents_def by blast
qed

lemma hashtable_set_ok:
  assumes "represents seed h kvs"
  shows "\<exists>rc h'. hashtable_set e seed h key v = Some (rc, h') \<and> represents seed h' (if rc = 0 then AList.update key v kvs else kvs) \<and>
    (rc \<noteq> 0 \<longrightarrow> (\<exists>m. \<not> os_alloc e m) \<or> length key \<ge> 2 ^ 32 - 1 - 24 \<or> length kvs \<ge> 2 ^ 28)"
proof -
  obtain xs os where t: "table seed h xs os" and kvs: "kvs = map (\<lambda>n. (node_key h n, node_value h n)) os"
    using assms by (auto simp: represents_def)
  let ?full = "ht_size h \<ge> unat (hashsize (ht_order h))"
  have "\<exists>rc h' xs'. (if ?full then hashtable_do_rehash e h else Some (0, h)) = Some (rc, h') \<and> table seed h' xs' os \<and>
      ht_pairs h' = ht_pairs h \<and> (rc \<noteq> 0 \<longrightarrow> h' = h \<and> ((\<exists>m. \<not> os_alloc e m) \<or> length os \<ge> 2 ^ 28))"
  proof (cases ?full)
    case True
    from rehash_ok [OF t, of e] obtain rc h' xs' where r: "hashtable_do_rehash e h = Some (rc, h')" "table seed h' xs' os"
      "ht_pairs h' = ht_pairs h" "rc \<noteq> 0 \<longrightarrow> h' = h \<and> \<not> jsonp_malloc e (unat (hashsize (ht_order h + 1) * 8))" by blast
    have "(\<exists>m. \<not> os_alloc e m) \<or> length os \<ge> 2 ^ 28" if "rc \<noteq> 0"
    proof (cases "ht_order h = 28")
      case True
      then show ?thesis using t \<open>?full\<close> by (simp add: table_def unat_hashsize)
    next
      case False
      then have "hashsize (ht_order h + 1) * 8 = hashsize (ht_order h + 4)" "ht_order h + 4 < 32"
        using t by (auto simp: table_def hashsize_def push_bit_of_1 power_add)
      then show ?thesis using r(4) that by (auto simp: jsonp_malloc_def unat_hashsize)
    qed
    with r True show ?thesis by (intro exI [of _ rc] exI [of _ h'] exI [of _ xs']) auto
  qed (use t in auto)
  then obtain rc g xs' where g: "(if ?full then hashtable_do_rehash e h else Some (0, h)) = Some (rc, g)" "table seed g xs' os"
    "ht_pairs g = ht_pairs h" "rc \<noteq> 0 \<longrightarrow> g = h \<and> ((\<exists>m. \<not> os_alloc e m) \<or> length os \<ge> 2 ^ 28)" by blast
  have kvs': "kvs = map (\<lambda>n. (node_key g n, node_value g n)) os" using kvs g(3) by (simp add: node_key_def node_value_def)
  show ?thesis
  proof (cases "rc = 0")
    case False
    then show ?thesis using g assms kvs by (intro exI [of _ "-1"] exI [of _ h]) (auto simp: hashtable_set_def)
  next
    case True
    from find_pair_ok [OF g(2), of key] obtain r where
      r: "hashtable_find_pair g (bucket_of g (hash_str seed key)) key (hash_str seed key) = Some r"
        "case r of None \<Rightarrow> key \<notin> node_key g ` set os | Some n \<Rightarrow> n \<in> set os \<and> node_key g n = key" by blast
    show ?thesis
    proof (cases r)
      case (Some n)
      with r g True overwrite_ok [OF g(2), of n key v] kvs' show ?thesis
        by (auto simp: hashtable_set_def Let_def)
    next
      case None
      with r have new: "key \<notin> node_key g ` set os" by simp
      from insert_ok [OF g(2) this, of e v] obtain rc' h' where
        i: "hashtable_insert e g key (hash_str seed key) v = Some (rc', h')"
          "rc' = 0 \<longrightarrow> (\<exists>xs'. table seed h' xs' (os @ [ht_brk g])) \<and>
             map (\<lambda>n. (node_key h' n, node_value h' n)) (os @ [ht_brk g]) = map (\<lambda>n. (node_key g n, node_value g n)) os @ [(key, v)]"
          "rc' \<noteq> 0 \<longrightarrow> h' = g \<and> (length key \<ge> 2 ^ 32 - 1 - 24 \<or> \<not> jsonp_malloc e (24 + length key + 1))" by blast
      have s: "hashtable_set e seed h key v = Some (rc', h')" using g(1) True r(1) None i(1) by (simp add: hashtable_set_def)
      have "AList.update key v kvs = kvs @ [(key, v)]" using new kvs' by (intro alist_update_new) auto
      then have "represents seed h' (if rc' = 0 then AList.update key v kvs else kvs)"
      proof (cases "rc' = 0")
        case True
        with i(2) obtain ys where "table seed h' ys (os @ [ht_brk g])"
          "map (\<lambda>n. (node_key h' n, node_value h' n)) (os @ [ht_brk g]) = kvs @ [(key, v)]" using kvs' by auto
        with True \<open>AList.update key v kvs = kvs @ [(key, v)]\<close> show ?thesis unfolding represents_def by metis
      next
        case False
        with i(3) g(2) kvs' show ?thesis unfolding represents_def by auto
      qed
      moreover have "rc' \<noteq> 0 \<longrightarrow> (\<exists>m. \<not> os_alloc e m) \<or> length key \<ge> 2 ^ 32 - 1 - 24 \<or> length kvs \<ge> 2 ^ 28"
        using i(3) by (auto simp: jsonp_malloc_def)
      ultimately show ?thesis using s by blast
    qed
  qed
qed

lemma bucket_remove_ok:
  assumes g: "grouped ix bs xs" and r: "ring l xs" and n: "n \<in> set xs" "ix n = i" "i < length bs"
    and b: "b = (if n = b_first (bs ! i) \<and> n = b_last (bs ! i) then \<lparr>b_first = 0, b_last = 0\<rparr>
      else if n = b_first (bs ! i) then (bs ! i)\<lparr>b_first := l_next l n\<rparr>
      else if n = b_last (bs ! i) then (bs ! i)\<lparr>b_last := l_prev l n\<rparr> else bs ! i)"
  shows "\<exists>xs'. ring (list_remove l n) xs' \<and> grouped ix (bs[i := b]) xs' \<and> set xs' = set xs - {n}"
proof -
  obtain ks seg where gs: "groups ix bs ks seg xs" using g by (auto simp: grouped_def)
  have "n \<in> set (seg i)" using groups_member [OF gs n(1)] n(2) by simp
  then obtain a c where seg: "seg i = a @ n # c" by (meson split_list)
  then have "seg i \<noteq> []" by simp
  from groups_split [OF gs this] obtain k1 k2 where k: "ks = k1 @ i # k2" "i \<notin> set k1" "i \<notin> set k2"
    "xs = concat (map seg k1) @ seg i @ concat (map seg k2)" by blast
  let ?A = "concat (map seg k1)" and ?C = "concat (map seg k2)"
  have r': "ring l ((?A @ a) @ n # (c @ ?C))" using r unfolding k(4) seg by simp
  then have d: "n \<notin> set a" "n \<notin> set c" by (auto simp: ring_def)
  have "chain l 0 ((?A @ a) @ n # (c @ ?C)) 0" using r' by (simp only: ring_def)
  then have ch: "chain l 0 (?A @ a) n" "chain l n (c @ ?C) 0" unfolding chain_append by simp_all
  have bi: "bs ! i = \<lparr>b_first = hd (a @ [n]), b_last = last (n # c)\<rparr>"
    using gs n(3) seg by (cases a) (auto simp: groups_def bucket_for_def)
  have nx: "l_next l n = hd c" if "c \<noteq> []" using chain_first [OF ch(2)] that by (cases c) auto
  have pv: "l_prev l n = last a" if "a \<noteq> []" using chain_last [OF ch(1)] that by simp
  have f: "n = hd (a @ [n]) \<longleftrightarrow> a = []" using d(1) by (cases a) auto
  have e: "n = last (n # c) \<longleftrightarrow> c = []" using d(2) last_in_set [of c] by (cases "c = []") auto
  have bf: "b = bucket_for (a @ c)"
    unfolding b bi by (cases "a = []"; cases "c = []") (use nx pv f e in \<open>auto simp: bucket_for_def\<close>)
  have "grouped ix (bs[i := b]) (?A @ (a @ c) @ ?C)"
  proof (cases "a @ c = []")
    case True
    then show ?thesis using groups_drop [of ix bs k1 i k2 seg xs] gs k bf by (auto simp: grouped_def)
  next
    case False
    moreover have "\<forall>m \<in> set (a @ c). ix m = i" using gs seg by (force simp: groups_def)
    ultimately have "groups ix (bs[i := b]) (k1 @ i # k2) (seg(i := a @ c)) (?A @ (a @ c) @ ?C)"
      unfolding bf using gs k by (intro groups_update) auto
    then show ?thesis by (auto simp: grouped_def)
  qed
  moreover have "ring (list_remove l n) (?A @ (a @ c) @ ?C)" using ring_remove [OF r'] by simp
  moreover have "set (?A @ (a @ c) @ ?C) = set xs - {n}" using r' unfolding k(4) seg by (auto simp: ring_def)
  ultimately show ?thesis by blast
qed

lemma hashtable_del_ok:
  assumes "represents seed h kvs"
  shows "\<exists>rc h'. hashtable_del seed h key = Some (rc, h') \<and> represents seed h' (AList.delete key kvs) \<and>
    (rc = 0 \<longleftrightarrow> key \<in> fst ` set kvs)"
proof -
  obtain xs os where t: "table seed h xs os" and kvs: "kvs = map (\<lambda>n. (node_key h n, node_value h n)) os"
    using assms by (auto simp: represents_def)
  let ?i = "bucket_of h (hash_str seed key)"
  from find_pair_ok [OF t, of key] obtain r where r: "hashtable_find_pair h ?i key (hash_str seed key) = Some r"
    "case r of None \<Rightarrow> key \<notin> node_key h ` set os | Some n \<Rightarrow> n \<in> set os \<and> node_key h n = key" by blast
  show ?thesis
  proof (cases r)
    case None
    with r kvs have no: "key \<notin> fst ` set kvs" by auto
    then have "AList.delete key kvs = kvs" by (induction kvs) (auto simp: AList.delete_eq)
    with None no r assms show ?thesis
      by (intro exI [of _ "-1"] exI [of _ h]) (simp add: hashtable_del_def hashtable_do_del_def)
  next
    case (Some n)
    with r have n: "n \<in> set os" "node_key h n = key" by auto
    define b where "b = (if n = b_first (ht_buckets h ! ?i) \<and> n = b_last (ht_buckets h ! ?i) then \<lparr>b_first = 0, b_last = 0\<rparr>
      else if n = b_first (ht_buckets h ! ?i) then (ht_buckets h ! ?i)\<lparr>b_first := l_next (ht_list h) n\<rparr>
      else if n = b_last (ht_buckets h ! ?i) then (ht_buckets h ! ?i)\<lparr>b_last := l_prev (ht_list h) n\<rparr> else ht_buckets h ! ?i)"
    define g where "g = h\<lparr>ht_buckets := (ht_buckets h)[?i := b], ht_list := list_remove (ht_list h) n,
      ht_ordered_list := list_remove (ht_ordered_list h) n, ht_pairs := (ht_pairs h)(n := None), ht_size := ht_size h - 1\<rparr>"
    have del: "hashtable_del seed h key = Some (0, g)"
      using r Some by (simp add: hashtable_del_def hashtable_do_del_def Let_def b_def g_def)
    have ord: "ht_order h < 32" using t by (simp add: table_def)
    have nx: "n \<in> set xs" "node_bucket h n = ?i" "?i < length (ht_buckets h)"
      using n t ord by (auto simp: table_def node_bucket_def node_key_def bucket_of_mod)
    from bucket_remove_ok [of "node_bucket h" "ht_buckets h" xs "ht_list h", OF _ _ nx b_def] t obtain xs' where
      xs': "ring (list_remove (ht_list h) n) xs'" "grouped (node_bucket h) ((ht_buckets h)[?i := b]) xs'" "set xs' = set xs - {n}"
      by (auto simp: table_def)
    obtain a c where os: "os = a @ n # c" using n by (meson split_list)
    have ro: "ring (list_remove (ht_ordered_list h) n) (a @ c)" using t unfolding os by (auto simp: table_def intro: ring_remove)
    have same: "node_key g m = node_key h m" "node_value g m = node_value h m" "node_bucket g m = node_bucket h m" if "m \<noteq> n" for m
      using that by (simp_all add: node_key_def node_value_def node_bucket_def bucket_of_def g_def)
    have so: "set (a @ c) = set os - {n}" using t unfolding os by (auto simp: table_def ring_def)
    have gr: "grouped (node_bucket g) ((ht_buckets h)[?i := b]) xs'"
      using xs'(2) by (rule grouped_cong) (use xs'(3) same in auto)
    have "inj_on (node_key h) (dom (ht_pairs h) - {n})" using t by (auto simp: table_def intro: inj_on_subset)
    then have "inj_on (node_key g) (dom (ht_pairs h) - {n})" using same by (auto simp: inj_on_def)
    then have "table seed g xs' (a @ c)"
      using t xs' ro gr so unfolding table_def by (auto simp: g_def os)
    moreover have "AList.delete key kvs = map (\<lambda>n. (node_key g n, node_value g n)) (a @ c)"
    proof -
      have "AList.delete key kvs = map (\<lambda>n. (node_key h n, node_value h n)) (a @ c)"
        using alist_delete_at [of "node_key h" a n c "node_value h"] entries_distinct [OF t] n(2) unfolding kvs os by (simp add: comp_def)
      also have "\<dots> = map (\<lambda>n. (node_key g n, node_value g n)) (a @ c)" using so by (intro map_cong refl) (auto simp: same)
      finally show ?thesis .
    qed
    ultimately have "represents seed g (AList.delete key kvs)" unfolding represents_def by blast
    moreover have "key \<in> fst ` set kvs" using n kvs by force
    ultimately show ?thesis using del by auto
  qed
qed

lemma hashtable_clear_ok:
  assumes "represents seed h kvs"
  shows "\<exists>h'. hashtable_clear h = Some h' \<and> represents seed h' []"
proof -
  obtain xs os where t: "table seed h xs os" using assms by (auto simp: represents_def)
  then have r: "ring (ht_list h) xs" and s: "set xs = dom (ht_pairs h)" by (simp_all add: table_def)
  have "ht_pairs h |` (- dom (ht_pairs h)) = Map.empty" by (rule ext) (auto simp: restrict_map_def)
  with clear_from_walk [OF ring_walk [OF r]] r s
  have c: "hashtable_do_clear h = Some (h\<lparr>ht_pairs := Map.empty\<rparr>)"
    by (simp add: hashtable_do_clear_def ring_def)
  let ?h = "h\<lparr>ht_pairs := Map.empty, ht_buckets := empty_buckets (ht_order h), ht_list := hash_list_init (ht_list h) 0,
    ht_ordered_list := hash_list_init (ht_ordered_list h) 0, ht_size := 0\<rparr>"
  have "table seed ?h [] []"
    using t by (simp add: table_def ring_def hash_list_init_def empty_buckets_def unat_hashsize grouped_empty)
  then have "represents seed ?h []" unfolding represents_def by (intro exI [of _ "[]"]) simp
  moreover have "hashtable_clear h = Some ?h" by (simp add: hashtable_clear_def c)
  ultimately show ?thesis by blast
qed

section \<open>Sequences of operations\<close>

datatype 'v table_op = Put string 'v | Del string | Wipe

text \<open>A run of operations on a table, with the codes they return.\<close>

fun run_ops ::
    "('t \<Rightarrow> string \<Rightarrow> 'v \<Rightarrow> (int \<times> 't) option) \<Rightarrow> ('t \<Rightarrow> string \<Rightarrow> (int \<times> 't) option) \<Rightarrow> ('t \<Rightarrow> 't option) \<Rightarrow>
     'v table_op list \<Rightarrow> 't \<Rightarrow> (int list \<times> 't) option" where
  "run_ops put del wipe [] t = Some ([], t)"
| "run_ops put del wipe (op # ops) t =
     do { (rc, t) \<leftarrow> (case op of Put k v \<Rightarrow> put t k v | Del k \<Rightarrow> del t k | Wipe \<Rightarrow> map_option (Pair 0) (wipe t));
          (rcs, t) \<leftarrow> run_ops put del wipe ops t;
          Some (rc # rcs, t) }"

text \<open>The specification: an association list in order of insertion; a failed \<open>Put\<close> has no effect.\<close>

fun alist_op :: "'v table_op \<Rightarrow> (string \<times> 'v) list \<Rightarrow> (string \<times> 'v) list" where
  "alist_op (Put k v) kvs = AList.update k v kvs"
| "alist_op (Del k) kvs = AList.delete k kvs"
| "alist_op Wipe kvs = []"

fun alist_run :: "'v table_op list \<Rightarrow> int list \<Rightarrow> (string \<times> 'v) list \<Rightarrow> (string \<times> 'v) list" where
  "alist_run (op # ops) (rc # rcs) kvs = alist_run ops rcs (if rc = 0 \<or> (\<exists>k. op = Del k) then alist_op op kvs else kvs)"
| "alist_run _ _ kvs = kvs"

lemma alist_op_length: "length (alist_op op kvs) \<le> length kvs + 1"
proof (cases op)
  case (Put k v)
  have "length (AList.update k v kvs) \<le> length kvs + 1" by (induction kvs) auto
  with Put show ?thesis by simp
qed (auto simp: AList.delete_eq le_SucI)

text \<open>What a client of an ordered table relies on; \<open>fits k n\<close> says that there is room for \<open>k\<close> beside \<open>n\<close> entries.\<close>

locale ordered_table =
  fixes rep :: "'t \<Rightarrow> (string \<times> 'v) list \<Rightarrow> bool"
    and put :: "'t \<Rightarrow> string \<Rightarrow> 'v \<Rightarrow> (int \<times> 't) option"
    and del :: "'t \<Rightarrow> string \<Rightarrow> (int \<times> 't) option"
    and wipe :: "'t \<Rightarrow> 't option"
    and fits :: "string \<Rightarrow> nat \<Rightarrow> bool"
  assumes put_law: "rep t kvs \<Longrightarrow> \<exists>rc t'. put t k v = Some (rc, t') \<and> rep t' (if rc = 0 then AList.update k v kvs else kvs) \<and>
      (fits k (length kvs) \<longrightarrow> rc = 0)"
    and del_law: "rep t kvs \<Longrightarrow> \<exists>rc t'. del t k = Some (rc, t') \<and> rep t' (AList.delete k kvs)"
    and wipe_law: "rep t kvs \<Longrightarrow> \<exists>t'. wipe t = Some t' \<and> rep t' []"
begin

lemma op_refines:
  assumes "rep t kvs"
  shows "\<exists>rc t'. (case op of Put k v \<Rightarrow> put t k v | Del k \<Rightarrow> del t k | Wipe \<Rightarrow> map_option (Pair 0) (wipe t)) = Some (rc, t') \<and>
    rep t' (if rc = 0 \<or> (\<exists>k. op = Del k) then alist_op op kvs else kvs) \<and> ((\<forall>k v. op = Put k v \<longrightarrow> fits k (length kvs)) \<longrightarrow> rc = 0 \<or> (\<exists>k. op = Del k))"
proof (cases op)
  case (Put k v)
  from put_law [OF assms, of k v] obtain rc t' where "put t k v = Some (rc, t')"
    "rep t' (if rc = 0 then AList.update k v kvs else kvs)" "fits k (length kvs) \<longrightarrow> rc = 0" by blast
  with Put show ?thesis by (intro exI [of _ rc] exI [of _ t']) auto
next
  case (Del k)
  then show ?thesis using del_law [OF assms, of k] by auto
next
  case Wipe
  then show ?thesis using wipe_law [OF assms] by auto
qed

lemma run_refines:
  assumes "rep t kvs"
  shows "\<exists>rcs t'. run_ops put del wipe ops t = Some (rcs, t') \<and> length rcs = length ops \<and> rep t' (alist_run ops rcs kvs) \<and>
    ((\<forall>k v n. Put k v \<in> set ops \<and> n < length kvs + length ops \<longrightarrow> fits k n) \<longrightarrow> alist_run ops rcs kvs = fold alist_op ops kvs)"
  using assms
proof (induction ops arbitrary: t kvs)
  case (Cons op ops)
  let ?x = "\<lambda>rc. if rc = 0 \<or> (\<exists>k. op = Del k) then alist_op op kvs else kvs"
  from op_refines [OF Cons.prems, of op] obtain rc t1 where
    1: "(case op of Put k v \<Rightarrow> put t k v | Del k \<Rightarrow> del t k | Wipe \<Rightarrow> map_option (Pair 0) (wipe t)) = Some (rc, t1)" "rep t1 (?x rc)"
      "(\<forall>k v. op = Put k v \<longrightarrow> fits k (length kvs)) \<longrightarrow> rc = 0 \<or> (\<exists>k. op = Del k)" by blast
  from Cons.IH [OF 1(2)] obtain rcs t2 where
    2: "run_ops put del wipe ops t1 = Some (rcs, t2)" "length rcs = length ops" "rep t2 (alist_run ops rcs (?x rc))"
      "(\<forall>k v n. Put k v \<in> set ops \<and> n < length (?x rc) + length ops \<longrightarrow> fits k n) \<longrightarrow> alist_run ops rcs (?x rc) = fold alist_op ops (?x rc)"
    by blast
  have len: "length (?x rc) \<le> length kvs + 1" using alist_op_length [of op kvs] by auto
  have "alist_run (op # ops) (rc # rcs) kvs = fold alist_op (op # ops) kvs"
    if f: "\<forall>k v n. Put k v \<in> set (op # ops) \<and> n < length kvs + length (op # ops) \<longrightarrow> fits k n"
  proof -
    have "fits k (length kvs)" if "op = Put k v" for k v using f [rule_format, of k v "length kvs"] that by simp
    then have "?x rc = alist_op op kvs" using 1(3) by auto
    moreover have "\<forall>k v n. Put k v \<in> set ops \<and> n < length (?x rc) + length ops \<longrightarrow> fits k n"
    proof (intro allI impI)
      fix k v n assume "Put k v \<in> set ops \<and> n < length (?x rc) + length ops"
      then show "fits k n" using f [rule_format, of k v n] len by simp
    qed
    ultimately show ?thesis using 2(4) by simp
  qed
  moreover have "run_ops put del wipe (op # ops) t = Some (rc # rcs, t2)" using 1(1) 2(1) by simp
  moreover have "length (rc # rcs) = length (op # ops)" using 2(2) by simp
  moreover have "rep t2 (alist_run (op # ops) (rc # rcs) kvs)" using 2(3) by simp
  ultimately show ?case by blast
qed simp

end

definition room :: "env \<Rightarrow> string \<Rightarrow> nat \<Rightarrow> bool" where
  "room e k n \<longleftrightarrow> (\<forall>m. os_alloc e m) \<and> length k < 2 ^ 32 - 1 - 24 \<and> n < 2 ^ 28"

interpretation ht: ordered_table "represents seed" "hashtable_set e seed" "hashtable_del seed" hashtable_clear "room e" for e seed
proof unfold_locales
  fix t :: "'v hashtable" and kvs k v
  assume t: "represents seed t kvs"
  from hashtable_set_ok [OF t, of e k v]
  show "\<exists>rc t'. hashtable_set e seed t k v = Some (rc, t') \<and> represents seed t' (if rc = 0 then AList.update k v kvs else kvs) \<and>
      (room e k (length kvs) \<longrightarrow> rc = 0)"
    unfolding room_def by (elim exE conjE) (intro exI conjI, assumption+, auto simp: not_less)
  show "\<exists>rc t'. hashtable_del seed t k = Some (rc, t') \<and> represents seed t' (AList.delete k kvs)"
    using hashtable_del_ok [OF t, of k] by blast
  show "\<exists>t'. hashtable_clear t = Some t' \<and> represents seed t' []" by (rule hashtable_clear_ok [OF t])
qed

lemma represents_size: "represents seed h kvs \<Longrightarrow> ht_size h = length kvs"
  by (auto simp: represents_def table_def)

text \<open>
  Property C40. The hash table refines an association list in order of insertion: from the empty table every
  sequence of insertions, deletions and clearings runs to its end, through all rehashings, without
  a bad pointer; afterwards every look-up gives the value of the list, the iterator passes
  the entries of the list in order, and the stored size is their number.  With a heap that does not fail no insertion
  fails while there are fewer than 2 to the 28th operations; a failed one leaves the entries as they are.
\<close>

theorem hashtable_refines:
  assumes "hashtable_init e = Some h"
  shows "\<exists>rcs h'. run_ops (hashtable_set e seed) (hashtable_del seed) hashtable_clear ops h = Some (rcs, h') \<and> length rcs = length ops \<and>
    (\<forall>key. hashtable_get seed h' key = Some (map_of (alist_run ops rcs []) key)) \<and>
    hashtable_entries h' = Some (alist_run ops rcs []) \<and> ht_size h' = length (alist_run ops rcs []) \<and>
    ((\<forall>m. os_alloc e m) \<and> (\<forall>k v. Put k v \<in> set ops \<longrightarrow> length k < 2 ^ 32 - 25) \<and> length ops < 2 ^ 28 \<longrightarrow>
       alist_run ops rcs [] = fold alist_op ops [])"
proof -
  from ht.run_refines [OF hashtable_init_represents [OF assms, of seed], of e ops] obtain rcs h' where
    r: "run_ops (hashtable_set e seed) (hashtable_del seed) hashtable_clear ops h = Some (rcs, h')" "length rcs = length ops"
      "represents seed h' (alist_run ops rcs [])"
      "(\<forall>k v n. Put k v \<in> set ops \<and> n < length ([] :: (string \<times> 'a) list) + length ops \<longrightarrow> room e k n) \<longrightarrow> alist_run ops rcs [] = fold alist_op ops []"
    by blast
  then show ?thesis
    using hashtable_get_ok [OF r(3)] hashtable_entries_ok [OF r(3)] represents_size [OF r(3)]
    by (intro exI [of _ rcs] exI [of _ h']) (force simp: room_def)
qed

theorem hashtable_refines_witness:
  "\<exists>h rcs h'. hashtable_init healthy_env = Some h \<and>
     run_ops (hashtable_set healthy_env 7) (hashtable_del 7) hashtable_clear [Put ''a'' 1, Put ''b'' (2 :: nat), Del ''a'', Put ''b'' 3] h = Some (rcs, h') \<and>
     hashtable_get 7 h' ''b'' = Some (Some 3) \<and> hashtable_get 7 h' ''a'' = Some None \<and> hashtable_entries h' = Some [(''b'', 3)]"
proof -
  let ?ops = "[Put ''a'' 1, Put ''b'' (2 :: nat), Del ''a'', Put ''b'' 3]"
  obtain h :: "nat hashtable" where h: "hashtable_init healthy_env = Some h"
    by (simp add: hashtable_init_def jsonp_malloc_def healthy_env_def hashsize_def INITIAL_HASHTABLE_ORDER_def push_bit_of_1)
  from hashtable_refines [OF h, of 7 ?ops] obtain rcs h' where
    r: "run_ops (hashtable_set healthy_env 7) (hashtable_del 7) hashtable_clear ?ops h = Some (rcs, h')"
      "\<forall>key. hashtable_get 7 h' key = Some (map_of (alist_run ?ops rcs []) key)" "hashtable_entries h' = Some (alist_run ?ops rcs [])"
      "(\<forall>m. os_alloc healthy_env m) \<and> (\<forall>k v. Put k v \<in> set ?ops \<longrightarrow> length k < 2 ^ 32 - 25) \<and> length ?ops < 2 ^ 28 \<longrightarrow>
         alist_run ?ops rcs [] = fold alist_op ?ops []" by blast
  have "alist_run ?ops rcs [] = [(''b'', 3)]" using r(4) by (auto simp: healthy_env_def AList.delete_eq)
  with h r(1-3) show ?thesis by auto
qed

end
