(* ===== verification/Jansson.thy ===== *)
theory Jansson
  imports Hashtable
begin

unbundle bit_operations_syntax

text \<open>
  The JSON values of the library in components/json/jansson/src: the UTF-8 routines (utf.c) and the
  operations on values (value.c).  A \<open>json_t\<close> is a tree, with the entries of an object in the order of
  its hash table's iterator; \<^theory_text>\<open>Hashtable\<close> shows that the table's operations act on this list as
  \<open>AList.update\<close>, \<open>AList.delete\<close> and \<open>map_of\<close>.  A null pointer is \<^const>\<open>None\<close>; an operation that changes a value in
  place returns it with the code.  From here on the heap does not fail; reference counts, which only
  decide when memory is released, are left out.  The \<open>double\<close> type is a parameter, with the
  operations the code uses on it.
\<close>

section \<open>UTF-8\<close>

definition chr_of :: "int \<Rightarrow> char" where
  "chr_of i = char_of (nat i)"

definition utf8_encode :: "int \<Rightarrow> string option" where
  "utf8_encode codepoint =
     (if codepoint < 0 then None
      else if codepoint < 0x80 then Some [chr_of codepoint]
      else if codepoint < 0x800 then
        Some [chr_of (0xC0 + drop_bit 6 (codepoint AND 0x7C0)), chr_of (0x80 + (codepoint AND 0x03F))]
      else if codepoint < 0x10000 then
        Some [chr_of (0xE0 + drop_bit 12 (codepoint AND 0xF000)), chr_of (0x80 + drop_bit 6 (codepoint AND 0x0FC0)),
              chr_of (0x80 + (codepoint AND 0x003F))]
      else if codepoint \<le> 0x10FFFF then
        Some [chr_of (0xF0 + drop_bit 18 (codepoint AND 0x1C0000)), chr_of (0x80 + drop_bit 12 (codepoint AND 0x03F000)),
              chr_of (0x80 + drop_bit 6 (codepoint AND 0x000FC0)), chr_of (0x80 + (codepoint AND 0x00003F))]
      else None)"

definition utf8_check_first :: "char \<Rightarrow> nat" where
  "utf8_check_first byte =
     (let u = code byte in
      if u < 0x80 then 1
      else if 0x80 \<le> u \<and> u \<le> 0xBF then 0
      else if u = 0xC0 \<or> u = 0xC1 then 0
      else if 0xC2 \<le> u \<and> u \<le> 0xDF then 2
      else if 0xE0 \<le> u \<and> u \<le> 0xEF then 3
      else if 0xF0 \<le> u \<and> u \<le> 0xF4 then 4
      else 0)"

text \<open>The loop over the continuation bytes, then the checks; the result is \<open>*codepoint\<close>.\<close>

fun utf8_continue :: "int \<Rightarrow> string \<Rightarrow> int option" where
  "utf8_continue v [] = Some v"
| "utf8_continue v (c # cs) =
     (if code c < 0x80 \<or> code c > 0xBF then None else utf8_continue (v * 64 + (int (code c) AND 0x3F)) cs)"

definition utf8_check_full :: "string \<Rightarrow> nat \<Rightarrow> int option" where
  "utf8_check_full buffer n =
     (let u = int (code (hd buffer)) in
      do { v \<leftarrow> (if n = 2 then Some (u AND 0x1F) else if n = 3 then Some (u AND 0xF) else if n = 4 then Some (u AND 0x7) else None);
           v \<leftarrow> utf8_continue v (take (n - 1) (tl buffer));
           if v > 0x10FFFF then None
           else if 0xD800 \<le> v \<and> v \<le> 0xDFFF then None
           else if (n = 2 \<and> v < 0x80) \<or> (n = 3 \<and> v < 0x800) \<or> (n = 4 \<and> v < 0x10000) then None
           else Some v })"

text \<open>The length of the first sequence and its code point; \<open>buffer\<close> has \<open>bufsize\<close> bytes.\<close>

definition utf8_iterate :: "string \<Rightarrow> (nat \<times> int) option" where
  "utf8_iterate buffer =
     (let count = utf8_check_first (hd buffer) in
      if count = 0 then None
      else if count = 1 then Some (1, int (code (hd buffer)))
      else if count > length buffer then None
      else map_option (Pair count) (utf8_check_full buffer count))"

function utf8_check_string :: "string \<Rightarrow> bool" where
  "utf8_check_string s =
     (if s = [] then True
      else
        let count = utf8_check_first (hd s) in
        if count = 0 then False
        else if count > 1 \<and> (count > length s \<or> utf8_check_full s count = None) then False
        else utf8_check_string (drop count s))"
  by auto
termination by (relation "measure length") auto

declare utf8_check_string.simps [simp del]

section \<open>Values\<close>

datatype 'r json =
  Json_object "(string \<times> 'r json) list"
| Json_array "'r json list"
| Json_string string
| Json_integer int
| Json_real 'r
| Json_true
| Json_false
| Json_null

type_synonym 'r json_p = "'r json option"

subsection \<open>Objects\<close>

definition json_object :: "'r json" where
  "json_object = Json_object []"

fun json_is_object :: "'r json_p \<Rightarrow> bool" where
  "json_is_object (Some (Json_object _)) = True"
| "json_is_object _ = False"

fun json_is_array :: "'r json_p \<Rightarrow> bool" where
  "json_is_array (Some (Json_array _)) = True"
| "json_is_array _ = False"

fun json_object_size :: "'r json_p \<Rightarrow> nat" where
  "json_object_size (Some (Json_object kvs)) = length kvs"
| "json_object_size _ = 0"

fun json_object_get :: "'r json_p \<Rightarrow> string \<Rightarrow> 'r json_p" where
  "json_object_get (Some (Json_object kvs)) key = map_of kvs key"
| "json_object_get _ key = None"

fun json_object_set_new_nocheck :: "'r json_p \<Rightarrow> string \<Rightarrow> 'r json_p \<Rightarrow> int \<times> 'r json_p" where
  "json_object_set_new_nocheck (Some (Json_object kvs)) key (Some v) = (0, Some (Json_object (AList.update key v kvs)))"
| "json_object_set_new_nocheck json key v = (-1, json)"

definition json_object_set_new :: "'r json_p \<Rightarrow> string \<Rightarrow> 'r json_p \<Rightarrow> int \<times> 'r json_p" where
  "json_object_set_new json key v =
     (if \<not> utf8_check_string key then (-1, json) else json_object_set_new_nocheck json key v)"

fun json_object_del :: "'r json_p \<Rightarrow> string \<Rightarrow> int \<times> 'r json_p" where
  "json_object_del (Some (Json_object kvs)) key =
     (if map_of kvs key = None then -1 else 0, Some (Json_object (AList.delete key kvs)))"
| "json_object_del json key = (-1, json)"

fun json_object_clear :: "'r json_p \<Rightarrow> int \<times> 'r json_p" where
  "json_object_clear (Some (Json_object kvs)) = (0, Some (Json_object []))"
| "json_object_clear json = (-1, json)"

fun json_object_update :: "'r json_p \<Rightarrow> 'r json_p \<Rightarrow> int \<times> 'r json_p" where
  "json_object_update (Some (Json_object kvs)) (Some (Json_object other)) =
     (0, Some (Json_object (fold (\<lambda>(key, v). AList.update key v) other kvs)))"
| "json_object_update json other = (-1, json)"

fun json_object_update_existing :: "'r json_p \<Rightarrow> 'r json_p \<Rightarrow> int \<times> 'r json_p" where
  "json_object_update_existing (Some (Json_object kvs)) (Some (Json_object other)) =
     (0, Some (Json_object (fold (\<lambda>(key, v) kvs. if map_of kvs key \<noteq> None then AList.update key v kvs else kvs) other kvs)))"
| "json_object_update_existing json other = (-1, json)"

fun json_object_update_missing :: "'r json_p \<Rightarrow> 'r json_p \<Rightarrow> int \<times> 'r json_p" where
  "json_object_update_missing (Some (Json_object kvs)) (Some (Json_object other)) =
     (0, Some (Json_object (fold (\<lambda>(key, v) kvs. if map_of kvs key = None then AList.update key v kvs else kvs) other kvs)))"
| "json_object_update_missing json other = (-1, json)"

subsection \<open>Arrays\<close>

definition json_array :: "'r json" where
  "json_array = Json_array []"

fun json_array_size :: "'r json_p \<Rightarrow> nat" where
  "json_array_size (Some (Json_array xs)) = length xs"
| "json_array_size _ = 0"

fun json_array_get :: "'r json_p \<Rightarrow> nat \<Rightarrow> 'r json_p" where
  "json_array_get (Some (Json_array xs)) i = (if i \<ge> length xs then None else Some (xs ! i))"
| "json_array_get _ i = None"

fun json_array_set_new :: "'r json_p \<Rightarrow> nat \<Rightarrow> 'r json_p \<Rightarrow> int \<times> 'r json_p" where
  "json_array_set_new (Some (Json_array xs)) i (Some v) =
     (if i \<ge> length xs then (-1, Some (Json_array xs)) else (0, Some (Json_array (xs[i := v]))))"
| "json_array_set_new json i v = (-1, json)"

fun json_array_append_new :: "'r json_p \<Rightarrow> 'r json_p \<Rightarrow> int \<times> 'r json_p" where
  "json_array_append_new (Some (Json_array xs)) (Some v) = (0, Some (Json_array (xs @ [v])))"
| "json_array_append_new json v = (-1, json)"

fun json_array_insert_new :: "'r json_p \<Rightarrow> nat \<Rightarrow> 'r json_p \<Rightarrow> int \<times> 'r json_p" where
  "json_array_insert_new (Some (Json_array xs)) i (Some v) =
     (if i > length xs then (-1, Some (Json_array xs)) else (0, Some (Json_array (take i xs @ v # drop i xs))))"
| "json_array_insert_new json i v = (-1, json)"

fun json_array_remove :: "'r json_p \<Rightarrow> nat \<Rightarrow> int \<times> 'r json_p" where
  "json_array_remove (Some (Json_array xs)) i =
     (if i \<ge> length xs then (-1, Some (Json_array xs)) else (0, Some (Json_array (take i xs @ drop (i + 1) xs))))"
| "json_array_remove json i = (-1, json)"

fun json_array_clear :: "'r json_p \<Rightarrow> int \<times> 'r json_p" where
  "json_array_clear (Some (Json_array xs)) = (0, Some (Json_array []))"
| "json_array_clear json = (-1, json)"

fun json_array_extend :: "'r json_p \<Rightarrow> 'r json_p \<Rightarrow> int \<times> 'r json_p" where
  "json_array_extend (Some (Json_array xs)) (Some (Json_array ys)) = (0, Some (Json_array (xs @ ys)))"
| "json_array_extend json other = (-1, json)"

subsection \<open>Strings and numbers\<close>

definition json_string :: "string \<Rightarrow> 'r json_p" where
  "json_string v = (if utf8_check_string v then Some (Json_string v) else None)"

fun json_string_value :: "'r json_p \<Rightarrow> string option" where
  "json_string_value (Some (Json_string s)) = Some s"
| "json_string_value _ = None"

fun json_string_length :: "'r json_p \<Rightarrow> nat" where
  "json_string_length (Some (Json_string s)) = length s"
| "json_string_length _ = 0"

text \<open>\<open>json_int_t\<close> is a 32-bit \<open>long\<close>.\<close>

definition json_integer :: "int \<Rightarrow> 'r json" where
  "json_integer v = Json_integer (s32 v)"

fun json_integer_value :: "'r json_p \<Rightarrow> int" where
  "json_integer_value (Some (Json_integer i)) = i"
| "json_integer_value _ = 0"

fun json_integer_set :: "'r json_p \<Rightarrow> int \<Rightarrow> int \<times> 'r json_p" where
  "json_integer_set (Some (Json_integer i)) v = (0, Some (Json_integer (s32 v)))"
| "json_integer_set json v = (-1, json)"

text \<open>\<open>fp_of_int\<close> rounds to the nearest \<open>double\<close>; \<open>fp_format p\<close> is \<open>printf\<close> with \<open>%.*g\<close> and the precision \<open>p\<close>.\<close>

record 'r fpu =
  fp_of_int :: "int \<Rightarrow> 'r"
  fp_add :: "'r \<Rightarrow> 'r \<Rightarrow> 'r"
  fp_mul :: "'r \<Rightarrow> 'r \<Rightarrow> 'r"
  fp_div :: "'r \<Rightarrow> 'r \<Rightarrow> 'r"
  fp_neg :: "'r \<Rightarrow> 'r"
  fp_eq :: "'r \<Rightarrow> 'r \<Rightarrow> bool"
  fp_isnan :: "'r \<Rightarrow> bool"
  fp_isinf :: "'r \<Rightarrow> bool"
  fp_huge_val :: 'r
  fp_format :: "int \<Rightarrow> 'r \<Rightarrow> string"

definition json_real :: "'r fpu \<Rightarrow> 'r \<Rightarrow> 'r json_p" where
  "json_real fp v = (if fp_isnan fp v \<or> fp_isinf fp v then None else Some (Json_real v))"

subsection \<open>Equality\<close>

fun json_equal :: "'r fpu \<Rightarrow> 'r json \<Rightarrow> 'r json \<Rightarrow> bool" and
    json_object_equal :: "'r fpu \<Rightarrow> (string \<times> 'r json) list \<Rightarrow> (string \<times> 'r json) list \<Rightarrow> bool" and
    json_array_equal :: "'r fpu \<Rightarrow> 'r json list \<Rightarrow> 'r json list \<Rightarrow> bool" where
  "json_equal fp (Json_object kvs) (Json_object other) = (length kvs = length other \<and> json_object_equal fp kvs other)"
| "json_equal fp (Json_array xs) (Json_array ys) = (length xs = length ys \<and> json_array_equal fp xs ys)"
| "json_equal fp (Json_string s) (Json_string t) = (s = t)"
| "json_equal fp (Json_integer i) (Json_integer j) = (i = j)"
| "json_equal fp (Json_real x) (Json_real y) = fp_eq fp x y"
| "json_equal fp Json_true Json_true = True"
| "json_equal fp Json_false Json_false = True"
| "json_equal fp Json_null Json_null = True"
| "json_equal fp _ _ = False"
| "json_object_equal fp [] other = True"
| "json_object_equal fp ((key, v) # kvs) other =
     (case map_of other key of None \<Rightarrow> False | Some w \<Rightarrow> json_equal fp v w \<and> json_object_equal fp kvs other)"
| "json_array_equal fp (x # xs) (y # ys) = (json_equal fp x y \<and> json_array_equal fp xs ys)"
| "json_array_equal fp _ _ = True"

end
