(* ===== verification/Jansson_Load.thy ===== *)
theory Jansson_Load
  imports Jansson
begin

unbundle bit_operations_syntax

text \<open>
  The JSON parser of components/json/jansson/src/load.c, with \<open>strtod\<close> (strtod.c) and \<open>jsonp_strtod\<close>
  (strconv.c): the byte stream with its five-byte UTF-8 buffer and its push-back, the lexer and the recursive
  descent.  The places where the source prints a message and loops forever (its replacement for
  \<open>assert\<close>) and reads outside of a buffer have no result (\<^const>\<open>None\<close>).  The texts of error messages and the line and column
  they mention are left out; what is left of an error is the null pointer.  A token and the value in the lexer's union are one datatype.
  The parser runs on fuel; \<open>json_loads\<close> has two units for every byte of its input, and more than it needs.
\<close>

section \<open>The stream\<close>

datatype stream_state = STREAM_STATE_OK | STREAM_STATE_EOF | STREAM_STATE_ERROR

text \<open>What \<open>stream_get\<close> returns: a byte or one of the two negative codes.\<close>

datatype getc = Byte char | Got_EOF | Got_ERROR

text \<open>\<open>s_data\<close> is the input that \<open>string_get\<close> has not delivered; the bytes of \<open>buffer\<close> before its NUL are \<open>s_buffer\<close>.\<close>

record stream =
  s_data :: string
  s_buffer :: string
  s_pos :: nat
  s_state :: stream_state

definition stream_init :: "string \<Rightarrow> stream" where
  "stream_init data = \<lparr>s_data = data, s_buffer = [], s_pos = 0, s_state = STREAM_STATE_OK\<rparr>"

text \<open>\<open>string_get\<close>, \<open>n\<close> times; the \<open>EOF\<close> of an exhausted input is stored as the byte 0xFF.\<close>

fun get_bytes :: "nat \<Rightarrow> string \<Rightarrow> string \<times> string" where
  "get_bytes 0 data = ([], data)"
| "get_bytes (Suc n) [] = (CHR 0xFF # fst (get_bytes n []), [])"
| "get_bytes (Suc n) (c # data) = (case get_bytes n data of (cs, rest) \<Rightarrow> (c # cs, rest))"

definition stream_fill :: "stream \<Rightarrow> getc option \<times> stream" where
  "stream_fill s =
     (case s_data s of
        [] \<Rightarrow> (Some Got_EOF, s\<lparr>s_state := STREAM_STATE_EOF\<rparr>)
      | c # data \<Rightarrow>
          let s = s\<lparr>s_data := data, s_buffer := [c], s_pos := 0\<rparr> in
          if 0x80 \<le> code c then
            let count = utf8_check_first c in
            if count = 0 then (Some Got_ERROR, s\<lparr>s_state := STREAM_STATE_ERROR\<rparr>)
            else
              case get_bytes (count - 1) data of (cs, rest) \<Rightarrow>
                let s = s\<lparr>s_data := rest, s_buffer := c # cs\<rparr> in
                if utf8_check_full (c # cs) count = None then (Some Got_ERROR, s\<lparr>s_state := STREAM_STATE_ERROR\<rparr>)
                else (None, s)
          else (None, s))"

definition stream_get :: "stream \<Rightarrow> getc \<times> stream" where
  "stream_get s =
     (case s_state s of
        STREAM_STATE_EOF \<Rightarrow> (Got_EOF, s)
      | STREAM_STATE_ERROR \<Rightarrow> (Got_ERROR, s)
      | STREAM_STATE_OK \<Rightarrow>
          case (if s_pos s \<ge> length (s_buffer s) then stream_fill s else (None, s)) of
            (Some c, s) \<Rightarrow> (c, s)
          | (None, s) \<Rightarrow> (Byte (s_buffer s ! s_pos s), s\<lparr>s_pos := s_pos s + 1\<rparr>))"

fun stream_unget :: "stream \<Rightarrow> getc \<Rightarrow> stream option" where
  "stream_unget s (Byte c) =
     (if s_pos s > 0 \<and> s_pos s \<le> length (s_buffer s) \<and> s_buffer s ! (s_pos s - 1) = c then Some (s\<lparr>s_pos := s_pos s - 1\<rparr>) else None)"
| "stream_unget s _ = Some s"

text \<open>What is left to read, and that reading a byte takes one off.\<close>

definition remaining :: "stream \<Rightarrow> nat" where
  "remaining s = (if s_state s = STREAM_STATE_OK then length (s_data s) + (length (s_buffer s) - s_pos s) else 0)"

fun weight :: "getc \<Rightarrow> nat" where
  "weight (Byte c) = 1"
| "weight _ = 0"

lemma get_bytes_length: "get_bytes n data = (cs, rest) \<Longrightarrow> length cs = n \<and> length rest = length data - n"
  by (induction n data arbitrary: cs rest rule: get_bytes.induct) (auto split: prod.splits simp: prod_eq_iff)

text \<open>An incomplete sequence at the end of the input is filled up with bytes that are no continuation.\<close>

lemma utf8_continue_bad: "CHR 0xFF \<in> set cs \<Longrightarrow> utf8_continue v cs = None"
  by (induction cs arbitrary: v) auto

lemma get_bytes_short: "length data < n \<Longrightarrow> CHR 0xFF \<in> set (fst (get_bytes n data))"
  by (induction n data rule: get_bytes.induct) (auto split: prod.splits)

lemma utf8_check_full_bad: "CHR 0xFF \<in> set (take (n - 1) cs) \<Longrightarrow> utf8_check_full (c # cs) n = None"
  by (auto simp: utf8_check_full_def Let_def utf8_continue_bad)

lemma stream_get_weight:
  assumes "stream_get s = (c, s')"
  shows "weight c + remaining s' \<le> remaining s"
proof (cases "s_state s = STREAM_STATE_OK \<and> s_pos s \<ge> length (s_buffer s)")
  case False
  with assms show ?thesis by (cases "s_state s") (auto simp: stream_get_def remaining_def)
next
  case True
  show ?thesis
  proof (cases "s_data s")
    case Nil
    with True assms show ?thesis by (auto simp: stream_get_def stream_fill_def remaining_def)
  next
    case (Cons b data)
    obtain cs rest where g: "get_bytes (utf8_check_first b - 1) data = (cs, rest)" by (rule prod.exhaust)
    from get_bytes_length [OF this] have l: "length cs = utf8_check_first b - 1" "length rest = length data - (utf8_check_first b - 1)" by auto
    have short: "utf8_check_first b - 1 \<le> length data \<or> utf8_check_full (b # cs) (utf8_check_first b) = None"
      using get_bytes_short [of data "utf8_check_first b - 1"] g l by (auto simp: not_le intro!: utf8_check_full_bad)
    show ?thesis
      using True Cons assms g l short
      by (auto simp: stream_get_def stream_fill_def remaining_def Let_def split: if_splits prod.splits option.splits)
  qed
qed

section \<open>The lexer\<close>

datatype 'r token =
  TOKEN_INVALID | TOKEN_EOF | TOKEN_STRING string | TOKEN_INTEGER int | TOKEN_REAL 'r | TOKEN_TRUE | TOKEN_FALSE | TOKEN_NULL
| TOKEN_CHAR char

record 'r lex =
  lx_stream :: stream
  lx_saved_text :: string
  lx_flags :: u32
  lx_depth :: nat
  lx_token :: "'r token"

definition JSON_REJECT_DUPLICATES :: u32 where "JSON_REJECT_DUPLICATES = 0x1"
definition JSON_DISABLE_EOF_CHECK :: u32 where "JSON_DISABLE_EOF_CHECK = 0x2"
definition JSON_DECODE_ANY :: u32 where "JSON_DECODE_ANY = 0x4"
definition JSON_DECODE_INT_AS_REAL :: u32 where "JSON_DECODE_INT_AS_REAL = 0x8"
definition JSON_ALLOW_NUL :: u32 where "JSON_ALLOW_NUL = 0x10"
definition JSON_PARSER_MAX_DEPTH :: nat where "JSON_PARSER_MAX_DEPTH = 2048"

text \<open>The stream and the saved text, which the scanning loops change together.\<close>

type_synonym scanner = "stream \<times> string"

fun lex_get_save :: "scanner \<Rightarrow> getc \<times> scanner" where
  "lex_get_save (s, t) = (case stream_get s of (c, s) \<Rightarrow> (c, s, case c of Byte b \<Rightarrow> t @ [b] | _ \<Rightarrow> t))"

fun lex_unget_unsave :: "scanner \<Rightarrow> getc \<Rightarrow> scanner option" where
  "lex_unget_unsave (s, t) (Byte c) = map_option (\<lambda>s. (s, butlast t)) (stream_unget s (Byte c))"
| "lex_unget_unsave x _ = Some x"

lemma lex_get_save_weight: "lex_get_save x = (c, y) \<Longrightarrow> weight c + remaining (fst y) \<le> remaining (fst x)"
  by (cases x) (auto dest!: stream_get_weight split: prod.splits)

fun is_byte :: "(char \<Rightarrow> bool) \<Rightarrow> getc \<Rightarrow> bool" where
  "is_byte p (Byte c) = p c"
| "is_byte p _ = False"

text \<open>\<open>do c = lex_get_save(lex, error); while (p(c))\<close>.\<close>

function get_while :: "(char \<Rightarrow> bool) \<Rightarrow> scanner \<Rightarrow> getc \<times> scanner" where
  "get_while p x = (case lex_get_save x of (c, y) \<Rightarrow> if is_byte p c then get_while p y else (c, y))"
  by auto
termination
proof (relation "measure (\<lambda>(p, x). remaining (fst x))", goal_cases)
  case (2 p x c y)
  then show ?case using lex_get_save_weight [of x c y] by (cases c) auto
qed simp

declare get_while.simps [simp del]

subsection \<open>Strings\<close>

text \<open>The check of the four digits of an escape: whether it passed, and the next character.\<close>

fun scan_hex :: "nat \<Rightarrow> getc \<times> scanner \<Rightarrow> bool \<times> getc \<times> scanner" where
  "scan_hex 0 x = (True, x)"
| "scan_hex (Suc n) (c, x) = (if is_byte isxdigit c then scan_hex n (lex_get_save x) else (False, c, x))"

lemma scan_hex_weight: "scan_hex n (c, x) = (ok, c', y) \<Longrightarrow> weight c' + remaining (fst y) \<le> weight c + remaining (fst x)"
proof (induction n arbitrary: c x)
  case (Suc n)
  show ?case
  proof (cases "is_byte isxdigit c")
    case True
    obtain d z where d: "lex_get_save x = (d, z)" by (rule prod.exhaust)
    with Suc True lex_get_save_weight [OF d] show ?thesis by fastforce
  qed (use Suc in auto)
qed simp

definition escape_letters :: string where
  "escape_letters = [CHR 0x22, CHR 0x5C, CHR ''/'', CHR ''b'', CHR ''f'', CHR ''n'', CHR ''r'', CHR ''t'']"

text \<open>The first loop of \<open>lex_scan_string\<close>, up to the closing quote (\<^const>\<open>True\<close>) or an error (\<^const>\<open>False\<close>).\<close>

function scan_string :: "getc \<Rightarrow> scanner \<Rightarrow> (bool \<times> scanner) option" where
  "scan_string c x =
     (case c of
        Byte b \<Rightarrow>
          if b = CHR 0x22 then Some (True, x)
          else if code b \<le> 0x1F then map_option (Pair False) (lex_unget_unsave x c)
          else if b = CHR 0x5C then
            (case lex_get_save x of (c, x) \<Rightarrow>
               if c = Byte (CHR ''u'') then
                 (case scan_hex 4 (lex_get_save x) of (ok, c, x) \<Rightarrow> if ok then scan_string c x else Some (False, x))
               else if is_byte (\<lambda>b. b \<in> set escape_letters) c then
                 (case lex_get_save x of (c, x) \<Rightarrow> scan_string c x)
               else Some (False, x))
          else (case lex_get_save x of (c, x) \<Rightarrow> scan_string c x)
      | _ \<Rightarrow> Some (False, x))"
  by pat_completeness auto
termination
proof (relation "measure (\<lambda>(c, x). weight c + remaining (fst x))", goal_cases)
  case (2 c x b c1 x1 ok z c2 x2)
  obtain d w where d: "lex_get_save x1 = (d, w)" by (rule prod.exhaust)
  have "weight c1 + remaining (fst x1) \<le> remaining (fst x)" using 2 by (intro lex_get_save_weight) simp
  moreover have "weight d + remaining (fst w) \<le> remaining (fst x1)" by (rule lex_get_save_weight [OF d])
  moreover have "weight c2 + remaining (fst x2) \<le> weight d + remaining (fst w)"
    using 2(7,8) d by (intro scan_hex_weight [of 4 d w ok]) simp
  ultimately show ?case using 2(1,5,6) by simp
next
  case (3 c x b c1 x1 c2 x2)
  have "weight c1 + remaining (fst x1) \<le> remaining (fst x)" "weight c2 + remaining (fst x2) \<le> remaining (fst x1)"
    using 3(5,8) by (auto intro!: lex_get_save_weight)
  then show ?case using 3(1) by simp
next
  case (4 c x b c1 x1)
  have "weight c1 + remaining (fst x1) \<le> remaining (fst x)" using 4(5) by (intro lex_get_save_weight) simp
  then show ?case using 4(1) by simp
qed simp

declare scan_string.simps [simp del]

text \<open>\<open>decode_unicode_escape\<close>: \<open>str\<close> points at the \<open>u\<close>; the result -1 is an invalid digit.\<close>

definition hex_value :: "char \<Rightarrow> int option" where
  "hex_value c =
     (if isdigit c then Some (int (code c) - 48)
      else if islower c then Some (int (code c) - 97 + 10)
      else if isupper c then Some (int (code c) - 65 + 10)
      else None)"

fun decode_digits :: "nat \<Rightarrow> int \<Rightarrow> string \<Rightarrow> int option" where
  "decode_digits 0 v str = Some v"
| "decode_digits (Suc n) v [] = None"
| "decode_digits (Suc n) v (c # str) =
     (case hex_value c of None \<Rightarrow> Some (-1) | Some d \<Rightarrow> decode_digits n (v * 16 + d) str)"

definition decode_unicode_escape :: "string \<Rightarrow> int option" where
  "decode_unicode_escape str =
     (case str of c # rest \<Rightarrow> if c = CHR ''u'' then decode_digits 4 0 rest else None | [] \<Rightarrow> None)"

definition plain_escape :: "char \<Rightarrow> char option" where
  "plain_escape c =
     (if c = CHR 0x22 \<or> c = CHR 0x5C \<or> c = CHR ''/'' then Some c
      else if c = CHR ''b'' then Some (CHR 0x08)
      else if c = CHR ''f'' then Some (CHR 0x0C)
      else if c = CHR ''n'' then Some (CHR 0x0A)
      else if c = CHR ''r'' then Some (CHR 0x0D)
      else if c = CHR ''t'' then Some (CHR 0x09)
      else None)"

text \<open>
  The escape at \<open>p\<close>, which points behind the backslash at the \<open>u\<close>: the code point, from one escape or a surrogate pair,
  and how far \<open>p\<close> moves; \<open>Some None\<close> is the jump to \<open>out\<close>.
\<close>

definition unicode_escape :: "string \<Rightarrow> (int \<times> nat) option option" where
  "unicode_escape p =
     do { v \<leftarrow> decode_unicode_escape p;
          if v < 0 then Some None
          else if 0xD800 \<le> v \<and> v \<le> 0xDBFF then
            (case drop 5 p of
               c # d # rest \<Rightarrow>
                 if c = CHR 0x5C \<and> d = CHR ''u'' then
                   do { v2 \<leftarrow> decode_unicode_escape (d # rest);
                        if v2 < 0 then Some None
                        else if 0xDC00 \<le> v2 \<and> v2 \<le> 0xDFFF
                        then Some (Some ((v - 0xD800) * 1024 + (v2 - 0xDC00) + 0x10000, 11))
                        else Some None }
                 else Some None
             | [c] \<Rightarrow> if c = CHR 0x5C then None else Some None
             | [] \<Rightarrow> None)
          else if 0xDC00 \<le> v \<and> v \<le> 0xDFFF then Some None
          else Some (Some (v, 5)) }"

lemma unicode_escape_step: "unicode_escape p = Some (Some (v, n)) \<Longrightarrow> n = 5 \<or> n = 11"
  by (auto simp: unicode_escape_def split: if_splits list.splits bind_splits)

text \<open>The second loop of \<open>lex_scan_string\<close>: \<open>t\<close> is what it has written.\<close>

function decode_string :: "string \<Rightarrow> string \<Rightarrow> string option option" where
  "decode_string p t =
     (case p of
        [] \<Rightarrow> None
      | c # p \<Rightarrow>
          if c = CHR 0x22 then Some (Some t)
          else if c = CHR 0x5C then
            (case p of
               [] \<Rightarrow> None
             | d # rest \<Rightarrow>
                 if d = CHR ''u'' then
                   (case unicode_escape p of
                      None \<Rightarrow> None
                    | Some None \<Rightarrow> Some None
                    | Some (Some (v, n)) \<Rightarrow>
                        (case utf8_encode v of None \<Rightarrow> None | Some bytes \<Rightarrow> decode_string (drop n p) (t @ bytes)))
                 else
                   (case plain_escape d of None \<Rightarrow> None | Some b \<Rightarrow> decode_string rest (t @ [b])))
          else decode_string p (t @ [c]))"
  by pat_completeness auto
termination by (relation "measure (\<lambda>(p, t). length p)") auto

declare decode_string.simps [simp del]

definition lex_scan_string :: "'r lex \<Rightarrow> 'r lex option" where
  "lex_scan_string lx =
     (case lex_get_save (lx_stream lx, lx_saved_text lx) of (c, x) \<Rightarrow>
        do { (ok, s, t) \<leftarrow> scan_string c x;
             let lx = lx\<lparr>lx_stream := s, lx_saved_text := t, lx_token := TOKEN_INVALID\<rparr>;
             if \<not> ok then Some lx
             else
               do { v \<leftarrow> decode_string (tl t) [];
                    case v of None \<Rightarrow> Some lx | Some v \<Rightarrow> Some (lx\<lparr>lx_token := TOKEN_STRING v\<rparr>) } })"

subsection \<open>Numbers\<close>

text \<open>\<open>strtol\<close> with base 10: blanks, a sign, digits; the value saturates.  The second result is where it stops.\<close>

definition strtol :: "string \<Rightarrow> int \<times> nat" where
  "strtol s =
     (let t = dropWhile isspace s;
          (neg, u) = (case t of [] \<Rightarrow> (False, []) | c # cs \<Rightarrow> if c = CHR ''-'' then (True, cs) else if c = CHR ''+'' then (False, cs) else (False, t));
          ds = takeWhile isdigit u;
          v = foldl (\<lambda>v c. v * 10 + (int (code c) - 48)) 0 ds;
          v = (if neg then - v else v)
      in if ds = [] then (0, 0)
         else (if v > 2 ^ 31 - 1 then 2 ^ 31 - 1 else if v < - (2 ^ 31) then - (2 ^ 31) else v, length s - length u + length ds))"

text \<open>\<open>strtod\<close>: the size of the mantissa with its point, the two groups of digits, the exponent.\<close>

fun mantissa :: "string \<Rightarrow> nat \<Rightarrow> nat option \<Rightarrow> nat \<times> nat option" where
  "mantissa [] n decPt = (n, decPt)"
| "mantissa (c # p) n decPt =
     (if isdigit c then mantissa p (n + 1) decPt
      else if c = CHR ''.'' \<and> decPt = None then mantissa p (n + 1) (Some n)
      else (n, decPt))"

fun take_digits :: "nat \<Rightarrow> string \<Rightarrow> int \<Rightarrow> (int \<times> string) option" where
  "take_digits 0 p v = Some (v, p)"
| "take_digits (Suc n) p v =
     (case p of
        [] \<Rightarrow> None
      | c # p \<Rightarrow>
          if c = CHR ''.''
          then (case p of [] \<Rightarrow> None | d # p \<Rightarrow> take_digits n p (10 * v + (int (code d) - 48)))
          else take_digits n p (10 * v + (int (code c) - 48)))"

definition maxExponent :: int where "maxExponent = 511"

definition powersOf10 :: "nat list" where
  "powersOf10 = [1, 2, 4, 8, 16, 32, 64, 128, 256]"

text \<open>
  The exponent as a product of powers; behind the end of the table there is no result, neither for a bit that is set
  nor for the negative number that never becomes 0.
\<close>

fun exp_loop :: "'r fpu \<Rightarrow> nat list \<Rightarrow> int \<Rightarrow> 'r \<Rightarrow> 'r option" where
  "exp_loop fp [] e dblExp = (if e = 0 then Some dblExp else None)"
| "exp_loop fp (d # ds) e dblExp =
     (if e = 0 then Some dblExp
      else exp_loop fp ds (drop_bit 1 e) (if e AND 1 \<noteq> 0 then fp_mul fp dblExp (fp_of_int fp (10 ^ d)) else dblExp))"

definition exp_field :: "string \<Rightarrow> bool \<times> int \<times> string" where
  "exp_field p =
     (case p of
        [] \<Rightarrow> (False, 0, p)
      | c # q \<Rightarrow>
          if c = CHR ''E'' \<or> c = CHR ''e'' then
            (let (neg, q) = (case q of [] \<Rightarrow> (False, []) | d # r \<Rightarrow> if d = CHR ''-'' then (True, r) else if d = CHR ''+'' then (False, r) else (False, q))
             in (neg, foldl (\<lambda>e c. s32 (e * 10 + (int (code c) - 48))) 0 (takeWhile isdigit q), q))
          else (False, 0, p))"

text \<open>The value and the characters left at \<open>*endPtr\<close>.\<close>

definition strtod :: "'r fpu \<Rightarrow> string \<Rightarrow> ('r \<times> string) option" where
  "strtod fp str =
     (let p = dropWhile isspace str;
          (sign, p) = (case p of [] \<Rightarrow> (False, []) | c # cs \<Rightarrow> if c = CHR ''-'' then (True, cs) else if c = CHR ''+'' then (False, cs) else (False, p));
          (size, point) = mantissa p 0 None;
          pExp = drop size p;
          (decPt, mantSize) = (case point of None \<Rightarrow> (size, size) | Some n \<Rightarrow> (n, size - 1));
          (fracExp, mantSize) = (if mantSize > 18 then (int decPt - 18, 18) else (int decPt - int mantSize, mantSize));
          ret = (\<lambda>v p. Some (if sign then fp_neg fp v else v, p))
      in if mantSize = 0 then ret (fp_of_int fp 0) str
         else
           do { (frac1, p) \<leftarrow> take_digits (mantSize - 9) p 0;
                (frac2, p) \<leftarrow> take_digits (min mantSize 9) p 0;
                let fraction = fp_add fp (fp_mul fp (fp_of_int fp (10 ^ 9)) (fp_of_int fp frac1)) (fp_of_int fp frac2);
                let (expSign, e, q) = exp_field pExp;
                let has_exp = (case pExp of [] \<Rightarrow> False | c # _ \<Rightarrow> c = CHR ''E'' \<or> c = CHR ''e'');
                if has_exp \<and> (q = [] \<or> \<not> isdigit (hd q)) then ret fraction pExp
                else
                  do { let p = (if has_exp then dropWhile isdigit q else pExp);
                       let e = s32 (if expSign then fracExp - e else fracExp + e);
                       let expSign = (e < 0);
                       let e = (if e < 0 then s32 (- e) else e);
                       let e = (if e > maxExponent then maxExponent else e);
                       dblExp \<leftarrow> exp_loop fp powersOf10 e (fp_of_int fp 1);
                       ret (if expSign then fp_div fp fraction dblExp else fp_mul fp fraction dblExp) p } })"

text \<open>\<open>Some None\<close> is the overflow, the code -1.\<close>

definition jsonp_strtod :: "'r fpu \<Rightarrow> string \<Rightarrow> 'r option option" where
  "jsonp_strtod fp text =
     do { (v, rest) \<leftarrow> strtod fp text;
          if rest \<noteq> [] then None
          else if fp_eq fp v (fp_huge_val fp) \<or> fp_eq fp v (fp_neg fp (fp_huge_val fp)) then Some None
          else Some (Some v) }"

text \<open>The integer part: the character behind it, or the jump to \<open>out\<close>.\<close>

definition scan_integer :: "getc \<Rightarrow> scanner \<Rightarrow> (bool \<times> getc \<times> scanner) option" where
  "scan_integer c x =
     (case (if c = Byte (CHR ''-'') then lex_get_save x else (c, x)) of (c, x) \<Rightarrow>
        if c = Byte (CHR ''0'') then
          (case lex_get_save x of (c, x) \<Rightarrow>
             if is_byte isdigit c then map_option (\<lambda>x. (False, c, x)) (lex_unget_unsave x c) else Some (True, c, x))
        else if is_byte isdigit c then (case get_while isdigit x of (c, x) \<Rightarrow> Some (True, c, x))
        else map_option (\<lambda>x. (False, c, x)) (lex_unget_unsave x c))"

definition scan_fraction :: "getc \<Rightarrow> scanner \<Rightarrow> (bool \<times> getc \<times> scanner) option" where
  "scan_fraction c x =
     (if c = Byte (CHR ''.'') then
        (case (x, stream_get (fst x)) of ((_, t), c, s) \<Rightarrow>
           case c of
             Byte b \<Rightarrow>
               if isdigit b then (case get_while isdigit (s, t @ [b]) of (c, x) \<Rightarrow> Some (True, c, x))
               else map_option (\<lambda>s. (False, c, s, t)) (stream_unget s c)
           | _ \<Rightarrow> Some (False, c, s, t))
      else Some (True, c, x))"

definition scan_exponent :: "getc \<Rightarrow> scanner \<Rightarrow> (bool \<times> getc \<times> scanner) option" where
  "scan_exponent c x =
     (if c = Byte (CHR ''E'') \<or> c = Byte (CHR ''e'') then
        (case lex_get_save x of (c, x) \<Rightarrow>
         case (if c = Byte (CHR ''+'') \<or> c = Byte (CHR ''-'') then lex_get_save x else (c, x)) of (c, x) \<Rightarrow>
           if is_byte isdigit c then (case get_while isdigit x of (c, x) \<Rightarrow> Some (True, c, x))
           else map_option (\<lambda>x. (False, c, x)) (lex_unget_unsave x c))
      else Some (True, c, x))"

text \<open>The code of \<open>lex_scan_number\<close> and the lexer.\<close>

definition lex_scan_number :: "'r fpu \<Rightarrow> 'r lex \<Rightarrow> char \<Rightarrow> (int \<times> 'r lex) option" where
  "lex_scan_number fp lx c =
     (let put = (\<lambda>(s, t). lx\<lparr>lx_stream := s, lx_saved_text := t, lx_token := TOKEN_INVALID\<rparr>) in
      do { (ok, c, x) \<leftarrow> scan_integer (Byte c) (lx_stream lx, lx_saved_text lx);
           if \<not> ok then Some (-1, put x)
           else if lx_flags lx AND JSON_DECODE_INT_AS_REAL = 0 \<and> c \<noteq> Byte (CHR ''.'') \<and> c \<noteq> Byte (CHR ''E'') \<and> c \<noteq> Byte (CHR ''e'') then
             do { x \<leftarrow> lex_unget_unsave x c;
                  let (intval, stop) = strtol (snd x);
                  if stop \<noteq> length (snd x) then None
                  else Some (0, (put x)\<lparr>lx_token := TOKEN_INTEGER intval\<rparr>) }
           else
             do { (ok, c, x) \<leftarrow> scan_fraction c x;
                  if \<not> ok then Some (-1, put x)
                  else
                    do { (ok, c, x) \<leftarrow> scan_exponent c x;
                         if \<not> ok then Some (-1, put x)
                         else
                           do { x \<leftarrow> lex_unget_unsave x c;
                                v \<leftarrow> jsonp_strtod fp (snd x);
                                case v of
                                  None \<Rightarrow> Some (-1, put x)
                                | Some v \<Rightarrow> Some (0, (put x)\<lparr>lx_token := TOKEN_REAL v\<rparr>) } } } })"

subsection \<open>Tokens\<close>

definition is_blank :: "char \<Rightarrow> bool" where
  "is_blank c = (c = CHR '' '' \<or> c = CHR 0x09 \<or> c = CHR 0x0A \<or> c = CHR 0x0D)"

function skip_blanks :: "stream \<Rightarrow> getc \<times> stream" where
  "skip_blanks s = (case stream_get s of (c, s) \<Rightarrow> if is_byte is_blank c then skip_blanks s else (c, s))"
  by auto
termination
proof (relation "measure remaining", goal_cases)
  case (2 s c s')
  then show ?case using stream_get_weight [of s c s'] by (cases c) auto
qed simp

declare skip_blanks.simps [simp del]

definition lex_save_cached :: "'r lex \<Rightarrow> 'r lex" where
  "lex_save_cached lx =
     (let s = lx_stream lx in
      lx\<lparr>lx_stream := s\<lparr>s_pos := max (s_pos s) (length (s_buffer s))\<rparr>, lx_saved_text := lx_saved_text lx @ drop (s_pos s) (s_buffer s)\<rparr>)"

definition punctuation :: string where
  "punctuation = ''{}[]:,''"

definition lex_scan :: "'r fpu \<Rightarrow> 'r lex \<Rightarrow> 'r lex option" where
  "lex_scan fp lx =
     (case skip_blanks (lx_stream lx) of (c, s) \<Rightarrow>
        let lx = lx\<lparr>lx_stream := s, lx_saved_text := []\<rparr> in
        case c of
          Got_EOF \<Rightarrow> Some (lx\<lparr>lx_token := TOKEN_EOF\<rparr>)
        | Got_ERROR \<Rightarrow> Some (lx\<lparr>lx_token := TOKEN_INVALID\<rparr>)
        | Byte b \<Rightarrow>
            let lx = lx\<lparr>lx_saved_text := [b]\<rparr> in
            if b \<in> set punctuation then Some (lx\<lparr>lx_token := TOKEN_CHAR b\<rparr>)
            else if b = CHR 0x22 then lex_scan_string lx
            else if isdigit b \<or> b = CHR ''-'' then map_option snd (lex_scan_number fp lx b)
            else if isalpha b then
              (case get_while isalpha (s, [b]) of (c, x) \<Rightarrow>
                 do { (s, t) \<leftarrow> lex_unget_unsave x c;
                      Some (lx\<lparr>lx_stream := s, lx_saved_text := t,
                               lx_token := (if t = ''true'' then TOKEN_TRUE else if t = ''false'' then TOKEN_FALSE
                                            else if t = ''null'' then TOKEN_NULL else TOKEN_INVALID)\<rparr>) })
            else Some ((lex_save_cached lx)\<lparr>lx_token := TOKEN_INVALID\<rparr>))"

section \<open>The parser\<close>

text \<open>A result \<open>Some (None, lx)\<close> is the null pointer.\<close>

fun parse_value :: "'r fpu \<Rightarrow> nat \<Rightarrow> u32 \<Rightarrow> 'r lex \<Rightarrow> ('r json_p \<times> 'r lex) option" and
    parse_object :: "'r fpu \<Rightarrow> nat \<Rightarrow> u32 \<Rightarrow> (string \<times> 'r json) list \<Rightarrow> 'r lex \<Rightarrow> ('r json_p \<times> 'r lex) option" and
    parse_array :: "'r fpu \<Rightarrow> nat \<Rightarrow> u32 \<Rightarrow> 'r json list \<Rightarrow> 'r lex \<Rightarrow> ('r json_p \<times> 'r lex) option" where
  "parse_value fp 0 flags lx = None"
| "parse_value fp (Suc k) flags lx =
     (let lx = lx\<lparr>lx_depth := lx_depth lx + 1\<rparr> in
      if lx_depth lx > JSON_PARSER_MAX_DEPTH then Some (None, lx)
      else
        do { (json, lx) \<leftarrow>
               (case lx_token lx of
                  TOKEN_STRING v \<Rightarrow>
                    if flags AND JSON_ALLOW_NUL = 0 \<and> NUL \<in> set v then Some (None, lx) else Some (Some (Json_string v), lx)
                | TOKEN_INTEGER i \<Rightarrow> Some (Some (json_integer i), lx)
                | TOKEN_REAL r \<Rightarrow> Some (json_real fp r, lx)
                | TOKEN_TRUE \<Rightarrow> Some (Some Json_true, lx)
                | TOKEN_FALSE \<Rightarrow> Some (Some Json_false, lx)
                | TOKEN_NULL \<Rightarrow> Some (Some Json_null, lx)
                | TOKEN_CHAR c \<Rightarrow>
                    if c = CHR ''{'' then
                      do { lx \<leftarrow> lex_scan fp lx;
                           if lx_token lx = TOKEN_CHAR (CHR ''}'') then Some (Some json_object, lx) else parse_object fp k flags [] lx }
                    else if c = CHR ''['' then
                      do { lx \<leftarrow> lex_scan fp lx;
                           if lx_token lx = TOKEN_CHAR (CHR '']'') then Some (Some json_array, lx) else parse_array fp k flags [] lx }
                    else Some (None, lx)
                | _ \<Rightarrow> Some (None, lx));
             if json = None then Some (None, lx) else Some (json, lx\<lparr>lx_depth := lx_depth lx - 1\<rparr>) })"
| "parse_object fp 0 flags kvs lx = None"
| "parse_object fp (Suc k) flags kvs lx =
     (case lx_token lx of
        TOKEN_STRING key \<Rightarrow>
          if NUL \<in> set key then Some (None, lx)
          else if flags AND JSON_REJECT_DUPLICATES \<noteq> 0 \<and> map_of kvs key \<noteq> None then Some (None, lx)
          else
            do { lx \<leftarrow> lex_scan fp lx;
                 if lx_token lx \<noteq> TOKEN_CHAR (CHR '':'') then Some (None, lx)
                 else
                   do { lx \<leftarrow> lex_scan fp lx;
                        (v, lx) \<leftarrow> parse_value fp k flags lx;
                        case v of
                          None \<Rightarrow> Some (None, lx)
                        | Some v \<Rightarrow>
                            do { let kvs = AList.update key v kvs;
                                 lx \<leftarrow> lex_scan fp lx;
                                 if lx_token lx = TOKEN_CHAR (CHR '','')
                                 then do { lx \<leftarrow> lex_scan fp lx; parse_object fp k flags kvs lx }
                                 else if lx_token lx = TOKEN_CHAR (CHR ''}'') then Some (Some (Json_object kvs), lx)
                                 else Some (None, lx) } } }
      | _ \<Rightarrow> Some (None, lx))"
| "parse_array fp 0 flags xs lx = None"
| "parse_array fp (Suc k) flags xs lx =
     (if lx_token lx = TOKEN_EOF then Some (None, lx)
      else
        do { (v, lx) \<leftarrow> parse_value fp k flags lx;
             case v of
               None \<Rightarrow> Some (None, lx)
             | Some v \<Rightarrow>
                 do { let xs = xs @ [v];
                      lx \<leftarrow> lex_scan fp lx;
                      if lx_token lx = TOKEN_CHAR (CHR '','')
                      then do { lx \<leftarrow> lex_scan fp lx; parse_array fp k flags xs lx }
                      else if lx_token lx = TOKEN_CHAR (CHR '']'') then Some (Some (Json_array xs), lx)
                      else Some (None, lx) } })"

definition parse_json :: "'r fpu \<Rightarrow> nat \<Rightarrow> u32 \<Rightarrow> 'r lex \<Rightarrow> ('r json_p \<times> 'r lex) option" where
  "parse_json fp k flags lx =
     do { lx \<leftarrow> lex_scan fp (lx\<lparr>lx_depth := 0\<rparr>);
          if flags AND JSON_DECODE_ANY = 0 \<and> lx_token lx \<noteq> TOKEN_CHAR (CHR ''['') \<and> lx_token lx \<noteq> TOKEN_CHAR (CHR ''{'')
          then Some (None, lx)
          else
            do { (json, lx) \<leftarrow> parse_value fp k flags lx;
                 case json of
                   None \<Rightarrow> Some (None, lx)
                 | Some v \<Rightarrow>
                     if flags AND JSON_DISABLE_EOF_CHECK = 0 then
                       do { lx \<leftarrow> lex_scan fp lx;
                            if lx_token lx \<noteq> TOKEN_EOF then Some (None, lx) else Some (Some v, lx) }
                     else Some (Some v, lx) } }"

definition lex_init :: "string \<Rightarrow> u32 \<Rightarrow> 'r lex" where
  "lex_init data flags =
     \<lparr>lx_stream = stream_init data, lx_saved_text = [], lx_flags = flags, lx_depth = 0, lx_token = TOKEN_INVALID\<rparr>"

definition json_loads :: "'r fpu \<Rightarrow> string option \<Rightarrow> u32 \<Rightarrow> 'r json_p option" where
  "json_loads fp str flags =
     (case str of
        None \<Rightarrow> Some None
      | Some text \<Rightarrow> map_option fst (parse_json fp (2 * length text + 3) flags (lex_init (cstr text) flags)))"

end
