(* ===== verification/Jansson_Dump.thy ===== *)
theory Jansson_Dump
  imports Jansson "HOL-Library.List_Lexorder" "HOL-Library.Char_ord" "HOL-Library.Multiset"
begin

unbundle bit_operations_syntax

text \<open>
  The JSON printer of components/json/jansson/src/dump.c and \<open>jsonp_dtostr\<close> of strconv.c.  A function of the source
  that hands text to the callback returns its code and this text: the code of \<open>dump_string\<close> for a key is not
  looked at, so that the text of a failed call matters.  The table of parents, which detects a value that contains
  itself, is left out, because values are trees.
\<close>

section \<open>Flags\<close>

definition JSON_COMPACT :: u32 where "JSON_COMPACT = 0x20"
definition JSON_ENSURE_ASCII :: u32 where "JSON_ENSURE_ASCII = 0x40"
definition JSON_SORT_KEYS :: u32 where "JSON_SORT_KEYS = 0x80"
definition JSON_ENCODE_ANY :: u32 where "JSON_ENCODE_ANY = 0x200"
definition JSON_ESCAPE_SLASH :: u32 where "JSON_ESCAPE_SLASH = 0x400"
definition JSON_EMBED :: u32 where "JSON_EMBED = 0x10000"

definition JSON_INDENT :: "u32 \<Rightarrow> u32" where
  "JSON_INDENT n = n AND 0x1F"

definition FLAGS_TO_INDENT :: "u32 \<Rightarrow> u32" where
  "FLAGS_TO_INDENT f = f AND 0x1F"

definition FLAGS_TO_PRECISION :: "u32 \<Rightarrow> u32" where
  "FLAGS_TO_PRECISION f = drop_bit 11 f AND 0x1F"

abbreviation flag_set :: "u32 \<Rightarrow> u32 \<Rightarrow> bool" where
  "flag_set flags f \<equiv> flags AND f \<noteq> 0"

section \<open>Pieces\<close>

definition dump_indent :: "u32 \<Rightarrow> nat \<Rightarrow> bool \<Rightarrow> string" where
  "dump_indent flags depth space =
     (if FLAGS_TO_INDENT flags > 0 then CHR 0x0A # replicate (unat (word_of_nat depth * FLAGS_TO_INDENT flags)) (CHR '' '')
      else if space \<and> \<not> flag_set flags JSON_COMPACT then '' '' else [])"

definition hex_upper :: "nat \<Rightarrow> char" where
  "hex_upper n = (if n < 10 then char_of (48 + n) else char_of (55 + n))"

text \<open>\<open>snprintf\<close> with \<open>\u%04X\<close>, for a value of 16 bits.\<close>

definition sprintf_u04X :: "int \<Rightarrow> string" where
  "sprintf_u04X v =
     CHR 0x5C # CHR ''u'' # map (\<lambda>k. hex_upper (nat (drop_bit (4 * k) v AND 0xF))) [3, 2, 1, 0]"

definition escape_text :: "int \<Rightarrow> string" where
  "escape_text codepoint =
     (if codepoint = 0x5C then [CHR 0x5C, CHR 0x5C]
      else if codepoint = 0x22 then [CHR 0x5C, CHR 0x22]
      else if codepoint = 0x08 then [CHR 0x5C, CHR ''b'']
      else if codepoint = 0x0C then [CHR 0x5C, CHR ''f'']
      else if codepoint = 0x0A then [CHR 0x5C, CHR ''n'']
      else if codepoint = 0x0D then [CHR 0x5C, CHR ''r'']
      else if codepoint = 0x09 then [CHR 0x5C, CHR ''t'']
      else if codepoint = 0x2F then [CHR 0x5C, CHR ''/'']
      else if codepoint < 0x10000 then sprintf_u04X codepoint
      else
        let c = codepoint - 0x10000 in
        sprintf_u04X (0xD800 OR drop_bit 10 (c AND 0xffc00)) @ sprintf_u04X (0xDC00 OR (c AND 0x003ff)))"

definition must_escape :: "u32 \<Rightarrow> int \<Rightarrow> bool" where
  "must_escape flags codepoint =
     (codepoint = 0x5C \<or> codepoint = 0x22 \<or> codepoint < 0x20 \<or> (flag_set flags JSON_ESCAPE_SLASH \<and> codepoint = 0x2F) \<or>
      (flag_set flags JSON_ENSURE_ASCII \<and> codepoint > 0x7F))"

lemma utf8_iterate_pos: "utf8_iterate s = Some (n, cp) \<Longrightarrow> 0 < n"
  by (auto simp: utf8_iterate_def Let_def split: if_splits)

text \<open>The loop of \<open>dump_string\<close>: \<open>run\<close> is the text between \<open>str\<close> and \<open>pos\<close>, not yet handed on.\<close>

function dump_chars :: "u32 \<Rightarrow> string \<Rightarrow> string \<Rightarrow> int \<times> string" where
  "dump_chars flags run s =
     (if s = [] then (0, run)
      else
        case utf8_iterate s of
          None \<Rightarrow> (-1, [])
        | Some (n, cp) \<Rightarrow>
            if must_escape flags cp then
              (case dump_chars flags [] (drop n s) of (rc, out) \<Rightarrow> (rc, run @ escape_text cp @ out))
            else dump_chars flags (run @ take n s) (drop n s))"
  by pat_completeness auto
termination by (relation "measure (\<lambda>(_, _, s). length s)") (auto dest: utf8_iterate_pos)

declare dump_chars.simps [simp del]

definition dump_string :: "u32 \<Rightarrow> string \<Rightarrow> int \<times> string" where
  "dump_string flags str =
     (case dump_chars flags [] str of (rc, out) \<Rightarrow> if rc \<noteq> 0 then (-1, CHR 0x22 # out) else (0, CHR 0x22 # out @ [CHR 0x22]))"

text \<open>\<open>jsonp_dtostr\<close> on the text of \<open>snprintf\<close>: a real keeps a point or an exponent, the exponent loses its plus and zeros.\<close>

definition strip_exponent :: "string \<Rightarrow> string" where
  "strip_exponent b =
     (if CHR ''e'' \<in> set b then
        let pre = takeWhile (\<lambda>c. c \<noteq> CHR ''e'') b;
            rest = drop (length pre + 1) b;
            e = dropWhile (\<lambda>c. c = CHR ''0'') (drop 1 rest)
        in case rest of
             c # _ \<Rightarrow> pre @ [CHR ''e''] @ (if c = CHR ''-'' then c # e else e)
           | [] \<Rightarrow> b
      else b)"

definition jsonp_dtostr :: "'r fpu \<Rightarrow> nat \<Rightarrow> 'r \<Rightarrow> int \<Rightarrow> string option" where
  "jsonp_dtostr fp n v precision =
     (let b = fp_format fp (if precision = 0 then 17 else precision) v in
      if length b \<ge> n then None
      else if CHR ''.'' \<notin> set b \<and> CHR ''e'' \<notin> set b \<and> length b + 3 \<ge> n then None
      else Some (strip_exponent (if CHR ''.'' \<notin> set b \<and> CHR ''e'' \<notin> set b then b @ ''.0'' else b)))"

definition MAX_REAL_STR_LENGTH :: nat where "MAX_REAL_STR_LENGTH = 100"

section \<open>Values\<close>

text \<open>The members in the order they are printed: \<open>compare_keys\<close> is \<open>strcmp\<close>, the order of the lists of bytes.\<close>

definition iteration :: "u32 \<Rightarrow> (string \<times> 'r json) list \<Rightarrow> (string \<times> 'r json) list" where
  "iteration flags kvs = (if flag_set flags JSON_SORT_KEYS then sort_key fst kvs else kvs)"

lemma mset_iteration [simp]: "mset (iteration flags kvs) = mset kvs"
  by (simp add: iteration_def)

lemma size_iteration [simp]: "size_list f (iteration flags kvs) = size_list f kvs"
  by (simp add: size_list_conv_sum_list) (metis mset_iteration mset_map size_mset sum_mset_sum_list)

definition in_brackets :: "bool \<Rightarrow> char \<Rightarrow> char \<Rightarrow> string \<Rightarrow> string" where
  "in_brackets emb l r body = (if emb then body else l # body @ [r])"

definition separator :: "u32 \<Rightarrow> string" where
  "separator flags = (if flag_set flags JSON_COMPACT then '':'' else '': '')"

text \<open>What follows an element at \<open>depth + 1\<close>, if there is another one and if there is none.\<close>

definition after_element :: "u32 \<Rightarrow> nat \<Rightarrow> bool \<Rightarrow> string" where
  "after_element flags depth another =
     (if another then CHR '','' # dump_indent flags (depth + 1) True else dump_indent flags depth False)"

text \<open>The result \<^const>\<open>None\<close> is the code -1; the buffer with what was written before is then freed.\<close>

fun do_dump :: "'r fpu \<Rightarrow> u32 \<Rightarrow> nat \<Rightarrow> 'r json \<Rightarrow> string option" and
    dump_elements :: "'r fpu \<Rightarrow> u32 \<Rightarrow> nat \<Rightarrow> 'r json list \<Rightarrow> string option" and
    dump_members :: "'r fpu \<Rightarrow> u32 \<Rightarrow> nat \<Rightarrow> (string \<times> 'r json) list \<Rightarrow> string option" where
  "do_dump fp flags depth Json_null = Some ''null''"
| "do_dump fp flags depth Json_true = Some ''true''"
| "do_dump fp flags depth Json_false = Some ''false''"
| "do_dump fp flags depth (Json_integer i) = Some (sprintf_d i)"
| "do_dump fp flags depth (Json_real r) = jsonp_dtostr fp MAX_REAL_STR_LENGTH r (uint (FLAGS_TO_PRECISION flags))"
| "do_dump fp flags depth (Json_string s) = (case dump_string flags s of (rc, out) \<Rightarrow> if rc \<noteq> 0 then None else Some out)"
| "do_dump fp flags depth (Json_array xs) =
     (let emb = flag_set flags JSON_EMBED; flags = flags AND NOT JSON_EMBED in
      if xs = [] then Some (in_brackets emb (CHR ''['') (CHR '']'') [])
      else do { body \<leftarrow> dump_elements fp flags depth xs;
                Some (in_brackets emb (CHR ''['') (CHR '']'') (dump_indent flags (depth + 1) False @ body)) })"
| "do_dump fp flags depth (Json_object kvs) =
     (let emb = flag_set flags JSON_EMBED; flags = flags AND NOT JSON_EMBED in
      if kvs = [] then Some (in_brackets emb (CHR ''{'') (CHR ''}'') [])
      else do { body \<leftarrow> dump_members fp flags depth (iteration flags kvs);
                Some (in_brackets emb (CHR ''{'') (CHR ''}'') (dump_indent flags (depth + 1) False @ body)) })"
| "dump_elements fp flags depth [] = Some []"
| "dump_elements fp flags depth (x # xs) =
     do { out \<leftarrow> do_dump fp flags (depth + 1) x;
          rest \<leftarrow> dump_elements fp flags depth xs;
          Some (out @ after_element flags depth (xs \<noteq> []) @ rest) }"
| "dump_members fp flags depth [] = Some []"
| "dump_members fp flags depth ((key, v) # kvs) =
     do { out \<leftarrow> do_dump fp flags (depth + 1) v;
          rest \<leftarrow> dump_members fp flags depth kvs;
          Some (snd (dump_string flags (cstr key)) @ separator flags @ out @ after_element flags depth (kvs \<noteq> []) @ rest) }"

definition json_dump_callback :: "'r fpu \<Rightarrow> 'r json_p \<Rightarrow> u32 \<Rightarrow> string option" where
  "json_dump_callback fp json flags =
     (if \<not> flag_set flags JSON_ENCODE_ANY \<and> \<not> json_is_array json \<and> \<not> json_is_object json then None
      else do { v \<leftarrow> json; do_dump fp flags 0 v })"

definition json_dumps :: "'r fpu \<Rightarrow> 'r json_p \<Rightarrow> u32 \<Rightarrow> string option" where
  "json_dumps fp json flags = map_option cstr (json_dump_callback fp json flags)"

end
