(* ===== verification/Spec2Isabelle.thy ===== *)
theory Spec2Isabelle
  imports Fletcher32 Basic_Json Fs_Utils Utils Sector_Cache Ssbl_Sanity Ssbl Part_File Ssbl_Boot Mqtt_Codec Http_Response Websock_Frames Hashtable Jansson_Load Jansson_Dump
begin

text \<open>
  A verification development of the Talaria TWO SDK: its second stage boot loader and the components
  that applications link.

  \<^bold>\<open>The program.\<close>  A device holds two or more firmware images in flash and three control files in its root file
  system: \<open>part.json\<close> (the images, their versions, sectors and boot arguments), \<open>boot.json\<close> (the index of
  the image to boot) and \<open>fota_config.json\<close> (the installed package).  At reset the boot loader
  (\<open>apps/ssbl\<close>) repairs the control files from their backups with Fletcher-32 checksums, reads the two
  JSON files with the streaming tokenizer, selects an image, copies its ELF sections to RAM and enters
  it.  An application talks to its cloud with the HTTP client, the WebSocket client and the MQTT packet
  library, and writes flash through the sector cache.

  \<^bold>\<open>Conventions.\<close>  A C structure is a record, an enumeration a datatype, an unsigned integer a word of its width;
  \<open>int\<close> values are integers with \<open>s32\<close> where the code converts or wraps.  Characters are \<open>char\<close>, buffers are lists
  of their fixed size.  A failed assertion, a signed overflow, an access outside of a buffer, through a null pointer or
  of an uninitialised variable is \<^const>\<open>None\<close> (or the outcome \<open>Fault\<close>), so that a theorem that a run gives \<open>Some\<close>
  says that it is free of them; values the code may read before writing are explicit arguments.  What
  is not in the sources is a parameter: the kernel's files and heap (\<open>env\<close> in \<open>Stdio\<close>), the SPI flash
  (\<open>spi_ops\<close> with the hypothesis \<open>nor_flash\<close>), sockets and TLS (\<open>transport\<close> in \<open>Http_Client\<close>), the byte source
  of MQTT (\<open>getfn\<close>).  Every hypothesis on such a parameter has an instance in a witness.

  \<^bold>\<open>Theories and sources.\<close>
  \<^item> \<open>Prelude\<close>: machine types, the C library's string and number functions, shared lemmas.
  \<^item> \<open>Fletcher32\<close> (components/checksum): the blocked loop at its 32-bit width equals the textbook sums; which
    corruptions it detects.
  \<^item> \<open>Basic_Json\<close> (components/json/basic_json): the tokenizer as a state machine; it never leaves its buffer, ends on
    every input, and reads back printed strings and numbers.
  \<^item> \<open>Stdio\<close>, \<open>Fs_Utils\<close> (components/utils/src/fs_utils.c): the file layer and the file utilities, with their
    behaviour under failing calls.
  \<^item> \<open>Utils\<close> (components/utils/src/utils.c): version comparison and string reversal.
  \<^item> \<open>Byte_Store\<close>, \<open>Sector_Cache\<close> (components/utils/src/sector_cache.c and its two copies): the interface of a
    cached byte store and its implementation on NOR flash; coherence of reads, writes, flushes and
    erases for the one-entry cache the SDK configures, and what goes wrong with two entries or odd bytes.
  \<^item> \<open>Ssbl_Sanity\<close>, \<open>Ssbl\<close>, \<open>Part_File\<close>, \<open>Ssbl_Boot\<close> (apps/ssbl/src/ssbl.c): repair of the control files (the locale
    \<open>control_file\<close>, interpreted for each of the three), the reader of \<open>part.json\<close> against the format (JSON in any
    layout, with the file of the repository as an instance), boot arguments, the ELF loader, and \<open>main\<close> as a whole, on
    the control files of \<open>root_fs/root\<close> among others.
  \<^item> \<open>Mqtt_Packet\<close>, \<open>Mqtt_Messages\<close>, \<open>Mqtt_Codec\<close> (components/mqtt): primitives, messages, and the contract of
    a codec (the locale \<open>packet_codec\<close>, interpreted for PUBLISH, SUBSCRIBE and CONNECT) with delivery over a
    fragmented stream.
  \<^item> \<open>Http_Client\<close>, \<open>Http_Response\<close> (components/http/src/http_client.c): the client as a whole; delivery of a body in
    segments, the bound of the receive buffer, and two runs that do not end well.
  \<^item> \<open>Websock\<close>, \<open>Websock_Frames\<close> (components/websocket/src/websock.c): the client on top of HTTP; what it sends against a
    strict reader of RFC 6455, what it receives, and the frames it cannot read.
  \<^item> \<open>Lookup3\<close>, \<open>Hashtable\<close> (components/json/jansson/src/lookup3.h, hashtable.c): the hash function of the JSON library and its
    hash table, a store of pairs linked in two rings; the interface of an insertion-ordered table (the locale
    \<open>ordered_table\<close>), which the table implements through every rehashing.
  \<^item> \<open>Jansson\<close> (utf.c, value.c): UTF-8 and JSON values as trees, with objects as association lists, which is what
    \<open>Hashtable\<close> justifies.  From here on the heap does not fail, and \<open>double\<close> is a type parameter with the
    operations the code uses (\<open>fpu\<close>).
  \<^item> \<open>Jansson_Load\<close>, \<open>Jansson_Dump\<close> (load.c, strtod.c, strconv.c, dump.c): the parser and the printer.

  \<^bold>\<open>Loops and fuel.\<close>  Loops are structural or have a termination proof, with the exception of those whose end
  depends on the peer: \<open>http_client_resp_recv\<close>, \<open>ws_recv_internal\<close> and \<open>ws_recv_payload\<close> take fuel.  Their theorems state that
  a given fuel, one unit for every segment or ping that arrives, gives the result; that the early
  close of a connection never ends is stated for every fuel.  \<open>ssbl_boots\<close> counts resets: four boots are enough, one
  for each control file and one to start.  The JSON parser has two units of fuel for every byte of its input.

  \<^bold>\<open>Not modelled.\<close>  Printing and debug output, locks, timers and thread set-up; the register writes of a
  reset; the kernel, lwIP and mbedTLS, which the repository has as headers and binary libraries; the UPnP
  stack, the AWS IoT SDK and the sample applications, third-party packages and glue over these libraries; host-side scripts.
  The hash function is modelled as it is built without \<open>NO_MASKING_TRICK\<close>, which memory checkers define.
\<close>

end
